(* ===== verification/Vca_Prelude.thy ===== *)
theory Vca_Prelude
  imports Main "HOL-Library.Word"
begin

text \<open>
  Shared ground of the development: the machine integer types of the driver sources, the
  error codes they return, the ways kernel code stops abnormally, generic facts about lists
  and words, and the bit fields of C structures with the rewrite rules \<open>bit_fields\<close>.
\<close>

unbundle bit_operations_syntax

section \<open>Types of the driver sources\<close>

type_synonym u8 = "8 word"
type_synonym u16 = "16 word"
type_synonym u32 = "32 word"
type_synonym u64 = "64 word"

text \<open>
  Error codes, the constants of the kernel's errno headers the sources return with a
  minus sign. \<open>EOK\<close> stands for the return value 0.
\<close>

datatype errno =
  EOK | EPERM | EIO | ENXIO | EAGAIN | ENOMEM | EBUSY | EEXIST | ENODEV | EINVAL | EDOM
  | ENOSYS | ETIME | ENOSPC | ELOOP | EPROTO

text \<open>
  Abnormal ends of kernel code: a failed \<open>BUG_ON\<close>, a dereference of the null pointer, an
  access through a pointer that belongs to no object of the model, and a division by zero.
\<close>

datatype crash = BUG | NULL_DEREF | WILD_ACCESS | DIV_ZERO

text \<open>
  The ways a call ends: it crashes, it waits for an event that does not come, or it returns.
\<close>

datatype 'a outcome = Crashes crash | Waits | Returns 'a

definition obind :: "'a outcome \<Rightarrow> ('a \<Rightarrow> 'b outcome) \<Rightarrow> 'b outcome" where
  "obind m f = (case m of Crashes e \<Rightarrow> Crashes e | Waits \<Rightarrow> Waits | Returns x \<Rightarrow> f x)"

lemma obind_simps [simp]:
  "obind (Crashes e) f = Crashes e" "obind Waits f = Waits" "obind (Returns x) f = f x"
  by (simp_all add: obind_def)

definition of_sum :: "crash + 'a \<Rightarrow> 'a outcome" where
  "of_sum r = (case r of Inl e \<Rightarrow> Crashes e | Inr x \<Rightarrow> Returns x)"

lemma of_sum_simps [simp]: "of_sum (Inl e) = Crashes e" "of_sum (Inr x) = Returns x"
  by (simp_all add: of_sum_def)

section \<open>Lists\<close>

text \<open>The bytes from an index on replaced by others.\<close>

definition overwrite :: "'a list \<Rightarrow> nat \<Rightarrow> 'a list \<Rightarrow> 'a list" where
  "overwrite xs i ys = take i xs @ ys @ drop (i + length ys) xs"

lemma length_overwrite [simp]: "i + length ys \<le> length xs \<Longrightarrow> length (overwrite xs i ys) = length xs"
  by (simp add: overwrite_def)

lemma overwrite_Nil [simp]: "overwrite xs i [] = xs"
  by (simp add: overwrite_def)

lemma overwrite_append:
  "i + length ys + length zs \<le> length xs \<Longrightarrow> overwrite (overwrite xs i ys) (i + length ys) zs = overwrite xs i (ys @ zs)"
  by (simp add: overwrite_def ac_simps)

lemma nth_overwrite:
  assumes "i + length ys \<le> length xs" and "k < length xs"
  shows "overwrite xs i ys ! k = (if i \<le> k \<and> k < i + length ys then ys ! (k - i) else xs ! k)"
  using assms by (auto simp: overwrite_def nth_append min_def)

lemma distinct_butlast_last:
  "distinct xs \<Longrightarrow> xs \<noteq> [] \<Longrightarrow> last xs \<notin> set (butlast xs)"
  by (metis append_butlast_last_id distinct.simps(2) distinct1_rotate rotate1.simps(2))

section \<open>Words\<close>

lemma unat_inc:
  fixes w :: "'a::len word"
  assumes "unat w < 2 ^ LENGTH('a) - 1"
  shows "unat (w + 1) = unat w + 1"
proof -
  have "unat w + 1 < 2 ^ LENGTH('a)"
    using assms by linarith
  then show ?thesis
    by (metis unat_add_lem unat_1)
qed

lemma unat_of_nat_small:
  "n < 2 ^ LENGTH('a) \<Longrightarrow> unat (of_nat n :: 'a::len word) = n"
  by (simp add: unat_of_nat)

lemma unat_pow2:
  assumes "k < LENGTH('a)"
  shows "unat (2 ^ k :: 'a::len word) = 2 ^ k"
proof -
  have "(2 :: nat) ^ k < 2 ^ LENGTH('a)" using assms by (intro power_strict_increasing) simp_all
  then show ?thesis using unat_of_nat_small [of "2 ^ k", where 'a = 'a] by simp
qed

lemma word_pow2_div:
  assumes "j \<le> k" and "k < LENGTH('a)"
  shows "(2 ^ k :: 'a::len word) div 2 ^ j = 2 ^ (k - j)"
  using assms by (simp add: word_unat_eq_iff unat_div unat_pow2 power_diff)

lemma word_eq_of_nat_iff:
  fixes w :: "'a::len word"
  assumes "n < 2 ^ LENGTH('a)"
  shows "(w = of_nat n) = (unat w = n)"
  using unat_of_nat_small [OF assms] by auto

lemma unat_inc_nz:
  fixes w :: "'a::len word"
  shows "w + 1 \<noteq> 0 \<Longrightarrow> unat (w + 1) = Suc (unat w)"
  using unatSuc [of w] by (simp add: add.commute)

lemma unat_ge_2:
  fixes w :: "'a::len word"
  assumes "w \<noteq> 0" and "w \<noteq> 1"
  shows "2 \<le> unat w"
proof (rule ccontr)
  assume "\<not> 2 \<le> unat w"
  then have "unat w = 0 \<or> unat w = 1" by linarith
  then have "(of_nat (unat w) :: 'a word) \<in> {of_nat 0, of_nat 1}" by (elim disjE) (simp_all only:, simp_all)
  then show False using assms by simp
qed

lemma unat_plus_small:
  fixes a b :: "'a::len word"
  shows "unat a + unat b < 2 ^ LENGTH('a) \<Longrightarrow> unat (a + b) = unat a + unat b"
  by (simp add: unat_add_lem)

lemma unat_dec:
  fixes w :: "'a::len word"
  assumes "w \<noteq> 0"
  shows "unat (w - 1) = unat w - 1"
  using assms by (rule unat_minus_one)

section \<open>Bit fields\<close>

text \<open>
  Bit fields of C structures: reading the field of \<open>n\<close> bits at \<open>pos\<close>, and storing into it, which
  drops the bits of the value that do not fit.
\<close>

definition bit_field :: "nat \<Rightarrow> nat \<Rightarrow> 'a::len word \<Rightarrow> 'a word" where
  "bit_field pos n v = drop_bit pos v AND mask n"

definition set_bit_field :: "nat \<Rightarrow> nat \<Rightarrow> 'a::len word \<Rightarrow> 'a word \<Rightarrow> 'a word" where
  "set_bit_field pos n x v = (v AND NOT (push_bit pos (mask n))) OR push_bit pos (x AND mask n)"

named_theorems bit_fields

lemma bit_field_same [bit_fields]:
  fixes x v :: "'a::len word"
  shows "pos + n \<le> LENGTH('a) \<Longrightarrow> bit_field pos n (set_bit_field pos n x v) = x AND mask n"
  unfolding bit_field_def set_bit_field_def
  by (rule bit_word_eqI) (auto simp: bit_simps)

lemma bit_field_other [bit_fields]:
  "pos + n \<le> pos' \<or> pos' + n' \<le> pos \<Longrightarrow> bit_field pos n (set_bit_field pos' n' x v) = bit_field pos n v"
  unfolding bit_field_def set_bit_field_def
  by (rule bit_word_eqI) (auto simp: bit_simps dest: bit_imp_le_length)

end
