(* ===== verification/Ring_Window.thy ===== *)
theory Ring_Window
  imports Main
begin

text \<open>
  Rings with free running counters, as the virtio rings and the rings of the block device have them: \<open>n\<close>
  entries, and two counters that run modulo \<open>m\<close>, a multiple of \<open>n\<close>. The window holds the entries that
  one side has written and the other has not read yet.
\<close>

definition ring_counters :: "nat \<Rightarrow> nat \<Rightarrow> bool" where
  "ring_counters n m = (0 < n \<and> n < m \<and> n dvd m)"

definition cwindow :: "nat \<Rightarrow> nat \<Rightarrow> nat \<Rightarrow> nat \<Rightarrow> 'a list \<Rightarrow> 'a list \<Rightarrow> bool" where
  "cwindow m n new old ring xs =
     (old < m \<and> new = (old + length xs) mod m \<and> length xs \<le> n \<and> (\<forall>k < length xs. ring ! ((old + k) mod n) = xs ! k))"

lemma mod_window_inj:
  assumes "(a + i) mod n = (a + j) mod n" and "i < n" and "j < (n :: nat)"
  shows "i = j"
proof (rule ccontr)
  assume "i \<noteq> j"
  then consider "i < j" | "j < i" by linarith
  then show False
  proof cases
    case 1
    then have "n dvd j - i" using assms(1) mod_eq_dvd_iff_nat [of "a + i" "a + j" n] by simp
    then show False using 1 assms(3) by (auto dest: dvd_imp_le)
  next
    case 2
    then have "n dvd i - j" using assms(1) mod_eq_dvd_iff_nat [of "a + j" "a + i" n] by simp
    then show False using 2 assms(2) by (auto dest: dvd_imp_le)
  qed
qed

lemma counter_mod: "ring_counters n m \<Longrightarrow> (a mod m) mod n = a mod n"
  by (simp add: ring_counters_def mod_mod_cancel)

lemma cwindow_count:
  assumes "ring_counters n m" and "cwindow m n new old ring xs"
  shows "(new + m - old) mod m = length xs"
proof -
  have l: "length xs < m" "old < m" using assms by (auto simp: ring_counters_def cwindow_def)
  have "new = (old + length xs) mod m" using assms(2) by (simp add: cwindow_def)
  then have "(new + (m - old)) mod m = ((old + length xs) + (m - old)) mod m" by (simp only: mod_add_left_eq)
  also have "\<dots> = length xs" using l by simp
  finally show ?thesis using l by simp
qed

lemma cwindow_empty:
  assumes "ring_counters n m" and "cwindow m n new old ring xs"
  shows "old = new \<longleftrightarrow> xs = []"
proof
  assume "old = new"
  then show "xs = []" using cwindow_count [OF assms] by simp
qed (use assms in \<open>simp add: cwindow_def\<close>)

lemma cwindow_push:
  assumes n: "ring_counters n m" "length ring = n" and w: "cwindow m n new old ring xs" and space: "length xs < n"
  shows "cwindow m n ((new + 1) mod m) old (ring[new mod n := x]) (xs @ [x])"
proof -
  have new: "new mod n = (old + length xs) mod n" using w counter_mod [OF n(1)] by (simp add: cwindow_def)
  have lt: "(old + length xs) mod n < length ring" using n by (simp add: ring_counters_def)
  have "ring[new mod n := x] ! ((old + k) mod n) = (xs @ [x]) ! k" if "k < Suc (length xs)" for k
  proof (cases "k = length xs")
    case True
    then show ?thesis unfolding new using lt by simp
  next
    case False
    then have k: "k < length xs" using that by simp
    have "(old + length xs) mod n \<noteq> (old + k) mod n"
      using mod_window_inj [of old "length xs" n k] k space by auto
    then show ?thesis unfolding new using k w by (simp add: cwindow_def nth_append)
  qed
  then show ?thesis using w space by (simp add: cwindow_def mod_simps)
qed

lemma cwindow_pop:
  assumes n: "ring_counters n m" and w: "cwindow m n new old ring (x # xs)"
  shows "old \<noteq> new" "ring ! (old mod n) = x" "cwindow m n new ((old + 1) mod m) ring xs"
proof -
  show "old \<noteq> new" using cwindow_empty [OF n w] by simp
  have at: "ring ! ((old + k) mod n) = (x # xs) ! k" if "k < Suc (length xs)" for k
    using w that by (simp add: cwindow_def)
  show "ring ! (old mod n) = x" using at [of 0] by simp
  have "ring ! (((old + 1) mod m + k) mod n) = xs ! k" if "k < length xs" for k
  proof -
    have "((old + 1) mod m + k) mod n = (((old + 1) mod m) mod n + k) mod n" by (simp add: mod_simps)
    also have "\<dots> = (old + Suc k) mod n" unfolding counter_mod [OF n] by (simp add: mod_simps)
    finally show ?thesis using at [of "Suc k"] that by simp
  qed
  then show "cwindow m n new ((old + 1) mod m) ring xs"
    using w n by (simp add: cwindow_def ring_counters_def mod_simps)
qed

text \<open>With counters modulo twice the size a full ring is told from an empty one.\<close>

lemma cwindow_full:
  assumes n: "0 < n" and w: "cwindow (2 * n) n new old ring xs"
  shows "new \<noteq> old \<and> new mod n = old mod n \<longleftrightarrow> length xs = n"
proof -
  have c: "ring_counters n (2 * n)" using n by (simp add: ring_counters_def)
  have ne: "new \<noteq> old \<longleftrightarrow> xs \<noteq> []" using cwindow_empty [OF c w] by metis
  have idx: "new mod n = (old + length xs) mod n" using w counter_mod [OF c] by (simp add: cwindow_def)
  have le: "length xs \<le> n" using w by (simp add: cwindow_def)
  show ?thesis
  proof
    assume a: "new \<noteq> old \<and> new mod n = old mod n"
    then have "(old + length xs) mod n = (old + 0) mod n" using idx by simp
    then have "\<not> length xs < n" using mod_window_inj [of old "length xs" n 0] n ne a by auto
    then show "length xs = n" using le by simp
  qed (use n ne idx in auto)
qed

end
