(* ===== verification/Vcablk_Ring.thy ===== *)
theory Vcablk_Ring
  imports Vca_Prelude Ring_Window
begin

text \<open>
  The rings between the two halves of the block device (\<open>blockio/vcablk_common\<close>): requests and
  completions, and the counters of a ring, which run modulo twice its size so that a full ring and
  an empty one differ.
\<close>

unbundle bit_operations_syntax

section \<open>Counters\<close>

text \<open>
  The macros compute with \<open>int\<close>; for the 16 bit counters and sizes of the rings the values stay below
  \<open>2 ^ 17\<close>, so 32 bit words hold them. Results are stored in 16 bit variables.
\<close>

definition VCA_RB_COUNTER_EQ :: "u16 \<Rightarrow> u16 \<Rightarrow> u16 \<Rightarrow> bool" where
  "VCA_RB_COUNTER_EQ cnt1 cnt2 sz =
     ((ucast cnt1 :: u32) AND (push_bit 1 (ucast sz) - 1) = (ucast cnt2 :: u32) AND (push_bit 1 (ucast sz) - 1))"

definition VCA_RB_COUNTER_ADD :: "u16 \<Rightarrow> u32 \<Rightarrow> u16 \<Rightarrow> u16" where
  "VCA_RB_COUNTER_ADD cnt val sz = ucast ((ucast cnt + val) AND (push_bit 1 (ucast sz) - 1))"

definition VCA_RB_COUNTER_TO_IDX :: "u16 \<Rightarrow> u16 \<Rightarrow> u32" where
  "VCA_RB_COUNTER_TO_IDX cnt sz = ucast cnt AND (ucast sz - 1)"

definition VCA_RB_BUFF_USED :: "u16 \<Rightarrow> u16 \<Rightarrow> u16 \<Rightarrow> u32" where
  "VCA_RB_BUFF_USED head_cnt tail_cnt sz =
     (if head_cnt \<le> tail_cnt then ucast tail_cnt - ucast head_cnt
      else ucast tail_cnt + push_bit 1 (ucast sz) - ucast head_cnt)"

definition VCA_RB_BUFF_EMPTY :: "u16 \<Rightarrow> u16 \<Rightarrow> bool" where
  "VCA_RB_BUFF_EMPTY head_cnt tail_cnt = (head_cnt = tail_cnt)"

definition VCA_RB_BUFF_FULL :: "u16 \<Rightarrow> u16 \<Rightarrow> u16 \<Rightarrow> bool" where
  "VCA_RB_BUFF_FULL head_cnt tail_cnt sz =
     (\<not> VCA_RB_BUFF_EMPTY head_cnt tail_cnt \<and> VCA_RB_COUNTER_TO_IDX head_cnt sz = VCA_RB_COUNTER_TO_IDX tail_cnt sz)"

section \<open>Structures\<close>

abbreviation (input) REQUEST_READ :: u8 where "REQUEST_READ \<equiv> 1"
abbreviation (input) REQUEST_WRITE :: u8 where "REQUEST_WRITE \<equiv> 2"
abbreviation (input) REQUEST_SYNC :: u8 where "REQUEST_SYNC \<equiv> 3"
abbreviation (input) SECTOR_SIZE :: nat where "SECTOR_SIZE \<equiv> 512"
abbreviation (input) SECTOR_SHIFT :: nat where "SECTOR_SHIFT \<equiv> 9"

record vcablk_request =
  phys_buff :: u64
  sector :: u64
  sectors_num :: u64
  cookie :: u16
  request_type :: u8

text \<open>The result of a completion is a signed byte.\<close>

record vcablk_completion =
  ack_cookie :: u16
  ack_ret :: u8

record 'a vcablk_ring =
  num_elems :: u16
  last_add :: u16
  last_used :: u16
  elems :: "'a list"

section \<open>The window of a ring\<close>

definition rb_size :: "u16 \<Rightarrow> bool" where
  "rb_size sz = (\<exists>k \<le> 14. sz = 2 ^ k)"

definition rb_window :: "u16 \<Rightarrow> u16 \<Rightarrow> u16 \<Rightarrow> 'a list \<Rightarrow> 'a list \<Rightarrow> bool" where
  "rb_window sz new old ring xs = cwindow (2 * unat sz) (unat sz) (unat new) (unat old) ring xs"

lemma rb_size_bounds:
  assumes "rb_size sz"
  shows "0 < unat sz" "unat sz \<le> 16384" "ring_counters (unat sz) (2 * unat sz)"
proof -
  obtain k where k: "k \<le> 14" "sz = 2 ^ k" using assms by (auto simp: rb_size_def)
  have u: "unat sz = 2 ^ k" using unat_pow2 [of k, where 'a = 16] k by simp
  have "(2 :: nat) ^ k \<le> 2 ^ 14" using k(1) by (intro power_increasing) simp_all
  then show "0 < unat sz" "unat sz \<le> 16384" using u by simp_all
  then show "ring_counters (unat sz) (2 * unat sz)" by (simp add: ring_counters_def)
qed

lemma unat_u16_u32: "unat (ucast (w :: u16) :: u32) = unat w"
  using unsigned_less [of w, where 'a = nat] by (simp add: unsigned_ucast_eq take_bit_nat_eq_self)

lemma and_pow2_mask:
  fixes w :: u32
  assumes "unat m = 2 ^ k" and "k < 32"
  shows "unat (w AND (m - 1)) = unat w mod 2 ^ k"
proof -
  have "m = 2 ^ k" using assms unat_pow2 [of k, where 'a = 32] by (simp add: word_unat_eq_iff)
  then have "m - 1 = mask k" by (simp add: mask_eq_exp_minus_1)
  then have "unat (w AND (m - 1)) = take_bit k (unat w)"
    by (simp only: take_bit_eq_mask [symmetric] unsigned_take_bit_eq)
  then show ?thesis by (simp only: take_bit_nat_def)
qed

lemma rb_size_masks:
  assumes "rb_size sz"
  shows "unat (w AND (ucast sz - 1) :: u32) = unat w mod unat sz"
    "unat (w AND (push_bit 1 (ucast sz) - 1) :: u32) = unat w mod (2 * unat sz)"
proof -
  obtain k where k: "k \<le> 14" "sz = 2 ^ k" using assms by (auto simp: rb_size_def)
  have u: "unat sz = 2 ^ k" using unat_pow2 [of k, where 'a = 16] k by simp
  show "unat (w AND (ucast sz - 1) :: u32) = unat w mod unat sz"
    unfolding u by (rule and_pow2_mask) (use u k unat_u16_u32 in simp_all)
  have "unat (push_bit 1 (ucast sz) :: u32) = 2 ^ Suc k"
    using u rb_size_bounds(2) [OF assms] by (simp add: push_bit_eq_mult unat_word_ariths unat_u16_u32)
  from and_pow2_mask [OF this] show "unat (w AND (push_bit 1 (ucast sz) - 1) :: u32) = unat w mod (2 * unat sz)"
    unfolding u using k by simp
qed

lemma counter_idx: "rb_size sz \<Longrightarrow> unat (VCA_RB_COUNTER_TO_IDX cnt sz) = unat cnt mod unat sz"
  by (simp add: VCA_RB_COUNTER_TO_IDX_def rb_size_masks(1) unat_u16_u32)

lemma counter_add:
  assumes "rb_size sz"
  shows "unat (VCA_RB_COUNTER_ADD cnt 1 sz) = (unat cnt + 1) mod (2 * unat sz)"
proof -
  let ?w = "(ucast cnt + 1 :: u32) AND (push_bit 1 (ucast sz) - 1)"
  have "unat (ucast cnt + 1 :: u32) = unat cnt + 1"
    using unsigned_less [of cnt, where 'a = nat] by (simp add: unat_word_ariths unat_u16_u32)
  then have w: "unat ?w = (unat cnt + 1) mod (2 * unat sz)" by (simp only: rb_size_masks(2) [OF assms])
  then have "unat ?w < 65536" using rb_size_bounds [OF assms] by (simp add: less_le_trans [OF mod_less_divisor])
  then show ?thesis using w by (simp add: VCA_RB_COUNTER_ADD_def unsigned_ucast_eq take_bit_nat_eq_self)
qed

lemma rb_window_empty:
  assumes "rb_size sz" and "rb_window sz new old ring xs"
  shows "old = new \<longleftrightarrow> xs = []"
  using cwindow_empty [OF rb_size_bounds(3) [OF assms(1)]] assms(2) by (simp add: rb_window_def word_unat_eq_iff)

lemma rb_window_full:
  assumes "rb_size sz" and "rb_window sz new old ring xs"
  shows "VCA_RB_BUFF_FULL new old sz \<longleftrightarrow> length xs = unat sz"
  using cwindow_full [OF rb_size_bounds(1) [OF assms(1)]] assms(2)
  by (simp add: rb_window_def VCA_RB_BUFF_FULL_def VCA_RB_BUFF_EMPTY_def word_unat_eq_iff counter_idx [OF assms(1)])

lemma rb_window_push:
  assumes "rb_size sz" "length ring = unat sz" "rb_window sz new old ring xs" "length xs < unat sz"
  shows "rb_window sz (VCA_RB_COUNTER_ADD new 1 sz) old (ring[unat (VCA_RB_COUNTER_TO_IDX new sz) := x]) (xs @ [x])"
  using cwindow_push [OF rb_size_bounds(3) [OF assms(1)]] assms
  by (simp add: rb_window_def counter_add [OF assms(1)] counter_idx [OF assms(1)])

lemma rb_window_pop:
  assumes "rb_size sz" and "rb_window sz new old ring (x # xs)"
  shows "old \<noteq> new" "ring ! unat (VCA_RB_COUNTER_TO_IDX old sz) = x" "rb_window sz new (VCA_RB_COUNTER_ADD old 1 sz) ring xs"
proof -
  have w: "cwindow (2 * unat sz) (unat sz) (unat new) (unat old) ring (x # xs)" using assms(2) by (simp add: rb_window_def)
  note p = cwindow_pop [OF rb_size_bounds(3) [OF assms(1)] w]
  show "old \<noteq> new" using p(1) by auto
  show "ring ! unat (VCA_RB_COUNTER_TO_IDX old sz) = x" using p(2) by (simp add: counter_idx [OF assms(1)])
  show "rb_window sz new (VCA_RB_COUNTER_ADD old 1 sz) ring xs" using p(3) by (simp add: rb_window_def counter_add [OF assms(1)])
qed

end
