(* ===== verification/Vcablk_Media.thy ===== *)
theory Vcablk_Media
  imports Vcablk_Ring
begin

text \<open>
  The storage behind a block device (\<open>blockio/vcablk_bcknd/vcablk_bcknd_media.c\<close>): a piece of memory, or
  a file. What the kernel does on reading, writing and synchronising a file is a parameter. Results are
  the integers the code returns.
\<close>

unbundle bit_operations_syntax

abbreviation (input) minus_EIO :: int where "minus_EIO \<equiv> - 5"
abbreviation (input) minus_ENOMEM :: int where "minus_ENOMEM \<equiv> - 12"
abbreviation (input) minus_EACCES :: int where "minus_EACCES \<equiv> - 13"

text \<open>The types of storage that is in use; \<open>VCABLK_DISK_TYPE_UNINIT\<close> is set on the way to freeing it.\<close>

datatype VCABLK_DISK_TYPE = VCABLK_DISK_TYPE_FILE | VCABLK_DISK_TYPE_MEMORY

record vcablk_media =
  read_only :: bool
  size_bytes :: u64
  media_type :: VCABLK_DISK_TYPE
  contents :: "u8 list"

text \<open>
  \<open>kernel_write\<close> and \<open>kernel_read\<close> at an offset: the number of bytes done, or an error, with the file or the
  bytes read.
\<close>

record file_env =
  kernel_write :: "u8 list \<Rightarrow> u64 \<Rightarrow> u8 list \<Rightarrow> int \<times> u8 list"
  kernel_read :: "u8 list \<Rightarrow> u64 \<Rightarrow> nat \<Rightarrow> int \<times> u8 list"
  vfs_fsync :: "u8 list \<Rightarrow> int"

section \<open>Transfers\<close>

text \<open>
  Copies between the storage and a buffer; a copy that leaves one of them is a wild access. The result
  is the code with the storage and the buffer after it.
\<close>

definition media_transfer_mem ::
  "vcablk_media \<Rightarrow> u64 \<Rightarrow> u64 \<Rightarrow> u8 list \<Rightarrow> bool \<Rightarrow> crash + (int \<times> vcablk_media \<times> u8 list)" where
  "media_transfer_mem media sec nsect buffer write =
     (let offset = push_bit SECTOR_SHIFT sec;
          nbytes = push_bit SECTOR_SHIFT nsect;
          off = unat offset;
          n = unat nbytes
      in if size_bytes media < offset + nbytes then Inr (minus_EIO, media, buffer)
         else if length (contents media) < off + n \<or> length buffer < n then Inl WILD_ACCESS
         else if write then Inr (0, media\<lparr>contents := overwrite (contents media) off (take n buffer)\<rparr>, buffer)
         else Inr (0, media, overwrite buffer 0 (take n (drop off (contents media)))))"

text \<open>The number of bytes is passed on as a 32 bit value. A short or failed transfer is logged.\<close>

definition media_transfer_file ::
  "file_env \<Rightarrow> vcablk_media \<Rightarrow> u64 \<Rightarrow> u64 \<Rightarrow> u8 list \<Rightarrow> bool \<Rightarrow> crash + (int \<times> vcablk_media \<times> u8 list)" where
  "media_transfer_file env media sec nsect buffer write =
     (let offset = push_bit SECTOR_SHIFT sec;
          nbytes = push_bit SECTOR_SHIFT nsect;
          n = unat (ucast nbytes :: u32)
      in if size_bytes media < offset + nbytes then Inr (minus_EIO, media, buffer)
         else if write \<and> read_only media then Inr (minus_EACCES, media, buffer)
         else if length buffer < n then Inl WILD_ACCESS
         else if write then
           Inr (0, media\<lparr>contents := snd (kernel_write env (contents media) offset (take n buffer))\<rparr>, buffer)
         else Inr (0, media, overwrite buffer 0 (take n (snd (kernel_read env (contents media) offset n)))))"

definition vcablk_media_transfer ::
  "file_env \<Rightarrow> vcablk_media \<Rightarrow> u64 \<Rightarrow> u64 \<Rightarrow> u8 list \<Rightarrow> bool \<Rightarrow> crash + (int \<times> vcablk_media \<times> u8 list)" where
  "vcablk_media_transfer env media =
     (case media_type media of
        VCABLK_DISK_TYPE_MEMORY \<Rightarrow> media_transfer_mem media
      | VCABLK_DISK_TYPE_FILE \<Rightarrow> media_transfer_file env media)"

definition vcablk_media_sync :: "file_env \<Rightarrow> vcablk_media \<Rightarrow> int" where
  "vcablk_media_sync env media =
     (case media_type media of
        VCABLK_DISK_TYPE_MEMORY \<Rightarrow> 0
      | VCABLK_DISK_TYPE_FILE \<Rightarrow> vfs_fsync env (contents media))"

section \<open>Creation\<close>

text \<open>
  Creation returns the storage or an error pointer, here its number (\<open>Inl\<close>). The arguments tell whether
  the path fits, whether the structure can be allocated, and what the memory or the file holds
  (an error number when it cannot be had).
\<close>

definition media_create :: "bool \<Rightarrow> bool \<Rightarrow> u64 \<Rightarrow> bool \<Rightarrow> VCABLK_DISK_TYPE \<Rightarrow> vcablk_media option" where
  "media_create fits mem sz ro ty =
     (if \<not> fits \<or> \<not> mem then None else Some \<lparr>read_only = ro, size_bytes = sz, media_type = ty, contents = []\<rparr>)"

definition vcablk_media_create_file :: "bool \<Rightarrow> bool \<Rightarrow> int + u8 list \<Rightarrow> u64 \<Rightarrow> bool \<Rightarrow> int + vcablk_media" where
  "vcablk_media_create_file fits mem file sz ro =
     (case media_create fits mem sz ro VCABLK_DISK_TYPE_FILE of
        None \<Rightarrow> Inl 12
      | Some m \<Rightarrow> (case file of Inl e \<Rightarrow> Inl e | Inr c \<Rightarrow> Inr (m\<lparr>contents := c\<rparr>)))"

definition vcablk_media_create_memory :: "bool \<Rightarrow> bool \<Rightarrow> u8 list option \<Rightarrow> u64 \<Rightarrow> bool \<Rightarrow> int + vcablk_media" where
  "vcablk_media_create_memory fits mem block sz ro =
     (case media_create fits mem sz ro VCABLK_DISK_TYPE_MEMORY of
        None \<Rightarrow> Inl 12
      | Some m \<Rightarrow> (case block of None \<Rightarrow> Inl 12 | Some c \<Rightarrow> Inr (m\<lparr>contents := c\<rparr>)))"

text \<open>\<open>IS_ERR\<close>: error pointers are the addresses above -4096.\<close>

definition IS_ERR :: "int + 'a \<Rightarrow> bool" where
  "IS_ERR p = (case p of Inl e \<Rightarrow> - 4096 < e \<and> e < 0 | Inr _ \<Rightarrow> False)"

definition vcablk_media_size :: "vcablk_media \<Rightarrow> u64" where
  "vcablk_media_size media = size_bytes media"

definition vcablk_media_read_only :: "vcablk_media \<Rightarrow> bool" where
  "vcablk_media_read_only media = read_only media"

section \<open>Working storage\<close>

text \<open>A file system that reads and writes within a file as it should.\<close>

definition files_work :: "file_env \<Rightarrow> bool" where
  "files_work env =
     ((\<forall>c off ys. unat off + length ys \<le> length c \<longrightarrow> kernel_write env c off ys = (int (length ys), overwrite c (unat off) ys))
      \<and> (\<forall>c off n. unat off + n \<le> length c \<longrightarrow> kernel_read env c off n = (int n, take n (drop (unat off) c)))
      \<and> (\<forall>c. vfs_fsync env c = 0))"

text \<open>Storage of its nominal size that can be written to.\<close>

definition media_works :: "file_env \<Rightarrow> vcablk_media \<Rightarrow> bool" where
  "media_works env m =
     (length (contents m) = unat (size_bytes m)
      \<and> (media_type m = VCABLK_DISK_TYPE_FILE \<longrightarrow> files_work env \<and> \<not> read_only m))"

text \<open>Sectors within the storage.\<close>

definition in_media :: "vcablk_media \<Rightarrow> u64 \<Rightarrow> nat \<Rightarrow> bool" where
  "in_media m sec n = (512 * unat sec + 512 * n \<le> length (contents m))"

lemma sector_bytes:
  assumes "512 * unat (s :: u64) < 2 ^ 64"
  shows "unat (push_bit SECTOR_SHIFT s) = 512 * unat s"
  using assms by (simp add: push_bit_eq_mult unat_word_ariths)

lemma media_room:
  assumes "media_works env m" and "in_media m sec (unat n)" and "unat n \<le> 8"
  shows "unat (push_bit SECTOR_SHIFT sec) = 512 * unat sec" "unat (push_bit SECTOR_SHIFT n) = 512 * unat n"
    "\<not> size_bytes m < push_bit SECTOR_SHIFT sec + push_bit SECTOR_SHIFT n"
    "unat (ucast (push_bit SECTOR_SHIFT n) :: u32) = 512 * unat n"
proof -
  have sz: "length (contents m) = unat (size_bytes m)" "unat (size_bytes m) < 2 ^ 64"
    using assms(1) unsigned_less [of "size_bytes m", where 'a = nat] by (simp_all add: media_works_def)
  have b: "512 * unat sec + 512 * unat n \<le> unat (size_bytes m)" using assms(2) sz by (simp add: in_media_def)
  show s: "unat (push_bit SECTOR_SHIFT sec) = 512 * unat sec" by (rule sector_bytes) (use b sz in simp)
  show k: "unat (push_bit SECTOR_SHIFT n) = 512 * unat n" by (rule sector_bytes) (use assms(3) in simp)
  have "unat (push_bit SECTOR_SHIFT sec + push_bit SECTOR_SHIFT n) = 512 * unat sec + 512 * unat n"
    using unat_plus_small [of "push_bit SECTOR_SHIFT sec" "push_bit SECTOR_SHIFT n"] s k b sz(2) by simp
  then show "\<not> size_bytes m < push_bit SECTOR_SHIFT sec + push_bit SECTOR_SHIFT n" using b by (simp add: word_less_nat_alt)
  show "unat (ucast (push_bit SECTOR_SHIFT n) :: u32) = 512 * unat n"
    using k assms(3) by (simp add: unsigned_ucast_eq take_bit_nat_eq_self)
qed

lemma media_write_run:
  assumes m: "media_works env m" and i: "in_media m sec (unat n)" and n: "unat n \<le> 8" and b: "512 * unat n \<le> length buf"
  shows "vcablk_media_transfer env m sec n buf True =
    Inr (0, m\<lparr>contents := overwrite (contents m) (512 * unat sec) (take (512 * unat n) buf)\<rparr>, buf)"
proof -
  note r = media_room [OF m i n]
  have "512 * unat sec + 512 * unat n \<le> length (contents m)" using i by (simp add: in_media_def)
  then show ?thesis
    using r m b
    by (cases "media_type m")
      (simp_all add: vcablk_media_transfer_def media_transfer_mem_def media_transfer_file_def Let_def media_works_def files_work_def)
qed

lemma media_read_run:
  assumes m: "media_works env m" and i: "in_media m sec (unat n)" and n: "unat n \<le> 8" and b: "512 * unat n \<le> length buf"
  shows "vcablk_media_transfer env m sec n buf False =
    Inr (0, m, overwrite buf 0 (take (512 * unat n) (drop (512 * unat sec) (contents m))))"
proof -
  note r = media_room [OF m i n]
  have "512 * unat sec + 512 * unat n \<le> length (contents m)" using i by (simp add: in_media_def)
  then show ?thesis
    using r m b
    by (cases "media_type m")
      (simp_all add: vcablk_media_transfer_def media_transfer_mem_def media_transfer_file_def Let_def media_works_def files_work_def)
qed

end
