(* ===== verification/Vcablk_Pool.thy ===== *)
theory Vcablk_Pool
  imports Vca_Prelude
begin

text \<open>
  The request pool of the block device front end, \<open>blockio/vcablk/vcablk_pool.h\<close>: a fixed
  number of items chained into a free list through their own headers. The theory models
  every operation of the header file, gives the free list as an abstract queue, and shows
  that each operation acts on that queue as a first-in first-out allocator does.
\<close>

section \<open>State and operations\<close>

definition VCABLK_POOL_USED :: u16 where
  "VCABLK_POOL_USED = 0xFFFF"

text \<open>An item: the header word and the payload bytes behind it.\<close>

record vcablk_pool_head =
  next_free :: u16
  data :: "u8 list"

text \<open>
  The pool. \<open>alloc\<close> is the address of the first item and \<open>items\<close> the array that starts
  there; item \<open>i\<close> has address \<open>alloc + i * alloc_size\<close>.
\<close>

record vcablk_pool_t =
  num :: u16
  head :: u16
  tail :: u16
  alloc_size :: nat
  alloc :: nat
  items :: "vcablk_pool_head list"

text \<open>The size of the header structure, a 16 bit word followed by a flexible array.\<close>

definition sizeof_pool_head :: nat where
  "sizeof_pool_head = 2"

definition get_pool_head_idx :: "vcablk_pool_t \<Rightarrow> nat \<Rightarrow> nat" where
  "get_pool_head_idx pool idx = alloc pool + idx * alloc_size pool"

definition get_pool_head_ptr :: "nat \<Rightarrow> nat" where
  "get_pool_head_ptr ptr = ptr - sizeof_pool_head"

text \<open>The pointer handed out for an item: the address of its payload.\<close>

definition item_data :: "vcablk_pool_t \<Rightarrow> nat \<Rightarrow> nat" where
  "item_data pool idx = get_pool_head_idx pool idx + sizeof_pool_head"

definition set_next_free :: "vcablk_pool_t \<Rightarrow> nat \<Rightarrow> u16 \<Rightarrow> vcablk_pool_t" where
  "set_next_free pool i v = pool\<lparr>items := (items pool)[i := (items pool ! i)\<lparr>next_free := v\<rparr>]\<rparr>"

text \<open>
  \<open>vcablk_pool_clear\<close> zeroes the array, chains item \<open>i\<close> to item \<open>i + 1\<close>, ends the chain in
  the last item and points head and tail at its two ends.
\<close>

definition zero_item :: "vcablk_pool_t \<Rightarrow> vcablk_pool_head" where
  "zero_item pool = \<lparr>next_free = 0, data = replicate (alloc_size pool - sizeof_pool_head) 0\<rparr>"

definition vcablk_pool_clear :: "vcablk_pool_t \<Rightarrow> vcablk_pool_t" where
  "vcablk_pool_clear pool =
     (let n = unat (num pool);
          p0 = pool\<lparr>items := replicate n (zero_item pool), head := 0\<rparr>;
          p1 = fold (\<lambda>i p. set_next_free p i (of_nat i + 1)) [0..<n - 1] p0;
          p2 = set_next_free p1 (n - 1) 0
      in p2\<lparr>tail := num pool - 1\<rparr>)"

text \<open>
  \<open>vcablk_pool_init\<close>. The address \<open>kmalloc\<close> returns is an argument, \<open>None\<close> for an
  allocation failure. The comparison \<open>num + 1 >= VCABLK_POOL_USED\<close> is on \<open>int\<close>, so it does
  not wrap.
\<close>

definition vcablk_pool_init :: "nat option \<Rightarrow> u16 \<Rightarrow> nat \<Rightarrow> vcablk_pool_t option" where
  "vcablk_pool_init kmalloc n sz =
     (if VCABLK_POOL_USED \<le> n \<or> unat VCABLK_POOL_USED \<le> unat n + 1 then None
      else (case kmalloc of
          None \<Rightarrow> None
        | Some addr \<Rightarrow>
            Some (vcablk_pool_clear
              \<lparr>num = n + 1, head = 0, tail = 0, alloc_size = sz + sizeof_pool_head,
               alloc = addr, items = []\<rparr>)))"

definition vcablk_pool_get_by_id :: "vcablk_pool_t \<Rightarrow> u16 \<Rightarrow> nat option" where
  "vcablk_pool_get_by_id pool idx =
     (if idx < num pool \<and> next_free (items pool ! unat idx) = VCABLK_POOL_USED
      then Some (item_data pool (unat idx)) else None)"

definition vcablk_is_available :: "vcablk_pool_t \<Rightarrow> bool" where
  "vcablk_is_available pool = (head pool \<noteq> tail pool)"

text \<open>\<open>vcablk_pool_pop\<close> returns the payload pointer with the index stored in \<open>get_id\<close>.\<close>

definition vcablk_pool_pop :: "vcablk_pool_t \<Rightarrow> (nat \<times> u16) option \<times> vcablk_pool_t" where
  "vcablk_pool_pop pool =
     (if head pool \<noteq> tail pool then
        (let i = unat (head pool);
             get_id = head pool;
             p1 = pool\<lparr>head := next_free (items pool ! i)\<rparr>;
             p2 = set_next_free p1 i VCABLK_POOL_USED
         in (Some (item_data pool i, get_id), p2))
      else (None, pool))"

text \<open>
  \<open>vcablk_pool_push\<close>. A pointer that is not the payload pointer of an item makes the code
  read a header outside the headers of the pool; the model stops there.
\<close>

definition vcablk_pool_push :: "vcablk_pool_t \<Rightarrow> nat \<Rightarrow> crash + vcablk_pool_t" where
  "vcablk_pool_push pool ptr =
     (if ptr = 0 then Inl BUG
      else
        (let item = get_pool_head_ptr ptr;
             idx = (item - alloc pool) div alloc_size pool
         in if idx < length (items pool) \<and> ptr = item_data pool idx then
              (if next_free (items pool ! idx) \<noteq> VCABLK_POOL_USED
                  \<or> num pool \<le> of_nat idx then Inl BUG
               else
                 (let p1 = set_next_free pool idx 0;
                      p2 = set_next_free p1 (unat (tail p1)) (of_nat idx)
                  in Inr (p2\<lparr>tail := of_nat idx\<rparr>)))
            else Inl WILD_ACCESS))"

section \<open>The free list\<close>

text \<open>The walk along the chain from an item, at most \<open>k\<close> further steps, ending at the tail.\<close>

fun chain :: "vcablk_pool_t \<Rightarrow> nat \<Rightarrow> nat \<Rightarrow> nat list" where
  "chain pool 0 i = [i]"
| "chain pool (Suc k) i =
     (if i = unat (tail pool) then [i]
      else i # chain pool k (unat (next_free (items pool ! i))))"

definition free_ids :: "vcablk_pool_t \<Rightarrow> nat list" where
  "free_ids pool = chain pool (length (items pool)) (unat (head pool))"

definition used_id :: "vcablk_pool_t \<Rightarrow> nat \<Rightarrow> bool" where
  "used_id pool i = (i < length (items pool) \<and> next_free (items pool ! i) = VCABLK_POOL_USED)"

text \<open>
  The chain as a relation: \<open>links pool i xs j\<close> when following the headers from \<open>i\<close> visits
  exactly \<open>xs\<close> and arrives at \<open>j\<close>.
\<close>

fun links :: "vcablk_pool_t \<Rightarrow> nat \<Rightarrow> nat list \<Rightarrow> nat \<Rightarrow> bool" where
  "links pool i [] j = (i = j)"
| "links pool i (x # xs) j =
     (i = x \<and> links pool (unat (next_free (items pool ! i))) xs j)"

text \<open>
  The pool invariant: the array has \<open>num\<close> items, fewer than the marker value; some list
  of distinct items leads from head to tail; an item carries the marker exactly when it is
  not on that list. The tail's own header is not read, so it only has to differ from the
  marker.
\<close>

definition pool_rel :: "vcablk_pool_t \<Rightarrow> nat list \<Rightarrow> bool" where
  "pool_rel pool fl =
     (length (items pool) = unat (num pool) \<and> num pool < VCABLK_POOL_USED \<and>
      sizeof_pool_head \<le> alloc_size pool \<and>
      fl \<noteq> [] \<and> distinct fl \<and> set fl \<subseteq> {..<length (items pool)} \<and>
      links pool (unat (head pool)) (butlast fl) (last fl) \<and>
      unat (tail pool) = last fl \<and>
      (\<forall>i < length (items pool). used_id pool i = (i \<notin> set fl)))"

definition pool_inv :: "vcablk_pool_t \<Rightarrow> bool" where
  "pool_inv pool = pool_rel pool (free_ids pool)"

section \<open>Library\<close>

lemma length_items_set_next_free [simp]:
  "length (items (set_next_free pool i v)) = length (items pool)"
  by (simp add: set_next_free_def)

lemma set_next_free_fields [simp]:
  "num (set_next_free pool i v) = num pool"
  "head (set_next_free pool i v) = head pool"
  "tail (set_next_free pool i v) = tail pool"
  "alloc (set_next_free pool i v) = alloc pool"
  "alloc_size (set_next_free pool i v) = alloc_size pool"
  by (simp_all add: set_next_free_def)

lemma next_free_set_next_free:
  "i < length (items pool) \<Longrightarrow> j < length (items pool) \<Longrightarrow>
   next_free (items (set_next_free pool i v) ! j) =
     (if i = j then v else next_free (items pool ! j))"
  by (simp add: set_next_free_def nth_list_update)

lemma next_free_set_next_free_other:
  "i \<noteq> j \<Longrightarrow> next_free (items (set_next_free pool i v) ! j) = next_free (items pool ! j)"
  by (simp add: set_next_free_def)

lemma links_append:
  "links pool i (xs @ ys) j = (\<exists>k. links pool i xs k \<and> links pool k ys j)"
  by (induction xs arbitrary: i) auto

lemma links_set_next_free [simp]:
  "k \<notin> set xs \<Longrightarrow> links (set_next_free pool k v) i xs j = links pool i xs j"
proof (induction xs arbitrary: i)
  case Nil
  then show ?case by simp
next
  case (Cons x xs)
  then show ?case by (cases "i = x") (simp_all add: next_free_set_next_free_other [of k])
qed

lemma links_head_tail [simp]:
  "links (pool\<lparr>head := h\<rparr>) i xs j = links pool i xs j"
  "links (pool\<lparr>tail := t\<rparr>) i xs j = links pool i xs j"
  by (induction xs arbitrary: i) simp_all

lemma used_id_head_tail [simp]:
  "used_id (pool\<lparr>head := h\<rparr>) i = used_id pool i"
  "used_id (pool\<lparr>tail := t\<rparr>) i = used_id pool i"
  by (simp_all add: used_id_def)

lemma used_id_set_next_free:
  "i < length (items pool) \<Longrightarrow>
   used_id (set_next_free pool i v) j =
     (if i = j then v = VCABLK_POOL_USED else used_id pool j)"
  by (auto simp: used_id_def next_free_set_next_free)

lemma chain_links:
  "links pool i (butlast fl) (last fl) \<Longrightarrow> fl \<noteq> [] \<Longrightarrow> distinct fl \<Longrightarrow>
   unat (tail pool) = last fl \<Longrightarrow> length fl \<le> Suc k \<Longrightarrow> chain pool k i = fl"
proof (induction fl arbitrary: i k)
  case Nil
  then show ?case by simp
next
  case (Cons x fl)
  show ?case
  proof (cases "fl = []")
    case True
    with Cons.prems show ?thesis by (cases k) auto
  next
    case False
    with Cons.prems obtain k' where "k = Suc k'" by (cases k) auto
    moreover have "x \<noteq> last fl" using Cons.prems(3) False by auto
    ultimately show ?thesis
      using Cons False by (auto split: if_splits)
  qed
qed

lemma pool_rel_free_ids: "pool_rel pool fl \<Longrightarrow> free_ids pool = fl"
  unfolding free_ids_def
proof (rule chain_links)
  assume r: "pool_rel pool fl"
  have "length fl = card (set fl)" using r by (simp add: pool_rel_def distinct_card)
  also have "\<dots> \<le> card {..<length (items pool)}"
    using r by (intro card_mono) (auto simp: pool_rel_def)
  finally show "length fl \<le> Suc (length (items pool))" by simp
qed (simp_all add: pool_rel_def)

lemma pool_relI: "pool_rel pool fl \<Longrightarrow> pool_inv pool"
  by (simp add: pool_inv_def pool_rel_free_ids)

lemma pool_inv_head: "pool_inv pool \<Longrightarrow> unat (head pool) = hd (free_ids pool)"
  unfolding pool_inv_def pool_rel_def
  by (cases "free_ids pool"; cases "tl (free_ids pool)") auto

lemma pool_inv_not_Nil: "pool_inv pool \<Longrightarrow> free_ids pool \<noteq> []"
  by (simp add: pool_inv_def pool_rel_def)

lemma pool_inv_distinct: "pool_inv pool \<Longrightarrow> distinct (free_ids pool)"
  by (simp add: pool_inv_def pool_rel_def)

lemma pool_inv_used:
  "pool_inv pool \<Longrightarrow> i < length (items pool) \<Longrightarrow> used_id pool i = (i \<notin> set (free_ids pool))"
  by (simp add: pool_inv_def pool_rel_def)

lemma available_iff:
  assumes "pool_inv pool"
  shows "vcablk_is_available pool = (tl (free_ids pool) \<noteq> [])"
proof -
  have "head pool \<noteq> tail pool \<longleftrightarrow> hd (free_ids pool) \<noteq> last (free_ids pool)"
    using pool_inv_head [OF assms] assms
    by (metis pool_inv_def pool_rel_def word_unat_eq_iff)
  also have "\<dots> \<longleftrightarrow> tl (free_ids pool) \<noteq> []"
    using pool_inv_not_Nil [OF assms] pool_inv_distinct [OF assms]
    by (cases "free_ids pool") auto
  finally show ?thesis by (simp add: vcablk_is_available_def)
qed

lemma pop_rel:
  assumes r: "pool_rel pool (x # fl)" and ne: "fl \<noteq> []"
  shows "\<exists>p'. vcablk_pool_pop pool = (Some (item_data pool x, of_nat x), p') \<and> pool_rel p' fl
    \<and> length (items p') = length (items pool) \<and> alloc p' = alloc pool
    \<and> alloc_size p' = alloc_size pool"
proof -
  let ?p1 = "pool\<lparr>head := next_free (items pool ! x)\<rparr>"
  let ?p' = "set_next_free ?p1 x VCABLK_POOL_USED"
  have hx: "unat (head pool) = x" using r ne by (auto simp: pool_rel_def)
  have x: "x < length (items pool)" "x \<notin> set fl" using r by (auto simp: pool_rel_def)
  have "head pool \<noteq> tail pool"
    using r ne x(2) hx by (auto simp: pool_rel_def)
  then have pop: "vcablk_pool_pop pool = (Some (item_data pool x, of_nat x), ?p')"
    using hx by (auto simp: vcablk_pool_pop_def Let_def)
  have l: "links pool (unat (next_free (items pool ! x))) (butlast fl) (last fl)"
    using r ne hx by (auto simp: pool_rel_def)
  have nb: "x \<notin> set (butlast fl)" using x(2) by (auto dest: in_set_butlastD)
  have "pool_rel ?p' fl"
    using r ne x l nb unfolding pool_rel_def
    by (auto simp: used_id_set_next_free)
  then show ?thesis using pop by simp
qed

lemma item_data_idx:
  "sizeof_pool_head \<le> alloc_size pool \<Longrightarrow>
   (get_pool_head_ptr (item_data pool i) - alloc pool) div alloc_size pool = i"
  by (simp add: get_pool_head_ptr_def item_data_def get_pool_head_idx_def sizeof_pool_head_def)

lemma item_data_nonzero: "item_data pool i \<noteq> 0"
  by (simp add: item_data_def sizeof_pool_head_def)

lemma push_rel:
  assumes r: "pool_rel pool fl" and u: "used_id pool i"
  shows "\<exists>p'. vcablk_pool_push pool (item_data pool i) = Inr p' \<and> pool_rel p' (fl @ [i])
    \<and> length (items p') = length (items pool) \<and> alloc p' = alloc pool
    \<and> alloc_size p' = alloc_size pool"
proof -
  let ?t = "last fl"
  let ?p' = "(set_next_free (set_next_free pool i 0) ?t (of_nat i))\<lparr>tail := of_nat i\<rparr>"
  have il: "i < length (items pool)" and iu: "next_free (items pool ! i) = VCABLK_POOL_USED"
    using u by (auto simp: used_id_def)
  have n: "length (items pool) = unat (num pool)" "num pool < VCABLK_POOL_USED"
    using r by (auto simp: pool_rel_def)
  have small: "length (items pool) < 65535"
    using n by (auto simp: VCABLK_POOL_USED_def word_less_nat_alt)
  have ui: "unat (of_nat i :: u16) = i"
    using il small by (simp add: unat_of_nat_small)
  have ni: "i \<notin> set fl" using r u il by (auto simp: pool_rel_def)
  have tl: "?t < length (items pool)" "?t \<in> set fl" using r last_in_set [of fl]
    by (auto simp: pool_rel_def simp del: last_in_set)
  have ti: "unat (tail pool) = ?t" using r by (simp add: pool_rel_def)
  have iu': "of_nat i \<noteq> VCABLK_POOL_USED"
    using ui small il by (auto simp: VCABLK_POOL_USED_def)
  have "\<not> num pool \<le> of_nat i"
    using n(1) il ui by (simp add: word_le_nat_alt)
  then have push: "vcablk_pool_push pool (item_data pool i) = Inr ?p'"
    using r il iu ti by (simp add: vcablk_pool_push_def item_data_nonzero item_data_idx
        pool_rel_def Let_def)
  have nb: "?t \<notin> set (butlast fl)" "i \<notin> set (butlast fl)"
    using r ni distinct_butlast_last [of fl] by (auto simp: pool_rel_def dest: in_set_butlastD)
  have "links pool (unat (head pool)) (butlast fl) ?t" using r by (simp add: pool_rel_def)
  then have "links ?p' (unat (head pool)) (butlast fl @ [?t]) i"
    using nb tl il ui by (simp add: links_append next_free_set_next_free)
  then have l: "links ?p' (unat (head pool)) fl i" using r by (simp add: pool_rel_def)
  have uu: "used_id ?p' j = (j \<notin> set (fl @ [i]))" if "j < length (items pool)" for j
    using r that il tl iu' by (auto simp: used_id_set_next_free pool_rel_def VCABLK_POOL_USED_def)
  have "pool_rel ?p' (fl @ [i])"
    using r n l uu ni il ui unfolding pool_rel_def by (simp add: butlast_append)
  then show ?thesis using push by simp
qed

lemma clear_fold:
  assumes "m < n" and "length (items p) = n"
  shows "(let p' = fold (\<lambda>i p. set_next_free p i (of_nat i + 1)) [0..<m] p
     in length (items p') = n \<and> num p' = num p \<and> head p' = head p \<and> tail p' = tail p
      \<and> alloc p' = alloc p \<and> alloc_size p' = alloc_size p
      \<and> (\<forall>i < n. next_free (items p' ! i) =
           (if i < m then of_nat i + 1 else next_free (items p ! i))))"
  using assms(1)
proof (induction m)
  case 0
  then show ?case using assms(2) by (simp add: Let_def)
next
  case (Suc m)
  then show ?case by (auto simp: Let_def next_free_set_next_free less_Suc_eq)
qed

lemma links_upt:
  assumes "\<And>i. i < m \<Longrightarrow> unat (next_free (items p ! i)) = Suc i" and "a \<le> m"
  shows "links p a [a..<m] m"
  using assms(2)
proof (induction "m - a" arbitrary: a)
  case 0
  then show ?case by simp
next
  case (Suc k)
  then have "a < m" by simp
  moreover from this have "links p (Suc a) [Suc a..<m] m" using Suc by simp
  ultimately show ?case using assms(1) by (simp add: upt_conv_Cons)
qed

lemma clear_rel:
  assumes "0 < num pool" and "num pool < VCABLK_POOL_USED" and "sizeof_pool_head \<le> alloc_size pool"
  shows "pool_rel (vcablk_pool_clear pool) [0..<unat (num pool)]"
proof -
  let ?n = "unat (num pool)"
  let ?z = "pool\<lparr>items := replicate ?n (zero_item pool), head := 0\<rparr>"
  let ?p1 = "fold (\<lambda>i p. set_next_free p i (of_nat i + 1)) [0..<?n - 1] ?z"
  let ?p = "vcablk_pool_clear pool"
  have n: "0 < ?n" "?n < 65535"
    using assms(1,2) by (auto simp: VCABLK_POOL_USED_def word_less_nat_alt)
  have f: "length (items ?p1) = ?n" "num ?p1 = num pool" "head ?p1 = 0"
    "alloc_size ?p1 = alloc_size pool"
    "\<And>i. i < ?n - 1 \<Longrightarrow> next_free (items ?p1 ! i) = of_nat i + 1"
    using clear_fold [of "?n - 1" ?n ?z] n by (simp_all add: Let_def)
  have p: "?p = (set_next_free ?p1 (?n - 1) 0)\<lparr>tail := num pool - 1\<rparr>"
    by (simp add: vcablk_pool_clear_def Let_def)
  have nf: "next_free (items ?p ! i) = (if i < ?n - 1 then of_nat i + 1 else 0)" if "i < ?n" for i
    using f n that by (simp add: p next_free_set_next_free zero_item_def)
  have nu: "unat (next_free (items ?p ! i)) = Suc i" if "i < ?n - 1" for i
  proof -
    have "unat (of_nat (Suc i) :: u16) = Suc i"
      using n that by (subst unat_of_nat_small) simp_all
    then show ?thesis using nf [of i] that by (simp add: add.commute)
  qed
  have l: "links ?p 0 [0..<?n - 1] (?n - 1)"
    using nu by (rule links_upt) simp_all
  have used: "\<not> used_id ?p i" if "i < ?n" for i
    using nf [OF that] nu [of i] n by (auto simp: used_id_def VCABLK_POOL_USED_def)
  have t: "unat (tail ?p) = ?n - 1"
    using assms(1) by (simp add: p unat_minus_one)
  have u: "butlast [0..<?n] = [0..<?n - 1]" "last [0..<?n] = ?n - 1"
    using n by (cases ?n; simp)+
  show ?thesis
    unfolding pool_rel_def u using f n l t used assms(2,3) by (auto simp: p)
qed

section \<open>The interface of an identifier pool\<close>

text \<open>
  What a user of the pool sees: requests are taken and given back, and the identifiers of
  the requests travel to the peer as cookies. A run of such operations is a list; the
  specification keeps the queue of free identifiers and the set of outstanding ones.
\<close>

datatype pool_op = Pop | Push nat

fun pool_run ::
  "('p \<Rightarrow> (nat \<times> u16) option \<times> 'p) \<Rightarrow> ('p \<Rightarrow> nat \<Rightarrow> crash + 'p) \<Rightarrow> ('p \<Rightarrow> nat \<Rightarrow> nat) \<Rightarrow>
   pool_op list \<Rightarrow> 'p \<Rightarrow> crash + (nat option list \<times> 'p)" where
  "pool_run pop push ptr [] p = Inr ([], p)"
| "pool_run pop push ptr (Pop # ops) p =
     (case pop p of
        (None, p') \<Rightarrow>
          (case pool_run pop push ptr ops p' of
             Inl e \<Rightarrow> Inl e | Inr (rs, q) \<Rightarrow> Inr (None # rs, q))
      | (Some (_, gid), p') \<Rightarrow>
          (case pool_run pop push ptr ops p' of
             Inl e \<Rightarrow> Inl e | Inr (rs, q) \<Rightarrow> Inr (Some (unat gid) # rs, q)))"
| "pool_run pop push ptr (Push i # ops) p =
     (case push p (ptr p i) of
        Inl e \<Rightarrow> Inl e
      | Inr p' \<Rightarrow> pool_run pop push ptr ops p')"

fun spec_run ::
  "pool_op list \<Rightarrow> nat list \<times> nat set \<Rightarrow> (nat option list \<times> nat list \<times> nat set) option" where
  "spec_run [] (q, u) = Some ([], q, u)"
| "spec_run (Pop # ops) (x # y # q, u) =
     map_option (\<lambda>(rs, s). (Some x # rs, s)) (spec_run ops (y # q, insert x u))"
| "spec_run (Pop # ops) (q, u) =
     map_option (\<lambda>(rs, s). (None # rs, s)) (spec_run ops (q, u))"
| "spec_run (Push i # ops) (q, u) =
     (if i \<in> u then spec_run ops (q @ [i], u - {i}) else None)"

locale id_pool =
  fixes pop :: "'p \<Rightarrow> (nat \<times> u16) option \<times> 'p"
    and push :: "'p \<Rightarrow> nat \<Rightarrow> crash + 'p"
    and ptr :: "'p \<Rightarrow> nat \<Rightarrow> nat"
    and free :: "'p \<Rightarrow> nat list"
    and used :: "'p \<Rightarrow> nat set"
    and inv :: "'p \<Rightarrow> bool"
  assumes free_not_Nil: "inv p \<Longrightarrow> free p \<noteq> []"
    and free_small: "inv p \<Longrightarrow> x \<in> set (free p) \<Longrightarrow> x < 65535"
    and pop_some: "inv p \<Longrightarrow> free p = x # y # q \<Longrightarrow>
      \<exists>p'. pop p = (Some (ptr p x, of_nat x), p') \<and> inv p' \<and> free p' = y # q
        \<and> used p' = insert x (used p)"
    and pop_none: "inv p \<Longrightarrow> free p = [x] \<Longrightarrow> pop p = (None, p)"
    and push_used: "inv p \<Longrightarrow> i \<in> used p \<Longrightarrow>
      \<exists>p'. push p (ptr p i) = Inr p' \<and> inv p' \<and> free p' = free p @ [i]
        \<and> used p' = used p - {i}"
begin

lemma run_refines:
  "inv p \<Longrightarrow> spec_run ops (free p, used p) = Some (rs, q, u) \<Longrightarrow>
   \<exists>p'. pool_run pop push ptr ops p = Inr (rs, p') \<and> inv p' \<and> free p' = q \<and> used p' = u"
proof (induction ops arbitrary: p rs)
  case Nil
  then show ?case by simp
next
  case (Cons opn ops)
  note inv = Cons.prems(1) and spec = Cons.prems(2) and IH = Cons.IH
  show ?case
  proof (cases opn)
    case (Push i)
    with spec have i: "i \<in> used p"
      and s: "spec_run ops (free p @ [i], used p - {i}) = Some (rs, q, u)"
      by (auto split: if_splits)
    from push_used [OF inv i] s IH show ?thesis
      using Push by fastforce
  next
    case Pop
    show ?thesis
    proof (cases "tl (free p)")
      case Nil
      with free_not_Nil [OF inv] obtain x where x: "free p = [x]"
        by (cases "free p") auto
      with spec Pop obtain rs' where "rs = None # rs'"
        and "spec_run ops (free p, used p) = Some (rs', q, u)" by auto
      with IH [OF inv] pop_none [OF inv x] Pop
      show ?thesis by fastforce
    next
      case (Cons y f)
      with free_not_Nil [OF inv] obtain x where x: "free p = x # y # f"
        by (cases "free p") auto
      with spec Pop obtain rs' where "rs = Some x # rs'"
        and "spec_run ops (y # f, insert x (used p)) = Some (rs', q, u)" by auto
      moreover have "unat (of_nat x :: u16) = x"
        using free_small [OF inv, of x] x by (simp add: unat_of_nat_small)
      ultimately show ?thesis
        using pop_some [OF inv x] IH Pop by fastforce
    qed
  qed
qed

end

lemma pool_inv_small: "pool_inv pool \<Longrightarrow> x \<in> set (free_ids pool) \<Longrightarrow> x < 65535"
  by (auto simp: pool_inv_def pool_rel_def VCABLK_POOL_USED_def word_less_nat_alt)

interpretation vcablk: id_pool vcablk_pool_pop vcablk_pool_push item_data free_ids
  "\<lambda>pool. {i. used_id pool i}" pool_inv
proof (unfold_locales, goal_cases)
  case (1 p)
  then show ?case by (rule pool_inv_not_Nil)
next
  case (2 p x)
  then show ?case by (rule pool_inv_small)
next
  case (3 p x y q)
  then have r: "pool_rel p (x # y # q)" by (simp add: pool_inv_def)
  from pop_rel [OF r] obtain p' where p': "vcablk_pool_pop p = (Some (item_data p x, of_nat x), p')"
    "pool_rel p' (y # q)" "length (items p') = length (items p)" by auto
  have "{i. used_id p' i} = insert x {i. used_id p i}"
    using r p'(2,3) by (auto simp: pool_rel_def used_id_def)
  with p' show ?case by (auto simp: pool_relI pool_rel_free_ids)
next
  case (4 p x)
  then have "\<not> vcablk_is_available p" by (simp add: available_iff)
  then show ?case by (simp add: vcablk_is_available_def vcablk_pool_pop_def)
next
  case (5 p i)
  then have r: "pool_rel p (free_ids p)" and u: "used_id p i" by (auto simp: pool_inv_def)
  from push_rel [OF r u] obtain p' where p': "vcablk_pool_push p (item_data p i) = Inr p'"
    "pool_rel p' (free_ids p @ [i])" "length (items p') = length (items p)" by auto
  have "{j. used_id p' j} = {j. used_id p j} - {i}"
    using r p'(2,3) by (auto simp: pool_rel_def used_id_def)
  with p' show ?case by (auto simp: pool_relI pool_rel_free_ids)
qed

section \<open>Properties\<close>

text \<open>
  C6. Every run of takes and returns in which only outstanding identifiers are returned
  behaves as the specification: it hands out the free identifiers in first-in first-out
  order, refuses when one identifier is left, never stops in a \<open>BUG_ON\<close>, and ends in a
  well formed pool whose free list and outstanding set are those of the specification.
\<close>

theorem vcablk_pool_refines:
  assumes "pool_inv p"
    and "spec_run ops (free_ids p, {i. used_id p i}) = Some (rs, q, u)"
  shows "\<exists>p'. pool_run vcablk_pool_pop vcablk_pool_push item_data ops p = Inr (rs, p')
    \<and> pool_inv p' \<and> free_ids p' = q \<and> {i. used_id p' i} = u"
  using assms by (rule vcablk.run_refines)

lemma init_rel:
  assumes "unat n < 65534"
  shows "\<exists>p. vcablk_pool_init (Some addr) n sz = Some p \<and> pool_rel p [0..<unat n + 1]"
proof -
  have un: "unat (n + 1) = unat n + 1"
    using assms by (intro unat_inc) simp
  have ok: "\<not> (VCABLK_POOL_USED \<le> n \<or> unat VCABLK_POOL_USED \<le> unat n + 1)"
    using assms by (auto simp: VCABLK_POOL_USED_def word_le_nat_alt)
  let ?r = "\<lparr>num = n + 1, head = 0, tail = 0, alloc_size = sz + sizeof_pool_head,
    alloc = addr, items = []\<rparr>"
  have "pool_rel (vcablk_pool_clear ?r) [0..<unat (num ?r)]"
  proof (rule clear_rel)
    show "0 < num ?r" using un by (simp add: word_greater_zero_iff flip: unat_eq_0)
    show "num ?r < VCABLK_POOL_USED"
      using assms un by (simp add: VCABLK_POOL_USED_def word_less_nat_alt)
  qed simp
  then show ?thesis using ok un by (simp add: vcablk_pool_init_def)
qed

text \<open>
  A pool made for \<open>n\<close> requests is well formed and its free list holds exactly the
  identifiers \<open>0, \<dots>, n\<close> in order, one more than it can hand out; a request for 65534 or
  more elements is refused.
\<close>

theorem vcablk_pool_init_spec:
  "case vcablk_pool_init (Some addr) n sz of
     None \<Rightarrow> 65534 \<le> unat n
   | Some p \<Rightarrow> unat n < 65534 \<and> pool_inv p \<and> free_ids p = [0..<unat n + 1]"
proof (cases "unat n < 65534")
  case True
  with init_rel [of n addr sz] show ?thesis
    by (auto simp: pool_relI pool_rel_free_ids)
next
  case False
  then have "unat VCABLK_POOL_USED \<le> unat n + 1" by (simp add: VCABLK_POOL_USED_def)
  then have "vcablk_pool_init (Some addr) n sz = None" by (simp add: vcablk_pool_init_def)
  with False show ?thesis by simp
qed

text \<open>
  Returning an item that is not outstanding (a double return) is caught: the code stops
  in its \<open>BUG_ON\<close> and never corrupts the chain.
\<close>

theorem vcablk_pool_push_free:
  assumes "pool_inv p" and "i \<in> set (free_ids p)"
  shows "vcablk_pool_push p (item_data p i) = Inl BUG"
proof -
  have il: "i < length (items p)" and a: "sizeof_pool_head \<le> alloc_size p"
    using assms by (auto simp: pool_inv_def pool_rel_def)
  have "\<not> used_id p i" using pool_inv_used [OF assms(1) il] assms(2) by simp
  then show ?thesis using il a
    by (simp add: vcablk_pool_push_def item_data_nonzero item_data_idx used_id_def Let_def)
qed

text \<open>
  Looking a request up by the identifier a peer sent back returns its payload pointer
  exactly when the identifier is in range and outstanding, and the null pointer otherwise.
\<close>

theorem vcablk_pool_get_by_id_spec:
  assumes "pool_inv p"
  shows "vcablk_pool_get_by_id p i =
    (if unat i < unat (num p) \<and> unat i \<notin> set (free_ids p)
     then Some (item_data p (unat i)) else None)"
proof -
  have n: "length (items p) = unat (num p)"
    using assms by (simp add: pool_inv_def pool_rel_def)
  then show ?thesis
    using pool_inv_used [OF assms, of "unat i"]
    by (auto simp: vcablk_pool_get_by_id_def used_id_def word_less_nat_alt)
qed

section \<open>Witnesses\<close>

definition pool3 :: vcablk_pool_t where
  "pool3 = the (vcablk_pool_init (Some 4096) 3 6)"

lemma pool3_rel: "pool_rel pool3 [0, 1, 2, 3]"
proof -
  have "[0..<unat (3 :: u16) + 1] = [0, 1, 2, 3]" by (simp add: upt_rec)
  with init_rel [of "3 :: u16" 4096 6] show ?thesis by (auto simp: pool3_def)
qed

lemma pool3_used: "{i. used_id pool3 i} = {}"
proof -
  have "unat (num pool3) = 4"
    by (simp add: pool3_def vcablk_pool_init_def vcablk_pool_clear_def VCABLK_POOL_USED_def
        Let_def upt_rec)
  then show ?thesis using pool3_rel by (auto simp: pool_rel_def used_id_def)
qed

theorem vcablk_pool_refines_witness:
  "\<exists>p'. pool_run vcablk_pool_pop vcablk_pool_push item_data
     [Pop, Pop, Pop, Pop, Push 1, Pop] pool3 = Inr ([Some 0, Some 1, Some 2, None, Some 3], p')
    \<and> pool_inv p' \<and> free_ids p' = [1] \<and> {i. used_id p' i} = {0, 2, 3}"
  by (rule vcablk_pool_refines [OF pool_relI [OF pool3_rel]])
    (auto simp: pool3_used pool_rel_free_ids [OF pool3_rel])

theorem vcablk_pool_push_free_witness:
  "vcablk_pool_push pool3 (item_data pool3 2) = Inl BUG"
  by (rule vcablk_pool_push_free [OF pool_relI [OF pool3_rel]])
    (simp add: pool_rel_free_ids [OF pool3_rel])

theorem vcablk_pool_get_by_id_spec_witness:
  "pool_inv pool3 \<and> vcablk_pool_get_by_id pool3 2 = None"
  using vcablk_pool_get_by_id_spec [OF pool_relI [OF pool3_rel], of 2]
  by (simp add: pool_relI [OF pool3_rel] pool_rel_free_ids [OF pool3_rel])

end
