(* ===== verification/Vcablk_Bcknd.thy ===== *)
theory Vcablk_Bcknd
  imports Vcablk_Media Vcablk_Pool
begin

text \<open>
  The back end of the block device (\<open>blockio/vcablk_bcknd/vcablk_bcknd_disk.c\<close>), on the host: it takes
  requests from a ring in the memory of the card, moves the data between the storage and the memory of
  the card through a pool of page buffers, and answers in a second ring. The model is the build of the
  sources, with synchronous DMA and a thread that finishes transfers.
\<close>

unbundle bit_operations_syntax

abbreviation (input) VCABLK_MAX_PARTS_PER_REQUEST :: nat where "VCABLK_MAX_PARTS_PER_REQUEST \<equiv> 258"
abbreviation (input) VCABLK_TRANSFER_RING_SIZE :: u16 where "VCABLK_TRANSFER_RING_SIZE \<equiv> 16"
abbreviation (input) IOREMAP_ATTEMPTS :: nat where "IOREMAP_ATTEMPTS \<equiv> 10"
abbreviation (input) PAGE_SIZE :: nat where "PAGE_SIZE \<equiv> 4096"

section \<open>State\<close>

text \<open>
  The parameters of one transfer with its buffer. \<open>remapped\<close> is the window to unmap after it, if any;
  \<open>response_cookie\<close> is -1 when no answer follows.
\<close>

record transfer_parameters =
  tp_sector :: u64
  tp_nsec :: u64
  remapped :: "u64 option"
  response_cookie :: int
  is_write :: bool
  do_flush :: bool
  tp_buffer :: "u8 list"

text \<open>
  The transfers are found by their number in the pool. \<open>remote\<close> is the memory of the card by its bus
  address, with the two rings held apart; a window is named by the bus address it leads to. \<open>calls\<close>
  counts the calls of the outside world.
\<close>

record vcablk_bcknd_disk =
  media :: vcablk_media
  dma_ch :: bool
  transfer_thread :: bool
  transfer_ring :: "nat vcablk_ring"
  request_ring :: "vcablk_request vcablk_ring"
  request_ring_nums :: u16
  completion_ring :: "vcablk_completion vcablk_ring"
  completion_ring_num_elems :: u16
  request_last_used :: u16
  transfer_buffer_pool :: vcablk_pool_t
  transfers :: "transfer_parameters list"
  remote :: "u64 \<Rightarrow> u8"
  windows :: "u64 list"
  done_intrs :: nat
  calls :: nat

text \<open>
  The outside world, by the number of the call: the file system, whether a window can be mapped, the
  result of a DMA transfer, what the front end does to the ring of answers during a sleep, and how
  many transfers the transfer thread finishes before a buffer is taken.
\<close>

record bcknd_env =
  files :: file_env
  ioremap_ok :: "nat \<Rightarrow> bool"
  dma_result :: "nat \<Rightarrow> int"
  sleep_ring :: "nat \<Rightarrow> vcablk_completion vcablk_ring \<Rightarrow> vcablk_completion vcablk_ring"
  thread_progress :: "nat \<Rightarrow> nat"

definition read_remote :: "(u64 \<Rightarrow> u8) \<Rightarrow> u64 \<Rightarrow> nat \<Rightarrow> u8 list" where
  "read_remote mem a n = map (\<lambda>i. mem (a + of_nat i)) [0..<n]"

definition write_remote :: "(u64 \<Rightarrow> u8) \<Rightarrow> u64 \<Rightarrow> u8 list \<Rightarrow> u64 \<Rightarrow> u8" where
  "write_remote mem a bs = (\<lambda>x. if unat (x - a) < length bs then bs ! unat (x - a) else mem x)"

section \<open>Answers\<close>

fun wait_ack_room :: "bcknd_env \<Rightarrow> u16 \<Rightarrow> nat \<Rightarrow> vcablk_bcknd_disk \<Rightarrow> bool \<times> vcablk_bcknd_disk" where
  "wait_ack_room env la 0 bckd = (False, bckd)"
| "wait_ack_room env la (Suc n) bckd =
     (if \<not> VCA_RB_BUFF_FULL la (last_used (completion_ring bckd)) (completion_ring_num_elems bckd) then (True, bckd)
      else if n = 0 then (False, bckd)
      else wait_ack_room env la n
             (bckd\<lparr>completion_ring := sleep_ring env (calls bckd) (completion_ring bckd), calls := calls bckd + 1\<rparr>))"

definition vcablk_bcknd_disk_send_response ::
  "bcknd_env \<Rightarrow> u16 \<Rightarrow> int \<Rightarrow> vcablk_bcknd_disk \<Rightarrow> (int \<times> vcablk_bcknd_disk) outcome" where
  "vcablk_bcknd_disk_send_response env cook ret bckd =
     (let la = last_add (completion_ring bckd);
          (ok, bckd) = wait_ack_room env la 200 bckd;
          n = completion_ring_num_elems bckd;
          i = unat (VCA_RB_COUNTER_TO_IDX la n);
          ring = completion_ring bckd
      in if \<not> ok then Returns (minus_EIO, bckd)
         else if length (elems ring) \<le> i then Crashes WILD_ACCESS
         else Returns (0, bckd
           \<lparr>completion_ring := ring\<lparr>elems := (elems ring)[i := \<lparr>ack_cookie = cook, ack_ret = word_of_int ret\<rparr>],
                                    last_add := VCA_RB_COUNTER_ADD la 1 n\<rparr>,
            done_intrs := done_intrs bckd + 1\<rparr>))"

section \<open>Finishing transfers\<close>

text \<open>\<open>vca_bcknd_complete_transfer\<close>; an error of a transfer without an answer is logged.\<close>

definition vca_bcknd_complete_transfer :: "bcknd_env \<Rightarrow> nat \<Rightarrow> vcablk_bcknd_disk \<Rightarrow> vcablk_bcknd_disk outcome" where
  "vca_bcknd_complete_transfer env k bckd =
     (let tp = transfers bckd ! k
      in obind
           (if is_write tp
            then obind (of_sum (vcablk_media_transfer (files env) (media bckd) (tp_sector tp) (tp_nsec tp) (tp_buffer tp) True))
                   (\<lambda>(err, m, _). Returns (err, bckd\<lparr>media := m\<rparr>))
            else Returns (0, bckd))
         (\<lambda>(err, bckd). obind
           (if 0 \<le> response_cookie tp
            then obind (vcablk_bcknd_disk_send_response env (of_int (response_cookie tp))
                          (if err = 0 \<and> do_flush tp then vcablk_media_sync (files env) (media bckd) else err) bckd)
                   (\<lambda>(_, bckd). Returns bckd)
            else Returns bckd)
         (\<lambda>bckd. obind (of_sum (vcablk_pool_push (transfer_buffer_pool bckd) (item_data (transfer_buffer_pool bckd) k)))
           (\<lambda>pool. Returns (bckd\<lparr>transfer_buffer_pool := pool\<rparr>)))))"

definition upd_transfer :: "nat \<Rightarrow> (transfer_parameters \<Rightarrow> transfer_parameters) \<Rightarrow> vcablk_bcknd_disk \<Rightarrow> vcablk_bcknd_disk" where
  "upd_transfer k f bckd = bckd\<lparr>transfers := (transfers bckd)[k := f (transfers bckd ! k)]\<rparr>"

definition vca_bcknd_callback_dma :: "bcknd_env \<Rightarrow> nat \<Rightarrow> vcablk_bcknd_disk \<Rightarrow> vcablk_bcknd_disk outcome" where
  "vca_bcknd_callback_dma env k bckd =
     (let bckd = (case remapped (transfers bckd ! k) of
                    None \<Rightarrow> bckd
                  | Some win \<Rightarrow>
                      upd_transfer k (\<lambda>tp. tp\<lparr>remapped := None\<rparr>) (bckd\<lparr>windows := remove1 win (windows bckd)\<rparr>));
          ring = transfer_ring bckd;
          sz = num_elems ring;
          la = last_add ring
      in if \<not> transfer_thread bckd then vca_bcknd_complete_transfer env k bckd
         else if VCA_RB_BUFF_FULL la (last_used ring) sz then Returns bckd
         else Returns (bckd\<lparr>transfer_ring := ring\<lparr>elems := (elems ring)[unat (VCA_RB_COUNTER_TO_IDX la sz) := k],
                                                   last_add := VCA_RB_COUNTER_ADD la 1 sz\<rparr>\<rparr>))"

text \<open>One round of the transfer thread, and several.\<close>

definition transfer_round :: "bcknd_env \<Rightarrow> vcablk_bcknd_disk \<Rightarrow> vcablk_bcknd_disk outcome" where
  "transfer_round env bckd =
     (let ring = transfer_ring bckd;
          lu = last_used ring
      in if VCA_RB_BUFF_EMPTY (last_add ring) lu then Returns bckd
         else obind (vca_bcknd_complete_transfer env (elems ring ! unat (VCA_RB_COUNTER_TO_IDX lu (num_elems ring))) bckd)
                (\<lambda>bckd. Returns (bckd\<lparr>transfer_ring := (transfer_ring bckd)\<lparr>last_used := VCA_RB_COUNTER_ADD lu 1 (num_elems ring)\<rparr>\<rparr>)))"

fun transfer_rounds :: "bcknd_env \<Rightarrow> nat \<Rightarrow> vcablk_bcknd_disk \<Rightarrow> vcablk_bcknd_disk outcome" where
  "transfer_rounds env 0 bckd = Returns bckd"
| "transfer_rounds env (Suc n) bckd = obind (transfer_round env bckd) (transfer_rounds env n)"

section \<open>Transfers\<close>

text \<open>
  A free buffer: the transfer thread goes on in the meantime. With no free buffer the caller waits for the
  thread, which has to give one back; when there is nothing left to finish, it waits for ever.
\<close>

definition vcablk_bcknd_get_transfer_param :: "bcknd_env \<Rightarrow> vcablk_bcknd_disk \<Rightarrow> (nat \<times> vcablk_bcknd_disk) outcome" where
  "vcablk_bcknd_get_transfer_param env bckd =
     (let pop = (\<lambda>bckd stuck. case vcablk_pool_pop (transfer_buffer_pool bckd) of
            (Some (_, i), pool) \<Rightarrow> Returns (unat i, bckd\<lparr>transfer_buffer_pool := pool\<rparr>)
          | (None, _) \<Rightarrow> stuck bckd)
      in obind (transfer_rounds env (thread_progress env (calls bckd)) (bckd\<lparr>calls := calls bckd + 1\<rparr>))
           (\<lambda>bckd. pop bckd (\<lambda>bckd.
              if VCA_RB_BUFF_EMPTY (last_add (transfer_ring bckd)) (last_used (transfer_ring bckd)) then Waits
              else obind (transfer_round env bckd) (\<lambda>bckd. pop bckd (\<lambda>_. Waits)))))"

fun ioremap_attempts :: "bcknd_env \<Rightarrow> nat \<Rightarrow> u64 \<Rightarrow> vcablk_bcknd_disk \<Rightarrow> bool \<times> vcablk_bcknd_disk" where
  "ioremap_attempts env 0 a bckd = (False, bckd)"
| "ioremap_attempts env (Suc n) a bckd =
     (if ioremap_ok env (calls bckd) then (True, bckd\<lparr>windows := a # windows bckd, calls := calls bckd + 1\<rparr>)
      else ioremap_attempts env n a (bckd\<lparr>calls := calls bckd + 1\<rparr>))"

definition vcablk_bcknd_ioremap :: "bcknd_env \<Rightarrow> u64 \<Rightarrow> vcablk_bcknd_disk \<Rightarrow> bool \<times> vcablk_bcknd_disk" where
  "vcablk_bcknd_ioremap env a bckd = ioremap_attempts env IOREMAP_ATTEMPTS a bckd"

text \<open>\<open>vcablk_bcknd_transfer_device\<close>: the copy between a buffer and a window.\<close>

definition copy_device :: "nat \<Rightarrow> u64 \<Rightarrow> nat \<Rightarrow> vcablk_bcknd_disk \<Rightarrow> vcablk_bcknd_disk" where
  "copy_device k a n bckd =
     (if is_write (transfers bckd ! k)
      then upd_transfer k (\<lambda>tp. tp\<lparr>tp_buffer := overwrite (tp_buffer tp) 0 (read_remote (remote bckd) a n)\<rparr>) bckd
      else bckd\<lparr>remote := write_remote (remote bckd) a (take n (tp_buffer (transfers bckd ! k)))\<rparr>)"

definition vcablk_bcknd_transfer_device ::
  "bcknd_env \<Rightarrow> nat \<Rightarrow> u64 \<Rightarrow> nat \<Rightarrow> vcablk_bcknd_disk \<Rightarrow> (int \<times> vcablk_bcknd_disk) outcome" where
  "vcablk_bcknd_transfer_device env k a n bckd =
     (let fin = (\<lambda>bckd. obind (vca_bcknd_callback_dma env k (copy_device k a n bckd)) (\<lambda>bckd. Returns (0, bckd)))
      in if \<not> dma_ch bckd then fin bckd
         else
           (let ret = dma_result env (calls bckd);
                bckd = bckd\<lparr>calls := calls bckd + 1\<rparr>
            in if ret = 0 then fin bckd else Returns (ret, bckd)))"

text \<open>
  The loop of \<open>vcablk_bcknd_transfer\<close> over the buffers of one part. On an error the buffer taken is not
  given back.
\<close>

function transfer_loop ::
  "bcknd_env \<Rightarrow> u64 \<Rightarrow> u64 \<Rightarrow> u64 \<Rightarrow> u64 \<Rightarrow> bool \<Rightarrow> int \<Rightarrow> bool \<Rightarrow> vcablk_bcknd_disk \<Rightarrow> (int \<times> vcablk_bcknd_disk) outcome" where
  "transfer_loop env sec nsecs ptr win write resp flush bckd =
     (if nsecs = 0 then Returns (0, bckd)
      else
        obind (vcablk_bcknd_get_transfer_param env bckd) (\<lambda>(k, bckd).
          (let nsec = min nsecs 8;
               bytes = push_bit SECTOR_SHIFT nsec;
               lst = (nsecs - nsec = 0);
               bckd = upd_transfer k (\<lambda>tp. tp\<lparr>response_cookie := (if lst then resp else - 1), remapped := (if lst then Some win else None),
                        do_flush := (lst \<and> flush), tp_sector := sec, tp_nsec := nsec, is_write := write\<rparr>) bckd
           in obind
                (if write then Returns (0, bckd)
                 else obind (of_sum (vcablk_media_transfer (files env) (media bckd) sec nsec (tp_buffer (transfers bckd ! k)) False))
                        (\<lambda>(ret, m, buf). Returns (ret, upd_transfer k (\<lambda>tp. tp\<lparr>tp_buffer := buf\<rparr>) (bckd\<lparr>media := m\<rparr>))))
              (\<lambda>(ret, bckd).
                 if ret \<noteq> 0 then Returns (ret, bckd)
                 else
                   obind (vcablk_bcknd_transfer_device env k ptr (unat bytes) bckd) (\<lambda>(ret, bckd).
                     if ret \<noteq> 0 then Returns (ret, bckd)
                     else transfer_loop env (sec + nsec) (nsecs - nsec) (ptr + bytes) win write resp flush bckd)))))"
  by pat_completeness auto
termination
proof (relation "measure (\<lambda>(env, sec, nsecs, _). unat nsecs)", simp, goal_cases)
  case (1 env sec nsecs)
  have le: "min nsecs 8 \<le> nsecs" by simp
  have "0 < unat (min nsecs 8)" using 1 by (simp add: min_def unat_gt_0)
  then show ?case using 1 unat_sub [OF le] word_le_nat_alt [of "min nsecs 8" nsecs] le by (simp add: unat_gt_0)
qed

declare transfer_loop.simps [simp del]

definition vcablk_bcknd_transfer ::
  "bcknd_env \<Rightarrow> u64 \<Rightarrow> u64 \<Rightarrow> u64 \<Rightarrow> bool \<Rightarrow> int \<Rightarrow> bool \<Rightarrow> vcablk_bcknd_disk \<Rightarrow> (int \<times> vcablk_bcknd_disk) outcome" where
  "vcablk_bcknd_transfer env sec nsecs phys write resp flush bckd =
     (let (ok, bckd) = vcablk_bcknd_ioremap env phys bckd
      in if \<not> ok then Returns (minus_EIO, bckd)
         else
           obind (transfer_loop env sec nsecs phys phys write resp flush bckd) (\<lambda>(ret, bckd).
             Returns (ret, if ret \<noteq> 0 then bckd\<lparr>windows := remove1 phys (windows bckd)\<rparr> else bckd)))"

section \<open>Requests\<close>

text \<open>
  The consistency of the parts of a request: one cookie, one type, and sectors in sequence; the first and
  the last part may be synchronisations. The result is the error and the number of sectors.
\<close>

fun check_parts :: "u16 \<Rightarrow> u8 \<Rightarrow> u64 \<Rightarrow> u64 \<Rightarrow> bool \<Rightarrow> vcablk_request list \<Rightarrow> int \<times> u64" where
  "check_parts cook ty check_sector tot fst_part [] = (0, tot)"
| "check_parts cook ty check_sector tot fst_part (r # rs) =
     (if cook \<noteq> cookie r then (minus_EIO, tot)
      else if request_type r = REQUEST_SYNC \<and> (fst_part \<or> rs = []) then check_parts cook ty check_sector tot False rs
      else if ty \<noteq> request_type r then (minus_EIO, tot)
      else if check_sector \<noteq> sector r then (minus_EIO, tot)
      else check_parts cook ty (check_sector + sectors_num r) (tot + sectors_num r) False rs)"

text \<open>\<open>vcablk_bcknd_disk_request_get_info\<close>: the error, the cookie, the type and the two synchronisations.\<close>

definition vcablk_bcknd_disk_request_get_info :: "vcablk_request list \<Rightarrow> int \<times> u16 \<times> u8 \<times> bool \<times> bool" where
  "vcablk_bcknd_disk_request_get_info rs =
     (if rs = [] then (minus_EIO, 0, 0, False, False)
      else
        (let cook = cookie (hd rs);
             sync_after = (request_type (last rs) = REQUEST_SYNC);
             sync_before = (request_type (hd rs) = REQUEST_SYNC)
         in if sync_before \<and> length rs = 1 then (0, cook, REQUEST_SYNC, False, sync_after)
            else
              (let r = (if sync_before then rs ! 1 else hd rs);
                   ty = request_type r
               in if ty \<notin> {REQUEST_READ, REQUEST_WRITE, REQUEST_SYNC} then (minus_EIO, cook, ty, sync_before, sync_after)
                  else (fst (check_parts cook ty (sector r) 0 True rs), cook, ty, sync_before, sync_after))))"

fun request_loop ::
  "bcknd_env \<Rightarrow> u16 \<Rightarrow> bool \<Rightarrow> bool \<Rightarrow> vcablk_request list \<Rightarrow> vcablk_bcknd_disk \<Rightarrow> (int \<times> vcablk_bcknd_disk) outcome" where
  "request_loop env cook sync_after write [] bckd = Returns (0, bckd)"
| "request_loop env cook sync_after write (r # rs) bckd =
     obind (vcablk_bcknd_transfer env (sector r) (sectors_num r) (phys_buff r) write
              (if rs = [] then int (unat cook) else - 1) (rs = [] \<and> sync_after) bckd)
       (\<lambda>(err, bckd). if err \<noteq> 0 then Returns (err, bckd) else request_loop env cook sync_after write rs bckd)"

definition vcablk_bcknd_disk_request ::
  "bcknd_env \<Rightarrow> vcablk_request list \<Rightarrow> vcablk_bcknd_disk \<Rightarrow> (int \<times> vcablk_bcknd_disk) outcome" where
  "vcablk_bcknd_disk_request env rs bckd =
     (let (err, cook, ty, sync_before, sync_after) = vcablk_bcknd_disk_request_get_info rs;
          respond = (\<lambda>err bckd. obind (vcablk_bcknd_disk_send_response env cook err bckd) (\<lambda>(_, bckd). Returns (err, bckd)));
          serr = (if sync_before then vcablk_media_sync (files env) (media bckd) else 0);
          parts = (if sync_before then tl rs else rs)
      in if err \<noteq> 0 then respond err bckd
         else if sync_before \<and> (serr \<noteq> 0 \<or> length rs = 1) then respond serr bckd
         else
           obind (request_loop env cook sync_after (ty = REQUEST_WRITE) (if sync_after then butlast parts else parts) bckd)
             (\<lambda>(err, bckd). if err \<noteq> 0 then respond err bckd else Returns (0, bckd)))"

text \<open>
  The next request of the ring: the parts up to a change of the cookie. Parts with cookie 0 in front of it
  are passed over. \<open>fuel\<close> bounds the rounds; \<open>acc\<close> holds the parts found.
\<close>

fun next_request_loop ::
  "nat \<Rightarrow> u16 \<Rightarrow> u16 \<Rightarrow> u16 \<Rightarrow> vcablk_request list \<Rightarrow> vcablk_bcknd_disk \<Rightarrow> (u16 \<times> vcablk_request list) option" where
  "next_request_loop 0 la lu cook acc bckd = None"
| "next_request_loop (Suc fuel) la lu cook acc bckd =
     (if lu = la \<or> VCABLK_MAX_PARTS_PER_REQUEST \<le> length acc then Some (lu, acc)
      else
        (let n = request_ring_nums bckd;
             r = elems (request_ring bckd) ! unat (VCA_RB_COUNTER_TO_IDX lu n);
             cook' = (if cook = 0 then cookie r else cook)
         in if cook' = 0 then next_request_loop fuel la (VCA_RB_COUNTER_ADD lu 1 n) cook' acc bckd
            else if cook' \<noteq> cookie r then Some (lu, acc)
            else next_request_loop fuel la (VCA_RB_COUNTER_ADD lu 1 n) cook' (acc @ [r]) bckd))"

definition vcablk_bcknd_disk_get_next_request ::
  "nat \<Rightarrow> vcablk_bcknd_disk \<Rightarrow> (vcablk_request list \<times> vcablk_bcknd_disk) option" where
  "vcablk_bcknd_disk_get_next_request fuel bckd =
     (let la = last_add (request_ring bckd)
      in if request_last_used bckd = la then Some ([], bckd)
         else map_option (\<lambda>(lu, rs). (rs, bckd\<lparr>request_last_used := lu, request_ring := (request_ring bckd)\<lparr>last_used := lu\<rparr>\<rparr>))
                (next_request_loop fuel la (request_last_used bckd) 0 [] bckd))"

text \<open>
  The inner loop of the request thread: the requests that were in the ring when it looked.
\<close>

fun request_rounds :: "bcknd_env \<Rightarrow> nat \<Rightarrow> nat \<Rightarrow> u16 \<Rightarrow> vcablk_bcknd_disk \<Rightarrow> vcablk_bcknd_disk outcome" where
  "request_rounds env rounds 0 la bckd = Waits"
| "request_rounds env rounds (Suc fuel) la bckd =
     (if la = request_last_used bckd then Returns bckd
      else
        (case vcablk_bcknd_disk_get_next_request rounds bckd of
           None \<Rightarrow> Waits
         | Some (rs, bckd) \<Rightarrow>
             obind (if rs = [] then Returns (0, bckd) else vcablk_bcknd_disk_request env rs bckd)
               (\<lambda>(_, bckd). request_rounds env rounds fuel la bckd)))"

definition vcablk_bcknd_disk_make_request_round :: "bcknd_env \<Rightarrow> nat \<Rightarrow> vcablk_bcknd_disk \<Rightarrow> vcablk_bcknd_disk outcome" where
  "vcablk_bcknd_disk_make_request_round env fuel bckd = request_rounds env fuel fuel (last_add (request_ring bckd)) bckd"

section \<open>Bring-up\<close>

abbreviation (input) minus_EBUSY :: int where "minus_EBUSY \<equiv> - 16"
abbreviation (input) minus_EAGAIN :: int where "minus_EAGAIN \<equiv> - 11"

text \<open>
  The description of a disk to create, and the results of the calls of the kernel: memory for the
  structure, the pool and the storage, whether the path fits, the file or the memory behind the storage, and the result of
  allocating the page buffers.
\<close>

record vcablk_disk_open_desc =
  disk_type :: u8
  disk_read_only :: bool
  disk_size :: u64

record create_env =
  disk_mem :: bool
  pool_mem :: "nat option"
  path_fits :: bool
  media_mem :: bool
  opened_file :: "int + u8 list"
  memory_block :: "u8 list option"
  buffer_err :: int

abbreviation (input) disk_type_file :: u8 where "disk_type_file \<equiv> 1"
abbreviation (input) disk_type_memory :: u8 where "disk_type_memory \<equiv> 2"

text \<open>The number of sectors is an \<open>unsigned\<close>.\<close>

definition disk_size_bytes :: "u64 \<Rightarrow> u64" where
  "disk_size_bytes sz = ucast (ucast (sz div 512) :: u32) * 512"

text \<open>
  \<open>vcablk_bcknd_disk_create\<close>: an error, or the pool and the storage the disk holds. An error pointer that is not recognised is
  kept as the storage, and so is the null pointer that an unknown type leaves.
\<close>

definition vcablk_bcknd_disk_create ::
  "create_env \<Rightarrow> nat \<Rightarrow> vcablk_disk_open_desc \<Rightarrow> int + vcablk_pool_t \<times> (int + vcablk_media)" where
  "vcablk_bcknd_disk_create env tp_size desc =
     (if \<not> disk_mem env then Inl minus_ENOMEM
      else
        (case vcablk_pool_init (pool_mem env) (VCABLK_TRANSFER_RING_SIZE - 1) tp_size of
           None \<Rightarrow> Inl minus_ENOMEM
         | Some pool \<Rightarrow>
             (let sz = disk_size_bytes (disk_size desc);
                  m = (if disk_type desc = disk_type_file then
                         vcablk_media_create_file (path_fits env) (media_mem env) (opened_file env) sz (disk_read_only desc)
                       else if disk_type desc = disk_type_memory then
                         vcablk_media_create_memory (path_fits env) (media_mem env) (memory_block env) sz (disk_read_only desc)
                       else Inl 0)
              in if IS_ERR m then Inl (projl m)
                 else if buffer_err env \<noteq> 0 then Inl (buffer_err env)
                 else Inr (pool, m))))"

definition is_power_of_2 :: "u16 \<Rightarrow> bool" where
  "is_power_of_2 n = (n \<noteq> 0 \<and> n AND (n - 1) = 0)"

definition vcablk_bcknd_alloc_transfer_ring :: "u16 \<Rightarrow> bool \<Rightarrow> nat vcablk_ring option" where
  "vcablk_bcknd_alloc_transfer_ring n mem =
     (if \<not> is_power_of_2 n then None
      else if \<not> mem then None
      else Some \<lparr>num_elems = n, last_add = 0, last_used = 0, elems = replicate (unat n) 0\<rparr>)"

definition new_transfer :: transfer_parameters where
  "new_transfer = \<lparr>tp_sector = 0, tp_nsec = 0, remapped = None, response_cookie = 0, is_write = False, do_flush = False,
     tp_buffer = replicate PAGE_SIZE 0\<rparr>"

text \<open>
  \<open>vcablk_bcknd_disk_start\<close> on a created disk. The first record tells whether the disk is in the state after creation, its
  doorbell, and the results of the calls: the windows to the rings, the interrupt, memory for the ring of
  transfers, and the two threads. \<open>windows\<close> counts the windows beside those of the rings.
\<close>

record start_env =
  state_create :: bool
  request_db :: int
  map_request_ring :: bool
  map_completion_ring :: bool
  irq_ok :: bool
  ring_mem :: bool
  transfer_thread_ok :: bool
  request_thread_ok :: bool

definition vcablk_bcknd_disk_start ::
  "start_env \<Rightarrow> vcablk_pool_t \<Rightarrow> vcablk_media \<Rightarrow> bool \<Rightarrow> vcablk_request vcablk_ring \<Rightarrow> vcablk_completion vcablk_ring \<Rightarrow> (u64 \<Rightarrow> u8)
    \<Rightarrow> int + vcablk_bcknd_disk" where
  "vcablk_bcknd_disk_start env pool m chan rreq rack mem =
     (if \<not> state_create env then Inl minus_EIO
      else if request_db env < 0 then Inl minus_EBUSY
      else if \<not> map_request_ring env then Inl minus_EIO
      else if \<not> map_completion_ring env then Inl minus_EIO
      else if \<not> is_power_of_2 (num_elems rreq) \<or> \<not> is_power_of_2 (num_elems rack) then Inl minus_EIO
      else if \<not> irq_ok env then Inl minus_EIO
      else
        (case vcablk_bcknd_alloc_transfer_ring VCABLK_TRANSFER_RING_SIZE (ring_mem env) of
           None \<Rightarrow> Inl minus_EAGAIN
         | Some ring \<Rightarrow>
             if \<not> transfer_thread_ok env \<or> \<not> request_thread_ok env then Inl minus_EAGAIN
             else
               Inr \<lparr>media = m, dma_ch = chan, transfer_thread = True, transfer_ring = ring,
                    request_ring = rreq, request_ring_nums = num_elems rreq,
                    completion_ring = rack, completion_ring_num_elems = num_elems rack,
                    request_last_used = last_used rreq, transfer_buffer_pool = pool,
                    transfers = replicate (unat (num pool)) new_transfer, remote = mem, windows = [],
                    done_intrs = 0, calls = 0\<rparr>))"

text \<open>Creation and start in one, with all calls of the start successful.\<close>

definition start_works :: start_env where
  "start_works = \<lparr>state_create = True, request_db = 3, map_request_ring = True, map_completion_ring = True, irq_ok = True,
     ring_mem = True, transfer_thread_ok = True, request_thread_ok = True\<rparr>"

definition bring_up ::
  "create_env \<Rightarrow> nat \<Rightarrow> vcablk_disk_open_desc \<Rightarrow> bool \<Rightarrow> vcablk_request vcablk_ring \<Rightarrow> vcablk_completion vcablk_ring \<Rightarrow> (u64 \<Rightarrow> u8)
    \<Rightarrow> int + vcablk_bcknd_disk" where
  "bring_up env tp_size desc chan rreq rack mem =
     (case vcablk_bcknd_disk_create env tp_size desc of
        Inl e \<Rightarrow> Inl e
      | Inr (pool, Inl p) \<Rightarrow> Inl p
      | Inr (pool, Inr m) \<Rightarrow> vcablk_bcknd_disk_start start_works pool m chan rreq rack mem)"

end
