(* ===== verification/Vcablk_Storage.thy ===== *)
theory Vcablk_Storage
  imports Vcablk_Bcknd
begin

text \<open>
  What the back end of the block device does with requests: the invariant of its buffers and rings, that
  the transfer thread only moves the state on to the one it settles in, and that a request changes this
  settled state, or the memory of the card, as its parts say.
\<close>

unbundle bit_operations_syntax

section \<open>The invariant\<close>

text \<open>
  \<open>fl\<close> are the free buffers in the order of the pool, \<open>tw\<close> those in the ring of the transfer thread and
  \<open>held\<close> those being filled; \<open>acks\<close> are the answers the front end has not read yet.
\<close>

definition transfers_ok :: "vcablk_bcknd_disk \<Rightarrow> nat list \<Rightarrow> nat list \<Rightarrow> nat list \<Rightarrow> bool" where
  "transfers_ok be fl tw held =
     (transfer_thread be \<and> num_elems (transfer_ring be) = 16 \<and> length (elems (transfer_ring be)) = 16
      \<and> rb_window 16 (last_add (transfer_ring be)) (last_used (transfer_ring be)) (elems (transfer_ring be)) tw
      \<and> pool_rel (transfer_buffer_pool be) fl \<and> length (items (transfer_buffer_pool be)) = 16
      \<and> length (transfers be) = 16 \<and> distinct (fl @ tw @ held) \<and> set (fl @ tw @ held) = {..<16}
      \<and> (\<forall>tp \<in> set (transfers be). length (tp_buffer tp) = 4096))"

definition acks_ok :: "vcablk_bcknd_disk \<Rightarrow> vcablk_completion list \<Rightarrow> bool" where
  "acks_ok be acks =
     (rb_size (completion_ring_num_elems be) \<and> length (elems (completion_ring be)) = unat (completion_ring_num_elems be)
      \<and> rb_window (completion_ring_num_elems be) (last_add (completion_ring be)) (last_used (completion_ring be))
          (elems (completion_ring be)) acks)"

text \<open>
  A transfer as what is left to do for it: the bytes to write and where, and the answer to give.
  The settled state is that of the storage and the answers once all transfers in the ring are done.
\<close>

type_synonym chunk = "bool \<times> nat \<times> u8 list \<times> int"

definition chunk_of :: "transfer_parameters \<Rightarrow> chunk" where
  "chunk_of tp = (is_write tp, 512 * unat (tp_sector tp), take (512 * unat (tp_nsec tp)) (tp_buffer tp), response_cookie tp)"

definition answer :: "int \<Rightarrow> vcablk_completion list" where
  "answer r = (if 0 \<le> r then [\<lparr>ack_cookie = of_int r, ack_ret = 0\<rparr>] else [])"

fun apply_chunk :: "chunk \<Rightarrow> u8 list \<times> vcablk_completion list \<Rightarrow> u8 list \<times> vcablk_completion list" where
  "apply_chunk (w, i, bs, r) (c, acks) = (if w then overwrite c i bs else c, acks @ answer r)"

definition settled :: "vcablk_bcknd_disk \<Rightarrow> nat list \<Rightarrow> vcablk_completion list \<Rightarrow> u8 list \<times> vcablk_completion list" where
  "settled be tw acks = fold (\<lambda>k. apply_chunk (chunk_of (transfers be ! k))) tw (contents (media be), acks)"

text \<open>Transfers whose bytes lie within the storage.\<close>

definition transfer_fits :: "vcablk_bcknd_disk \<Rightarrow> nat \<Rightarrow> bool" where
  "transfer_fits be k =
     (let tp = transfers be ! k
      in unat (tp_nsec tp) \<le> 8 \<and> (is_write tp \<longrightarrow> in_media (media be) (tp_sector tp) (unat (tp_nsec tp))))"

definition bk_inv :: "bcknd_env \<Rightarrow> vcablk_bcknd_disk \<Rightarrow> nat list \<Rightarrow> nat list \<Rightarrow> nat list \<Rightarrow> vcablk_completion list \<Rightarrow> bool" where
  "bk_inv env be fl tw held acks =
     (transfers_ok be fl tw held \<and> acks_ok be acks \<and> media_works (files env) (media be) \<and> (\<forall>k \<in> set tw. transfer_fits be k)
      \<and> length (snd (settled be tw acks)) \<le> unat (completion_ring_num_elems be))"

text \<open>What the transfer thread leaves alone.\<close>

definition bk_same :: "vcablk_bcknd_disk \<Rightarrow> vcablk_bcknd_disk \<Rightarrow> bool" where
  "bk_same be be' =
     (\<exists>c r a p d k. be' = be\<lparr>media := (media be)\<lparr>contents := c\<rparr>, transfer_ring := r, completion_ring := a,
        transfer_buffer_pool := p, done_intrs := d, calls := k\<rparr> \<and> length c = length (contents (media be)))"

lemma bk_same_refl [simp]: "bk_same be be"
  unfolding bk_same_def
  by (intro exI [of _ "contents (media be)"] exI [of _ "transfer_ring be"] exI [of _ "completion_ring be"]
      exI [of _ "transfer_buffer_pool be"] exI [of _ "done_intrs be"] exI [of _ "calls be"]) simp

lemma bk_same_trans: "bk_same a b \<Longrightarrow> bk_same b c \<Longrightarrow> bk_same a c"
  unfolding bk_same_def by (elim exE conjE) (simp, blast)

lemma bk_same_fields:
  assumes "bk_same be be'"
  shows "transfers be' = transfers be" "remote be' = remote be" "windows be' = windows be" "dma_ch be' = dma_ch be"
    "request_ring be' = request_ring be" "request_ring_nums be' = request_ring_nums be"
    "request_last_used be' = request_last_used be" "completion_ring_num_elems be' = completion_ring_num_elems be"
    "length (contents (media be')) = length (contents (media be))" "transfer_thread be' = transfer_thread be"
  using assms by (auto simp: bk_same_def)

lemma snd_apply_chunk: "snd (apply_chunk ch st) = snd st @ answer (snd (snd (snd ch)))"
  by (cases ch; cases st) simp

lemma snd_settled:
  "snd (settled be tw acks) = acks @ concat (map (\<lambda>k. answer (response_cookie (transfers be ! k))) tw)"
proof -
  have "snd (fold (\<lambda>k. apply_chunk (chunk_of (transfers be ! k))) tw st) =
      snd st @ concat (map (\<lambda>k. answer (response_cookie (transfers be ! k))) tw)" for st
    by (induction tw arbitrary: st) (simp_all add: snd_apply_chunk chunk_of_def)
  then show ?thesis by (simp add: settled_def)
qed

lemma settled_snoc: "settled be (tw @ [k]) acks = apply_chunk (chunk_of (transfers be ! k)) (settled be tw acks)"
  by (simp add: settled_def)

section \<open>The transfer thread\<close>

lemma send_response_run:
  assumes a: "acks_ok be acks" and room: "length acks < unat (completion_ring_num_elems be)"
  shows "\<exists>ring. vcablk_bcknd_disk_send_response env cook ret be =
      Returns (0, be\<lparr>completion_ring := ring, done_intrs := done_intrs be + 1\<rparr>)
    \<and> acks_ok (be\<lparr>completion_ring := ring, done_intrs := done_intrs be + 1\<rparr>) (acks @ [\<lparr>ack_cookie = cook, ack_ret = word_of_int ret\<rparr>])"
proof -
  let ?n = "completion_ring_num_elems be" and ?r = "completion_ring be"
  have sz: "rb_size ?n" and len: "length (elems ?r) = unat ?n"
    and w: "rb_window ?n (last_add ?r) (last_used ?r) (elems ?r) acks"
    using a by (simp_all add: acks_ok_def)
  have nf: "\<not> VCA_RB_BUFF_FULL (last_add ?r) (last_used ?r) ?n" using rb_window_full [OF sz w] room by simp
  have wait: "wait_ack_room env (last_add ?r) 200 be = (True, be)"
    using nf by (simp add: eval_nat_numeral)
  have i: "unat (VCA_RB_COUNTER_TO_IDX (last_add ?r) ?n) < length (elems ?r)"
    using rb_size_bounds(1) [OF sz] len by (simp add: counter_idx [OF sz])
  let ?ring = "?r\<lparr>elems := (elems ?r)[unat (VCA_RB_COUNTER_TO_IDX (last_add ?r) ?n) := \<lparr>ack_cookie = cook, ack_ret = word_of_int ret\<rparr>],
    last_add := VCA_RB_COUNTER_ADD (last_add ?r) 1 ?n\<rparr>"
  have "vcablk_bcknd_disk_send_response env cook ret be = Returns (0, be\<lparr>completion_ring := ?ring, done_intrs := done_intrs be + 1\<rparr>)"
    unfolding vcablk_bcknd_disk_send_response_def Let_def wait using i by simp
  moreover have "acks_ok (be\<lparr>completion_ring := ?ring, done_intrs := done_intrs be + 1\<rparr>)
      (acks @ [\<lparr>ack_cookie = cook, ack_ret = word_of_int ret\<rparr>])"
    using rb_window_push [OF sz len w room] sz len by (simp add: acks_ok_def)
  ultimately show ?thesis by blast
qed

lemma media_sync_works: "media_works (files env) m \<Longrightarrow> vcablk_media_sync (files env) m = 0"
  by (cases "media_type m") (simp_all add: vcablk_media_sync_def media_works_def files_work_def)

lemma media_works_contents:
  "media_works env m \<Longrightarrow> length c = length (contents m) \<Longrightarrow> media_works env (m\<lparr>contents := c\<rparr>)"
  by (simp add: media_works_def)

text \<open>Finishing the first transfer of the ring.\<close>

lemma complete_transfer_run:
  assumes m: "media_works (files env) (media be)" and fits: "transfer_fits be k" and buf: "length (tp_buffer (transfers be ! k)) = 4096"
    and a: "acks_ok be acks" and pool: "pool_rel (transfer_buffer_pool be) fl" and used: "used_id (transfer_buffer_pool be) k"
    and st: "apply_chunk (chunk_of (transfers be ! k)) (contents (media be), acks) = (c', acks')"
    and room: "length acks' \<le> unat (completion_ring_num_elems be)"
  shows "\<exists>be'. vca_bcknd_complete_transfer env k be = Returns be' \<and> bk_same be be' \<and> contents (media be') = c' \<and> acks_ok be' acks'
    \<and> pool_rel (transfer_buffer_pool be') (fl @ [k]) \<and> length (items (transfer_buffer_pool be')) = length (items (transfer_buffer_pool be))
    \<and> transfer_ring be' = transfer_ring be"
proof -
  let ?tp = "transfers be ! k"
  have ns: "unat (tp_nsec ?tp) \<le> 8" "512 * unat (tp_nsec ?tp) \<le> length (tp_buffer ?tp)"
    using fits buf by (simp_all add: transfer_fits_def Let_def)
  have c': "c' = (if is_write ?tp then overwrite (contents (media be)) (512 * unat (tp_sector ?tp)) (take (512 * unat (tp_nsec ?tp)) (tp_buffer ?tp))
      else contents (media be))" and acks': "acks' = acks @ answer (response_cookie ?tp)"
    using st by (simp_all add: chunk_of_def split: if_splits)
  have in_m: "is_write ?tp \<Longrightarrow> in_media (media be) (tp_sector ?tp) (unat (tp_nsec ?tp))"
    using fits by (simp add: transfer_fits_def Let_def)
  have lc: "length c' = length (contents (media be))"
    using in_m ns(2) by (auto simp: c' in_media_def)
  let ?b1 = "be\<lparr>media := (media be)\<lparr>contents := c'\<rparr>\<rparr>"
  have w: "(if is_write ?tp
        then obind (of_sum (vcablk_media_transfer (files env) (media be) (tp_sector ?tp) (tp_nsec ?tp) (tp_buffer ?tp) True))
               (\<lambda>(err, m, _). Returns (err, be\<lparr>media := m\<rparr>))
        else Returns (0, be)) = Returns (0, ?b1)"
    using media_write_run [OF m _ ns, of "tp_sector ?tp"] in_m by (auto simp: c')
  have a1: "acks_ok ?b1 acks" using a by (simp add: acks_ok_def)
  have sync: "vcablk_media_sync (files env) (media ?b1) = 0"
    by (rule media_sync_works) (simp add: media_works_contents [OF m lc])
  have s: "\<exists>ring d. (if 0 \<le> response_cookie ?tp
        then obind (vcablk_bcknd_disk_send_response env (of_int (response_cookie ?tp))
                      (if (0 :: int) = 0 \<and> do_flush ?tp then vcablk_media_sync (files env) (media ?b1) else 0) ?b1)
               (\<lambda>(_, bckd). Returns bckd)
        else Returns ?b1) = Returns (?b1\<lparr>completion_ring := ring, done_intrs := d\<rparr>)
      \<and> acks_ok (?b1\<lparr>completion_ring := ring, done_intrs := d\<rparr>) acks'"
  proof (cases "0 \<le> response_cookie ?tp")
    case True
    then have "length acks < unat (completion_ring_num_elems ?b1)" using room by (simp add: acks' answer_def)
    from send_response_run [OF a1 this, of env "of_int (response_cookie ?tp)" 0] obtain ring where
      "vcablk_bcknd_disk_send_response env (of_int (response_cookie ?tp)) 0 ?b1 =
        Returns (0, ?b1\<lparr>completion_ring := ring, done_intrs := done_intrs ?b1 + 1\<rparr>)"
      "acks_ok (?b1\<lparr>completion_ring := ring, done_intrs := done_intrs ?b1 + 1\<rparr>)
        (acks @ [\<lparr>ack_cookie = of_int (response_cookie ?tp), ack_ret = word_of_int 0\<rparr>])"
      by blast
    then show ?thesis using True sync
      by (intro exI [of _ ring] exI [of _ "done_intrs ?b1 + 1"]) (simp add: acks' answer_def)
  next
    case False
    then show ?thesis using a1
      by (intro exI [of _ "completion_ring ?b1"] exI [of _ "done_intrs ?b1"]) (simp add: acks' answer_def)
  qed
  then obtain ring d where s: "(if 0 \<le> response_cookie ?tp
        then obind (vcablk_bcknd_disk_send_response env (of_int (response_cookie ?tp))
                      (if (0 :: int) = 0 \<and> do_flush ?tp then vcablk_media_sync (files env) (media ?b1) else 0) ?b1)
               (\<lambda>(_, bckd). Returns bckd)
        else Returns ?b1) = Returns (?b1\<lparr>completion_ring := ring, done_intrs := d\<rparr>)"
    "acks_ok (?b1\<lparr>completion_ring := ring, done_intrs := d\<rparr>) acks'" by blast
  obtain p where p: "vcablk_pool_push (transfer_buffer_pool be) (item_data (transfer_buffer_pool be) k) = Inr p"
    "pool_rel p (fl @ [k])" "length (items p) = length (items (transfer_buffer_pool be))"
    using push_rel [OF pool used] by blast
  let ?be' = "?b1\<lparr>completion_ring := ring, done_intrs := d, transfer_buffer_pool := p\<rparr>"
  have "vca_bcknd_complete_transfer env k be = Returns ?be'"
    unfolding vca_bcknd_complete_transfer_def Let_def w using s(1) p(1) by (simp split del: if_split)
  moreover have "bk_same be ?be'"
    unfolding bk_same_def using lc
    by (intro exI [of _ c'] exI [of _ "transfer_ring be"] exI [of _ ring] exI [of _ p] exI [of _ d] exI [of _ "calls be"]) simp
  moreover have "acks_ok ?be' acks'" using s(2) by (simp add: acks_ok_def)
  ultimately show ?thesis using p by (intro exI [of _ ?be']) simp
qed

lemma transfers_used:
  assumes "transfers_ok be fl tw held" and "k \<in> set (tw @ held)"
  shows "used_id (transfer_buffer_pool be) k" "k < 16" "length (tp_buffer (transfers be ! k)) = 4096"
proof -
  show k: "k < 16" using assms by (auto simp: transfers_ok_def)
  have "k \<notin> set fl" using assms by (auto simp: transfers_ok_def)
  then show "used_id (transfer_buffer_pool be) k" using assms(1) k by (auto simp: transfers_ok_def pool_rel_def)
  show "length (tp_buffer (transfers be ! k)) = 4096" using assms(1) k by (auto simp: transfers_ok_def)
qed

lemma rb_size_16: "rb_size 16"
  unfolding rb_size_def by (intro exI [of _ 4]) simp

lemma transfer_ring_empty:
  assumes "transfers_ok be fl tw held"
  shows "VCA_RB_BUFF_EMPTY (last_add (transfer_ring be)) (last_used (transfer_ring be)) \<longleftrightarrow> tw = []"
proof -
  have "rb_window 16 (last_add (transfer_ring be)) (last_used (transfer_ring be)) (elems (transfer_ring be)) tw"
    using assms by (simp add: transfers_ok_def)
  from rb_window_empty [OF rb_size_16 this] show ?thesis by (auto simp: VCA_RB_BUFF_EMPTY_def)
qed

lemma fits_same: "bk_same be be' \<Longrightarrow> transfer_fits be' k = transfer_fits be k"
  by (simp add: transfer_fits_def in_media_def bk_same_fields)

lemma round_run:
  assumes inv: "bk_inv env be fl tw held acks"
  shows "\<exists>be' fl' tw' acks'. transfer_round env be = Returns be' \<and> bk_inv env be' fl' tw' held acks' \<and> bk_same be be'
    \<and> settled be' tw' acks' = settled be tw acks \<and> tw' = tl tw \<and> fl' = fl @ take 1 tw"
proof (cases tw)
  case Nil
  have "VCA_RB_BUFF_EMPTY (last_add (transfer_ring be)) (last_used (transfer_ring be))"
    using transfer_ring_empty [of be fl "[]" held] inv Nil by (simp add: bk_inv_def)
  then have "transfer_round env be = Returns be" by (simp add: transfer_round_def Let_def)
  then show ?thesis using inv Nil by (intro exI [of _ be] exI [of _ fl] exI [of _ "[]"] exI [of _ acks]) simp
next
  case (Cons k tw')
  let ?r = "transfer_ring be"
  have t: "transfers_ok be fl tw held" and a: "acks_ok be acks" and m: "media_works (files env) (media be)"
    and fits: "\<forall>k \<in> set tw. transfer_fits be k" and room: "length (snd (settled be tw acks)) \<le> unat (completion_ring_num_elems be)"
    using inv by (simp_all add: bk_inv_def)
  have w: "rb_window 16 (last_add ?r) (last_used ?r) (elems ?r) (k # tw')" and sz: "num_elems ?r = 16"
    using t Cons by (simp_all add: transfers_ok_def)
  note pop = rb_window_pop [OF rb_size_16 w]
  have k: "k \<in> set (tw @ held)" using Cons by simp
  obtain c' acks' where st: "apply_chunk (chunk_of (transfers be ! k)) (contents (media be), acks) = (c', acks')" by fastforce
  have s: "settled be tw acks = fold (\<lambda>k. apply_chunk (chunk_of (transfers be ! k))) tw' (c', acks')"
    using st by (simp add: settled_def Cons)
  have a': "acks' = acks @ answer (response_cookie (transfers be ! k))" using st by (simp add: chunk_of_def split: if_splits)
  have "length acks' \<le> unat (completion_ring_num_elems be)" using room unfolding snd_settled by (simp add: Cons a')
  moreover have "pool_rel (transfer_buffer_pool be) fl" using t by (simp add: transfers_ok_def)
  moreover have "transfer_fits be k" using fits Cons by simp
  ultimately obtain b1 where b1: "vca_bcknd_complete_transfer env k be = Returns b1" "bk_same be b1" "contents (media b1) = c'" "acks_ok b1 acks'"
    "pool_rel (transfer_buffer_pool b1) (fl @ [k])" "length (items (transfer_buffer_pool b1)) = length (items (transfer_buffer_pool be))"
    "transfer_ring b1 = transfer_ring be"
    using complete_transfer_run [OF m _ transfers_used(3) [OF t k] a _ transfers_used(1) [OF t k] st] by blast
  let ?be' = "b1\<lparr>transfer_ring := (transfer_ring b1)\<lparr>last_used := VCA_RB_COUNTER_ADD (last_used ?r) 1 16\<rparr>\<rparr>"
  note f = bk_same_fields [OF b1(2)]
  have run: "transfer_round env be = Returns ?be'"
    unfolding transfer_round_def Let_def sz using pop(1,2) b1(1) by (auto simp: VCA_RB_BUFF_EMPTY_def)
  have same: "bk_same be ?be'"
  proof -
    have "bk_same b1 ?be'"
      unfolding bk_same_def
      by (intro exI [of _ "contents (media b1)"] exI [of _ "transfer_ring ?be'"] exI [of _ "completion_ring b1"]
          exI [of _ "transfer_buffer_pool b1"] exI [of _ "done_intrs b1"] exI [of _ "calls b1"]) simp
    then show ?thesis by (rule bk_same_trans [OF b1(2)])
  qed
  have "transfers_ok ?be' (fl @ [k]) tw' held"
    using t b1(5-7) pop(3) f by (auto simp: transfers_ok_def Cons)
  moreover have "acks_ok ?be' acks'" using b1(4) by (simp add: acks_ok_def)
  moreover have "media_works (files env) (media ?be')"
  proof -
    obtain c where "media b1 = (media be)\<lparr>contents := c\<rparr>" "length c = length (contents (media be))"
      using b1(2) by (auto simp: bk_same_def)
    then show ?thesis using media_works_contents [OF m] by simp
  qed
  moreover have se: "settled ?be' tw' acks' = settled be tw acks" using s f(1) b1(3) by (simp add: settled_def)
  moreover have "\<forall>k \<in> set tw'. transfer_fits ?be' k" using fits fits_same [OF same] Cons by simp
  ultimately have "bk_inv env ?be' (fl @ [k]) tw' held acks'" using room f(8) by (simp add: bk_inv_def)
  then show ?thesis using run same se
    by (intro exI [of _ ?be'] exI [of _ "fl @ [k]"] exI [of _ tw'] exI [of _ acks']) (simp add: Cons)
qed

lemma rounds_run:
  assumes "bk_inv env be fl tw held acks"
  shows "\<exists>be' acks'. transfer_rounds env n be = Returns be' \<and> bk_inv env be' (fl @ take n tw) (drop n tw) held acks' \<and> bk_same be be'
    \<and> settled be' (drop n tw) acks' = settled be tw acks"
  using assms
proof (induction n arbitrary: be fl tw acks)
  case 0
  then show ?case by (intro exI [of _ be] exI [of _ acks]) simp
next
  case (Suc n)
  obtain b1 acks1 where b1: "transfer_round env be = Returns b1" "bk_inv env b1 (fl @ take 1 tw) (tl tw) held acks1" "bk_same be b1"
    "settled b1 (tl tw) acks1 = settled be tw acks"
    using round_run [OF Suc.prems] by blast
  obtain b2 acks2 where b2: "transfer_rounds env n b1 = Returns b2"
    "bk_inv env b2 ((fl @ take 1 tw) @ take n (tl tw)) (drop n (tl tw)) held acks2" "bk_same b1 b2"
    "settled b2 (drop n (tl tw)) acks2 = settled b1 (tl tw) acks1"
    using Suc.IH [OF b1(2)] by blast
  have "drop n (tl tw) = drop (Suc n) tw" "(fl @ take 1 tw) @ take n (tl tw) = fl @ take (Suc n) tw"
    by (cases tw; simp)+
  then show ?case using b1 b2 bk_same_trans [OF b1(3) b2(3)]
    by (intro exI [of _ b2] exI [of _ acks2]) (simp add: drop_Suc)
qed

section \<open>One buffer\<close>

lemma bk_inv_calls: "bk_inv env (be\<lparr>calls := n\<rparr>) fl tw held acks = bk_inv env be fl tw held acks"
  by (simp add: bk_inv_def transfers_ok_def acks_ok_def transfer_fits_def settled_def)

lemma settled_calls: "settled (be\<lparr>calls := n\<rparr>) tw acks = settled be tw acks"
  by (simp add: settled_def)

lemma bk_same_calls: "bk_same be (be\<lparr>calls := n\<rparr>)"
  unfolding bk_same_def
  by (intro exI [of _ "contents (media be)"] exI [of _ "transfer_ring be"] exI [of _ "completion_ring be"]
      exI [of _ "transfer_buffer_pool be"] exI [of _ "done_intrs be"] exI [of _ n]) simp

lemma pop_param:
  assumes inv: "bk_inv env be (x # fl) tw held acks" and ne: "fl \<noteq> []"
  shows "\<exists>p. vcablk_pool_pop (transfer_buffer_pool be) = (Some (item_data (transfer_buffer_pool be) x, of_nat x), p)
    \<and> unat (of_nat x :: u16) = x \<and> bk_inv env (be\<lparr>transfer_buffer_pool := p\<rparr>) fl tw (x # held) acks"
proof -
  have t: "transfers_ok be (x # fl) tw held" using inv by (simp add: bk_inv_def)
  then have r: "pool_rel (transfer_buffer_pool be) (x # fl)" and x: "x < 16" by (auto simp: transfers_ok_def)
  obtain p where p: "vcablk_pool_pop (transfer_buffer_pool be) = (Some (item_data (transfer_buffer_pool be) x, of_nat x), p)"
    "pool_rel p fl" "length (items p) = length (items (transfer_buffer_pool be))"
    using pop_rel [OF r ne] by blast
  have "transfers_ok (be\<lparr>transfer_buffer_pool := p\<rparr>) fl tw (x # held)"
    using t p(2,3) by (auto simp: transfers_ok_def)
  then have "bk_inv env (be\<lparr>transfer_buffer_pool := p\<rparr>) fl tw (x # held) acks"
    using inv by (simp add: bk_inv_def acks_ok_def transfer_fits_def settled_def)
  moreover have "unat (of_nat x :: u16) = x" using x by (intro unat_of_nat_small) simp
  ultimately show ?thesis using p(1) by blast
qed

lemma bk_same_pool: "bk_same be (be\<lparr>transfer_buffer_pool := p\<rparr>)"
  unfolding bk_same_def
  by (intro exI [of _ "contents (media be)"] exI [of _ "transfer_ring be"] exI [of _ "completion_ring be"]
      exI [of _ p] exI [of _ "done_intrs be"] exI [of _ "calls be"]) simp

lemma get_param_run:
  assumes inv: "bk_inv env be fl tw held acks" and few: "length held < 15"
  shows "\<exists>k be' fl' tw' acks'. vcablk_bcknd_get_transfer_param env be = Returns (k, be') \<and> bk_inv env be' fl' tw' (k # held) acks'
    \<and> bk_same be be' \<and> settled be' tw' acks' = settled be tw acks \<and> (\<exists>n. tw' = drop n tw)"
proof -
  let ?n = "thread_progress env (calls be)" and ?b = "be\<lparr>calls := calls be + 1\<rparr>"
  have inv0: "bk_inv env ?b fl tw held acks" using inv by (simp only: bk_inv_calls)
  obtain b1 acks1 where b1: "transfer_rounds env ?n ?b = Returns b1" "bk_inv env b1 (fl @ take ?n tw) (drop ?n tw) held acks1" "bk_same ?b b1"
    "settled b1 (drop ?n tw) acks1 = settled ?b tw acks"
    using rounds_run [OF inv0] by blast
  have same1: "bk_same be b1" by (rule bk_same_trans [OF bk_same_calls b1(3)])
  have t1: "transfers_ok b1 (fl @ take ?n tw) (drop ?n tw) held" using b1(2) by (simp add: bk_inv_def)
  then have r1: "pool_rel (transfer_buffer_pool b1) (fl @ take ?n tw)" by (simp add: transfers_ok_def)
  have "fl @ take ?n tw \<noteq> []" using r1 by (simp add: pool_rel_def)
  then obtain x f where xf: "fl @ take ?n tw = x # f" by (cases "fl @ take ?n tw") auto
  show ?thesis
  proof (cases "f = []")
    case False
    obtain p where p: "vcablk_pool_pop (transfer_buffer_pool b1) = (Some (item_data (transfer_buffer_pool b1) x, of_nat x), p)"
      "unat (of_nat x :: u16) = x" "bk_inv env (b1\<lparr>transfer_buffer_pool := p\<rparr>) f (drop ?n tw) (x # held) acks1"
      using pop_param [of env b1 x f "drop ?n tw" held acks1] b1(2) xf False by auto
    have "vcablk_bcknd_get_transfer_param env be = Returns (x, b1\<lparr>transfer_buffer_pool := p\<rparr>)"
      unfolding vcablk_bcknd_get_transfer_param_def Let_def b1(1) by (simp add: p(1,2))
    moreover have "settled (b1\<lparr>transfer_buffer_pool := p\<rparr>) (drop ?n tw) acks1 = settled be tw acks"
      using b1(4) by (simp add: settled_def)
    ultimately show ?thesis using p(3) bk_same_trans [OF same1 bk_same_pool] by blast
  next
    case True
    have none: "vcablk_pool_pop (transfer_buffer_pool b1) = (None, transfer_buffer_pool b1)"
      using vcablk.pop_none [of "transfer_buffer_pool b1" x] r1 pool_relI pool_rel_free_ids unfolding xf True by simp
    have len: "length (x # drop ?n tw) + length held = 16"
      using t1 distinct_card [of "(fl @ take ?n tw) @ drop ?n tw @ held"] unfolding xf True by (simp add: transfers_ok_def)
    with few obtain y tw2 where y: "drop ?n tw = y # tw2" by (cases "drop ?n tw") auto
    have ne: "\<not> VCA_RB_BUFF_EMPTY (last_add (transfer_ring b1)) (last_used (transfer_ring b1))"
      using transfer_ring_empty [OF t1] y by simp
    obtain b2 acks2 where b2: "transfer_round env b1 = Returns b2" "bk_inv env b2 ([x] @ [y]) tw2 held acks2" "bk_same b1 b2"
      "settled b2 tw2 acks2 = settled b1 (drop ?n tw) acks1"
      using round_run [OF b1(2)] unfolding xf True y by auto
    obtain p where p: "vcablk_pool_pop (transfer_buffer_pool b2) = (Some (item_data (transfer_buffer_pool b2) x, of_nat x), p)"
      "unat (of_nat x :: u16) = x" "bk_inv env (b2\<lparr>transfer_buffer_pool := p\<rparr>) [y] tw2 (x # held) acks2"
      using pop_param [of env b2 x "[y]" tw2 held acks2] b2(2) by auto
    have "vcablk_bcknd_get_transfer_param env be = Returns (x, b2\<lparr>transfer_buffer_pool := p\<rparr>)"
      unfolding vcablk_bcknd_get_transfer_param_def Let_def b1(1) by (simp add: none ne b2(1) p(1,2))
    moreover have "settled (b2\<lparr>transfer_buffer_pool := p\<rparr>) tw2 acks2 = settled be tw acks"
      using b1(4) b2(4) by (simp add: settled_def)
    moreover have "tw2 = drop (Suc ?n) tw" using y by (metis drop_Suc list.sel(3) tl_drop)
    ultimately show ?thesis using p(3) bk_same_trans [OF bk_same_trans [OF same1 b2(3)] bk_same_pool] by blast
  qed
qed

lemma settled_cong:
  assumes "contents (media be') = contents (media be)" and "\<And>k. k \<in> set tw \<Longrightarrow> transfers be' ! k = transfers be ! k"
  shows "settled be' tw acks = settled be tw acks"
  unfolding settled_def assms(1) by (intro fold_cong refl) (simp add: assms(2))

text \<open>The buffer being filled goes to the ring of the transfer thread; the window is unmapped with the last one.\<close>

lemma callback_run:
  assumes t: "transfers_ok be fl tw [k]"
  shows "\<exists>ring. vca_bcknd_callback_dma env k be = Returns (be\<lparr>transfers := (transfers be)[k := (transfers be ! k)\<lparr>remapped := None\<rparr>],
      windows := (case remapped (transfers be ! k) of None \<Rightarrow> windows be | Some win \<Rightarrow> remove1 win (windows be)),
      transfer_ring := ring\<rparr>)
    \<and> transfers_ok (be\<lparr>transfers := (transfers be)[k := (transfers be ! k)\<lparr>remapped := None\<rparr>], windows := w, transfer_ring := ring\<rparr>)
        fl (tw @ [k]) []"
proof -
  let ?r = "transfer_ring be" and ?tp = "transfers be ! k"
  have sz: "num_elems ?r = 16" and len: "length (elems ?r) = unat (16 :: u16)"
    and w: "rb_window 16 (last_add ?r) (last_used ?r) (elems ?r) tw" and thr: "transfer_thread be"
    using t by (simp_all add: transfers_ok_def)
  have "fl \<noteq> []" using t by (auto simp: transfers_ok_def pool_rel_def)
  then have lt: "length tw < unat (16 :: u16)"
    using t distinct_card [of "fl @ tw @ [k]"] by (cases fl) (auto simp: transfers_ok_def)
  have nf: "\<not> VCA_RB_BUFF_FULL (last_add ?r) (last_used ?r) 16" using rb_window_full [OF rb_size_16 w] lt by simp
  let ?ring = "?r\<lparr>elems := (elems ?r)[unat (VCA_RB_COUNTER_TO_IDX (last_add ?r) 16) := k],
    last_add := VCA_RB_COUNTER_ADD (last_add ?r) 1 16\<rparr>"
  have k: "k < length (transfers be)" using t by (auto simp: transfers_ok_def)
  have same: "(transfers be)[k := ?tp\<lparr>remapped := None\<rparr>] = transfers be" if "remapped ?tp = None"
  proof -
    have "?tp\<lparr>remapped := None\<rparr> = ?tp" using that by (cases ?tp) simp
    then show ?thesis by simp
  qed
  have "vca_bcknd_callback_dma env k be = Returns (be\<lparr>transfers := (transfers be)[k := ?tp\<lparr>remapped := None\<rparr>],
      windows := (case remapped ?tp of None \<Rightarrow> windows be | Some win \<Rightarrow> remove1 win (windows be)), transfer_ring := ?ring\<rparr>)"
    using thr nf sz same by (cases "remapped ?tp") (simp_all add: vca_bcknd_callback_dma_def Let_def upd_transfer_def)
  moreover have "length (tp_buffer ?tp) = 4096" using transfers_used(3) [OF t] by simp
  then have "transfers_ok (be\<lparr>transfers := (transfers be)[k := ?tp\<lparr>remapped := None\<rparr>], windows := w, transfer_ring := ?ring\<rparr>) fl (tw @ [k]) []"
    using t rb_window_push [OF rb_size_16 len w lt, of k] by (auto simp: transfers_ok_def dest!: set_update_subset_insert [THEN subsetD])
  ultimately show ?thesis by blast
qed

lemma bk_inv_enqueue:
  assumes inv: "bk_inv env be fl tw held acks" and t: "transfers_ok be' fl (tw @ [k]) []"
    and f: "media be' = media be" "completion_ring be' = completion_ring be" "completion_ring_num_elems be' = completion_ring_num_elems be"
      "\<And>j. j \<in> set tw \<Longrightarrow> transfers be' ! j = transfers be ! j"
    and fits: "transfer_fits be' k" and room: "length (snd (settled be tw acks)) + length (answer (response_cookie (transfers be' ! k)))
      \<le> unat (completion_ring_num_elems be)"
  shows "bk_inv env be' fl (tw @ [k]) [] acks"
    "settled be' (tw @ [k]) acks = apply_chunk (chunk_of (transfers be' ! k)) (settled be tw acks)"
proof -
  have s: "settled be' tw acks = settled be tw acks" using f by (intro settled_cong) simp_all
  show st: "settled be' (tw @ [k]) acks = apply_chunk (chunk_of (transfers be' ! k)) (settled be tw acks)"
    by (simp add: settled_snoc s)
  have "\<forall>j \<in> set (tw @ [k]). transfer_fits be' j"
    using inv fits f(1,4) by (auto simp: bk_inv_def transfer_fits_def)
  then show "bk_inv env be' fl (tw @ [k]) [] acks"
    using inv t f room by (simp add: bk_inv_def acks_ok_def st snd_apply_chunk chunk_of_def)
qed

text \<open>A window and a DMA channel that work.\<close>

definition bus_works :: "bcknd_env \<Rightarrow> bool" where
  "bus_works env = (\<forall>k. ioremap_ok env k \<and> dma_result env k = 0)"

lemma transfer_device_run:
  assumes "bus_works env"
  shows "\<exists>c. vcablk_bcknd_transfer_device env k a n be =
    obind (vca_bcknd_callback_dma env k (copy_device k a n (be\<lparr>calls := c\<rparr>))) (\<lambda>be. Returns (0, be))"
proof (cases "dma_ch be")
  case True
  then show ?thesis using assms
    by (intro exI [of _ "calls be + 1"]) (simp add: vcablk_bcknd_transfer_device_def bus_works_def Let_def)
next
  case False
  then show ?thesis by (intro exI [of _ "calls be"]) (simp add: vcablk_bcknd_transfer_device_def Let_def)
qed

lemma length_read_remote [simp]: "length (read_remote mem a n) = n"
  by (simp add: read_remote_def)

text \<open>What requests leave alone besides the memory of the card and the windows.\<close>

definition bk_frame :: "vcablk_bcknd_disk \<Rightarrow> vcablk_bcknd_disk \<Rightarrow> bool" where
  "bk_frame be be' =
     (dma_ch be' = dma_ch be \<and> request_ring be' = request_ring be \<and> request_ring_nums be' = request_ring_nums be
      \<and> request_last_used be' = request_last_used be \<and> completion_ring_num_elems be' = completion_ring_num_elems be
      \<and> length (contents (media be')) = length (contents (media be)))"

lemma bk_frame_refl [simp]: "bk_frame be be"
  by (simp add: bk_frame_def)

lemma bk_frame_trans: "bk_frame a b \<Longrightarrow> bk_frame b c \<Longrightarrow> bk_frame a c"
  by (simp add: bk_frame_def)

lemma bk_same_frame: "bk_same be be' \<Longrightarrow> bk_frame be be'"
  by (simp add: bk_frame_def bk_same_fields)

text \<open>The filled buffer \<open>tp\<close> is handed to the transfer thread.\<close>

lemma hand_over:
  assumes inv: "bk_inv env b fl tw [k] acks" and buf: "length (tp_buffer tp) = 4096" and n: "unat (tp_nsec tp) \<le> 8"
    and m: "is_write tp \<Longrightarrow> in_media (media b) (tp_sector tp) (unat (tp_nsec tp))"
    and room: "length (snd (settled b tw acks)) + length (answer (response_cookie tp)) \<le> unat (completion_ring_num_elems b)"
  shows "\<exists>be'. vca_bcknd_callback_dma env k (b\<lparr>transfers := (transfers b)[k := tp], remote := rem, calls := c\<rparr>) = Returns be'
    \<and> bk_inv env be' fl (tw @ [k]) [] acks \<and> settled be' (tw @ [k]) acks = apply_chunk (chunk_of tp) (settled b tw acks)
    \<and> bk_frame b be' \<and> media be' = media b \<and> remote be' = rem
    \<and> windows be' = (case remapped tp of None \<Rightarrow> windows b | Some win \<Rightarrow> remove1 win (windows b))
    \<and> transfers be' = (transfers b)[k := tp\<lparr>remapped := None\<rparr>]"
proof -
  let ?w = "case remapped tp of None \<Rightarrow> windows b | Some win \<Rightarrow> remove1 win (windows b)"
  let ?b = "b\<lparr>transfers := (transfers b)[k := tp], remote := rem, calls := c\<rparr>"
  have t: "transfers_ok b fl tw [k]" using inv by (simp add: bk_inv_def)
  have k: "k < length (transfers b)" "k \<notin> set tw" using t by (auto simp: transfers_ok_def)
  have "transfers_ok ?b fl tw [k]"
    using t buf by (auto simp: transfers_ok_def dest!: set_update_subset_insert [THEN subsetD])
  note cb = callback_run [OF this, of env, where w = ?w]
  from cb k(1) obtain ring where run: "vca_bcknd_callback_dma env k ?b = Returns (?b\<lparr>transfers := (transfers b)[k := tp\<lparr>remapped := None\<rparr>],
      windows := ?w, transfer_ring := ring\<rparr>)"
    and ok: "transfers_ok (?b\<lparr>transfers := (transfers b)[k := tp\<lparr>remapped := None\<rparr>], windows := ?w, transfer_ring := ring\<rparr>) fl (tw @ [k]) []"
    by (auto cong: option.case_cong)
  let ?be' = "?b\<lparr>transfers := (transfers b)[k := tp\<lparr>remapped := None\<rparr>], windows := ?w, transfer_ring := ring\<rparr>"
  have tp: "transfers ?be' ! k = tp\<lparr>remapped := None\<rparr>" using k(1) by simp
  have fits: "transfer_fits ?be' k" using n m k(1) by (simp add: transfer_fits_def Let_def in_media_def)
  have same: "transfers ?be' ! j = transfers b ! j" if "j \<in> set tw" for j
  proof -
    have "j \<noteq> k" using that k(2) by auto
    then show ?thesis by simp
  qed
  have chunk: "chunk_of (tp\<lparr>remapped := None\<rparr>) = chunk_of tp" by (simp add: chunk_of_def)
  have "bk_inv env ?be' fl (tw @ [k]) [] acks" "settled ?be' (tw @ [k]) acks = apply_chunk (chunk_of tp) (settled b tw acks)"
    using bk_inv_enqueue [OF inv ok _ _ _ same fits] room k(1) chunk by simp_all
  then show ?thesis using run by (intro exI [of _ ?be']) (simp add: bk_frame_def)
qed

lemma read_remote_append: "read_remote mem p (i + j) = read_remote mem p i @ read_remote mem (p + of_nat i) j"
  by (rule nth_equalityI) (auto simp: read_remote_def nth_append ac_simps)

lemma write_remote_append:
  assumes "length xs + length ys \<le> 2 ^ 64"
  shows "write_remote (write_remote mem p xs) (p + of_nat (length xs)) ys = write_remote mem p (xs @ ys)"
proof
  fix x :: u64
  let ?d = "unat (x - p)"
  have d: "?d < 2 ^ 64" using unsigned_less [of "x - p", where 'a = nat] by simp
  show "write_remote (write_remote mem p xs) (p + of_nat (length xs)) ys x = write_remote mem p (xs @ ys) x"
  proof (cases "ys = []")
    case True
    then show ?thesis by (simp add: write_remote_def)
  next
    case False
    then have lx: "unat (of_nat (length xs) :: u64) = length xs" using assms by (intro unat_of_nat_small) (cases ys; simp)
    have x: "x - (p + of_nat (length xs)) = (x - p) - of_nat (length xs)" by simp
    show ?thesis
    proof (cases "length xs \<le> ?d")
      case True
      then have "unat ((x - p) - of_nat (length xs)) = ?d - length xs"
        using unat_sub [of "of_nat (length xs)" "x - p"] lx by (simp add: word_le_nat_alt)
      then show ?thesis using True by (auto simp: write_remote_def x nth_append)
    next
      case lt: False
      have "unat ((x - p) - of_nat (length xs)) = 2 ^ 64 + ?d - length xs"
        using unat_sub_if' [of "x - p" "of_nat (length xs)"] lt lx by (simp add: word_le_nat_alt)
      then show ?thesis using lt assms by (auto simp: write_remote_def x nth_append)
    qed
  qed
qed

lemma settled_length:
  assumes "bk_inv env be fl tw held acks" and "settled be tw acks = (c, a)"
  shows "length c = length (contents (media be))" "length c < 2 ^ 64"
proof -
  have "length (fst (fold (\<lambda>k. apply_chunk (chunk_of (transfers be ! k))) xs (x, y))) = length (contents (media be))"
    if "length x = length (contents (media be))" "set xs \<subseteq> set tw" for xs x y
    using that
  proof (induction xs arbitrary: x y)
    case (Cons k xs)
    let ?tp = "transfers be ! k"
    have "transfer_fits be k" "length (tp_buffer ?tp) = 4096"
      using assms(1) Cons.prems(2) transfers_used(3) [of be fl tw held k] by (auto simp: bk_inv_def)
    then have "length (fst (apply_chunk (chunk_of ?tp) (x, y))) = length x"
      using Cons.prems(1) by (auto simp: chunk_of_def transfer_fits_def in_media_def Let_def)
    then show ?case using Cons.IH [of "fst (apply_chunk (chunk_of ?tp) (x, y))" "snd (apply_chunk (chunk_of ?tp) (x, y))"] Cons.prems by simp
  qed simp
  from this [OF refl order_refl, of acks] show l: "length c = length (contents (media be))" using assms(2) by (simp add: settled_def)
  show "length c < 2 ^ 64"
    using l assms(1) unsigned_less [of "size_bytes (media be)", where 'a = nat] by (simp add: bk_inv_def media_works_def)
qed

text \<open>The effect of moving \<open>n\<close> bytes at an offset between the storage and the memory of the card.\<close>

definition moved :: "bool \<Rightarrow> nat \<Rightarrow> nat \<Rightarrow> u64 \<Rightarrow> u8 list \<times> (u64 \<Rightarrow> u8) \<Rightarrow> u8 list \<times> (u64 \<Rightarrow> u8)" where
  "moved w i n p = (\<lambda>(c, mem). if w then (overwrite c i (read_remote mem p n), mem) else (c, write_remote mem p (take n (drop i c))))"

lemma moved_append:
  assumes "i + n + k \<le> length c" and "length c < 2 ^ 64"
  shows "moved w (i + n) k (p + of_nat n) (moved w i n p (c, mem)) = moved w i (n + k) p (c, mem)"
proof (cases w)
  case True
  then show ?thesis using assms overwrite_append [of i "read_remote mem p n" "read_remote mem (p + of_nat n) k" c]
    by (simp add: moved_def read_remote_append)
next
  case False
  have "take n (drop i c) @ take k (drop (i + n) c) = take (n + k) (drop i c)" by (simp add: take_add add.commute [of n i])
  moreover have "length (take n (drop i c)) = n" using assms by simp
  ultimately show ?thesis
    using False assms write_remote_append [of "take n (drop i c)" "take k (drop (i + n) c)" mem p] by (simp add: moved_def)
qed

lemma settled_reads:
  assumes "\<forall>k \<in> set tw. \<not> is_write (transfers be ! k)"
  shows "fst (settled be tw acks) = contents (media be)"
proof -
  have "fst (fold (\<lambda>k. apply_chunk (chunk_of (transfers be ! k))) tw (x, y)) = x" for x y
    using assms by (induction tw arbitrary: y) (simp_all add: chunk_of_def)
  then show ?thesis by (simp add: settled_def)
qed

text \<open>One round of the loop over the buffers of a part.\<close>

lemma loop_step:
  assumes inv: "bk_inv env be fl tw [] acks" and bus: "bus_works env" and n: "nsecs \<noteq> 0"
    and m: "in_media (media be) sec (unat nsecs)" and rd: "write \<or> (\<forall>k \<in> set tw. \<not> is_write (transfers be ! k))"
    and st: "settled be tw acks = (c, a)" and r: "r = (if nsecs - min nsecs 8 = 0 then resp else - 1)"
    and room: "length a + length (answer r) \<le> unat (completion_ring_num_elems be)"
  shows "\<exists>be' fl' tw' acks'. transfer_loop env sec nsecs ptr win write resp flush be =
      transfer_loop env (sec + min nsecs 8) (nsecs - min nsecs 8) (ptr + push_bit SECTOR_SHIFT (min nsecs 8)) win write resp flush be'
    \<and> bk_inv env be' fl' tw' [] acks' \<and> bk_frame be be'
    \<and> settled be' tw' acks' = (fst (moved write (512 * unat sec) (512 * unat (min nsecs 8)) ptr (c, remote be)), a @ answer r)
    \<and> remote be' = snd (moved write (512 * unat sec) (512 * unat (min nsecs 8)) ptr (c, remote be))
    \<and> windows be' = (if nsecs - min nsecs 8 = 0 then remove1 win (windows be) else windows be)
    \<and> (write \<or> (\<forall>k \<in> set tw'. \<not> is_write (transfers be' ! k)))"
proof -
  let ?n = "min nsecs 8" and ?lst = "nsecs - min nsecs 8 = 0"
  have n8: "unat ?n \<le> 8" "unat ?n \<le> unat nsecs" by (simp_all add: min_def word_le_nat_alt)
  obtain k b1 fl1 tw1 acks1 where b1: "vcablk_bcknd_get_transfer_param env be = Returns (k, b1)" "bk_inv env b1 fl1 tw1 [k] acks1"
    "bk_same be b1" "settled b1 tw1 acks1 = (c, a)" "\<exists>i. tw1 = drop i tw"
    using get_param_run [OF inv] st by (metis list.size(3) zero_less_numeral)
  note f = bk_same_fields [OF b1(3)]
  have t1: "transfers_ok b1 fl1 tw1 [k]" and mw: "media_works (files env) (media b1)" using b1(2) by (simp_all add: bk_inv_def)
  have k: "k < length (transfers b1)" "k \<notin> set tw1" using t1 by (auto simp: transfers_ok_def)
  have sub: "set tw1 \<subseteq> set tw" using b1(5) by (auto dest: in_set_dropD)
  have mm: "in_media (media b1) sec (unat ?n)" using m n8(2) by (simp add: in_media_def f)
  let ?buf0 = "tp_buffer (transfers b1 ! k)"
  have buf0: "length ?buf0 = 4096" using transfers_used(3) [OF t1] by simp
  have bytes: "unat (push_bit SECTOR_SHIFT ?n) = 512 * unat ?n" by (rule sector_bytes) (use n8(1) in simp)
  have cc: "c = contents (media b1)" if "\<not> write"
  proof -
    have "\<forall>j \<in> set tw1. \<not> is_write (transfers b1 ! j)" using that rd sub f(1) by auto
    from settled_reads [OF this] show ?thesis using b1(4) by (metis fst_conv)
  qed
  let ?data = "if write then read_remote (remote be) ptr (512 * unat ?n) else take (512 * unat ?n) (drop (512 * unat sec) c)"
  let ?rem = "if write then remote be else write_remote (remote be) ptr ?data"
  let ?tp = "(transfers b1 ! k)\<lparr>response_cookie := r, remapped := (if ?lst then Some win else None), do_flush := (?lst \<and> flush),
    tp_sector := sec, tp_nsec := ?n, is_write := write, tp_buffer := overwrite ?buf0 0 ?data\<rparr>"
  have ld: "length ?data = 512 * unat ?n" using mm cc by (auto simp: in_media_def)
  have lb: "length (overwrite ?buf0 0 ?data) = 4096" using ld n8(1) buf0 by simp
  have td: "take (512 * unat ?n) (overwrite ?buf0 0 ?data) = ?data" using ld by (simp add: overwrite_def)
  have room1: "length (snd (settled b1 tw1 acks1)) + length (answer (response_cookie ?tp)) \<le> unat (completion_ring_num_elems b1)"
    using room b1(4) f by simp
  have hand: "\<exists>be'. vca_bcknd_callback_dma env k (b1\<lparr>transfers := (transfers b1)[k := ?tp], remote := ?rem, calls := cl\<rparr>) = Returns be'
    \<and> bk_inv env be' fl1 (tw1 @ [k]) [] acks1 \<and> settled be' (tw1 @ [k]) acks1 = apply_chunk (chunk_of ?tp) (settled b1 tw1 acks1)
    \<and> bk_frame b1 be' \<and> media be' = media b1 \<and> remote be' = ?rem
    \<and> windows be' = (case remapped ?tp of None \<Rightarrow> windows b1 | Some win \<Rightarrow> remove1 win (windows b1))
    \<and> transfers be' = (transfers b1)[k := ?tp\<lparr>remapped := None\<rparr>]" for cl
    by (rule hand_over [OF b1(2)]) (use lb n8(1) mm room1 in simp_all)
  let ?b2 = "upd_transfer k (\<lambda>tp. tp\<lparr>response_cookie := (if ?lst then resp else - 1), remapped := (if ?lst then Some win else None),
    do_flush := (?lst \<and> flush), tp_sector := sec, tp_nsec := ?n, is_write := write\<rparr>) b1"
  let ?b3 = "if write then ?b2 else upd_transfer k (\<lambda>tp. tp\<lparr>tp_buffer := overwrite ?buf0 0 ?data\<rparr>) (?b2\<lparr>media := media b1\<rparr>)"
  have rd3: "(if write then Returns (0, ?b2)
      else obind (of_sum (vcablk_media_transfer (files env) (media ?b2) sec ?n (tp_buffer (transfers ?b2 ! k)) False))
             (\<lambda>(ret, m, buf). Returns (ret, upd_transfer k (\<lambda>tp. tp\<lparr>tp_buffer := buf\<rparr>) (?b2\<lparr>media := m\<rparr>)))) = Returns (0, ?b3)"
  proof (cases "write")
    case False
    have "vcablk_media_transfer (files env) (media b1) sec ?n ?buf0 False = Inr (0, media b1, overwrite ?buf0 0 ?data)"
      using media_read_run [OF mw mm n8(1)] buf0 n8(1) cc False by simp
    then show ?thesis using False k(1) by (simp add: upd_transfer_def)
  qed simp
  have cp: "copy_device k ptr (512 * unat ?n) (?b3\<lparr>calls := cl\<rparr>) =
      b1\<lparr>transfers := (transfers b1)[k := ?tp], remote := ?rem, calls := cl\<rparr>" for cl
    using k(1) td f(2) r by (cases "write") (simp_all add: copy_device_def upd_transfer_def)
  obtain cl where dev: "vcablk_bcknd_transfer_device env k ptr (512 * unat ?n) ?b3 =
      obind (vca_bcknd_callback_dma env k (b1\<lparr>transfers := (transfers b1)[k := ?tp], remote := ?rem, calls := cl\<rparr>)) (\<lambda>be. Returns (0, be))"
    using transfer_device_run [OF bus, of k ptr "512 * unat ?n" ?b3] unfolding cp by blast
  obtain be' where be': "vca_bcknd_callback_dma env k (b1\<lparr>transfers := (transfers b1)[k := ?tp], remote := ?rem, calls := cl\<rparr>) = Returns be'"
    "bk_inv env be' fl1 (tw1 @ [k]) [] acks1" "settled be' (tw1 @ [k]) acks1 = apply_chunk (chunk_of ?tp) (settled b1 tw1 acks1)"
    "bk_frame b1 be'" "remote be' = ?rem"
    "windows be' = (case remapped ?tp of None \<Rightarrow> windows b1 | Some win \<Rightarrow> remove1 win (windows b1))"
    "transfers be' = (transfers b1)[k := ?tp\<lparr>remapped := None\<rparr>]"
    using hand by blast
  have run: "transfer_loop env sec nsecs ptr win write resp flush be =
      transfer_loop env (sec + ?n) (nsecs - ?n) (ptr + push_bit SECTOR_SHIFT ?n) win write resp flush be'"
    by (subst transfer_loop.simps, subst if_not_P [OF n])
      (simp only: b1(1) obind_simps prod.case Let_def rd3 bytes dev be'(1) if_False simp_thms not_not)
  have "settled be' (tw1 @ [k]) acks1 = (if write then overwrite c (512 * unat sec) ?data else c, a @ answer r)"
    using be'(3) b1(4) td by (simp add: chunk_of_def)
  moreover have "write \<or> (\<forall>j \<in> set (tw1 @ [k]). \<not> is_write (transfers be' ! j))"
    using rd sub k be'(7) f(1) by (auto simp: nth_list_update)
  moreover have "windows be' = (if ?lst then remove1 win (windows be) else windows be)" using be'(6) f(3) by simp
  ultimately show ?thesis using run be'(2,5) bk_frame_trans [OF bk_same_frame [OF b1(3)] be'(4)]
    by (intro exI [of _ be'] exI [of _ fl1] exI [of _ "tw1 @ [k]"] exI [of _ acks1]) (simp add: moved_def split: if_splits)
qed

lemma transfer_loop_run:
  assumes "bk_inv env be fl tw [] acks" and bus: "bus_works env" and "nsecs \<noteq> 0"
    and "in_media (media be) sec (unat nsecs)" and "write \<or> (\<forall>k \<in> set tw. \<not> is_write (transfers be ! k))"
    and "settled be tw acks = (c, a)"
    and "length a + length (answer resp) \<le> unat (completion_ring_num_elems be)"
  shows "\<exists>be' fl' tw' acks'. transfer_loop env sec nsecs ptr win write resp flush be = Returns (0, be')
    \<and> bk_inv env be' fl' tw' [] acks' \<and> bk_frame be be'
    \<and> settled be' tw' acks' = (fst (moved write (512 * unat sec) (512 * unat nsecs) ptr (c, remote be)), a @ answer resp)
    \<and> remote be' = snd (moved write (512 * unat sec) (512 * unat nsecs) ptr (c, remote be))
    \<and> windows be' = remove1 win (windows be)
    \<and> (write \<or> (\<forall>k \<in> set tw'. \<not> is_write (transfers be' ! k)))"
  using assms
proof (induction "unat nsecs" arbitrary: be fl tw acks sec nsecs ptr c a rule: less_induct)
  case less
  let ?n = "min nsecs 8"
  have le: "?n \<le> nsecs" by simp
  have pos: "0 < unat ?n" using less.prems(3) by (simp add: min_def unat_gt_0)
  have sub: "unat (nsecs - ?n) = unat nsecs - unat ?n" "unat ?n \<le> unat nsecs"
    using unat_sub [OF le] le by (simp_all add: word_le_nat_alt)
  define r where "r = (if nsecs - ?n = 0 then resp else - 1)"
  have "length a + length (answer r) \<le> unat (completion_ring_num_elems be)"
    using less.prems(7) by (simp add: r_def answer_def split: if_splits)
  from loop_step [OF less.prems(1) bus less.prems(3-6) r_def this, of ptr win flush] obtain b1 fl1 tw1 acks1 where
    b1: "transfer_loop env sec nsecs ptr win write resp flush be =
      transfer_loop env (sec + ?n) (nsecs - ?n) (ptr + push_bit SECTOR_SHIFT ?n) win write resp flush b1"
    "bk_inv env b1 fl1 tw1 [] acks1" "bk_frame be b1"
    "settled b1 tw1 acks1 = (fst (moved write (512 * unat sec) (512 * unat ?n) ptr (c, remote be)), a @ answer r)"
    "remote b1 = snd (moved write (512 * unat sec) (512 * unat ?n) ptr (c, remote be))"
    "windows b1 = (if nsecs - ?n = 0 then remove1 win (windows be) else windows be)"
    "write \<or> (\<forall>k \<in> set tw1. \<not> is_write (transfers b1 ! k))"
    by blast
  show ?case
  proof (cases "nsecs - ?n = 0")
    case True
    then have "nsecs = ?n" by (metis eq_iff_diff_eq_0)
    then show ?thesis using b1 True
      by (intro exI [of _ b1] exI [of _ fl1] exI [of _ tw1] exI [of _ acks1]) (simp add: r_def transfer_loop.simps [of _ _ 0])
  next
    case False
    note len = settled_length [OF less.prems(1,6)]
    have m: "512 * unat sec + 512 * unat nsecs \<le> length c" using less.prems(4) len(1) by (simp add: in_media_def)
    have "unat (push_bit SECTOR_SHIFT ?n) = 512 * unat ?n" by (rule sector_bytes) (use m len(2) sub(2) in simp)
    then have ptr: "push_bit SECTOR_SHIFT ?n = of_nat (512 * unat ?n)" by (simp add: push_bit_eq_mult)
    have sec: "unat (sec + ?n) = unat sec + unat ?n" using m len(2) sub(2) by (intro unat_plus_small) simp
    have lc: "length (contents (media b1)) = length (contents (media be))"
      "completion_ring_num_elems b1 = completion_ring_num_elems be"
      using b1(3) by (simp_all add: bk_frame_def)
    have m1: "in_media (media b1) (sec + ?n) (unat (nsecs - ?n))"
      using m sub len(1) by (simp add: in_media_def lc sec)
    have a1: "a @ answer r = a" using False by (simp add: r_def answer_def)
    let ?mv = "moved write (512 * unat sec) (512 * unat ?n) ptr (c, remote be)"
    have mv: "moved write (512 * unat (sec + ?n)) (512 * unat (nsecs - ?n)) (ptr + push_bit SECTOR_SHIFT ?n) (fst ?mv, remote b1) =
        moved write (512 * unat sec) (512 * unat nsecs) ptr (c, remote be)"
    proof -
      have "512 * unat sec + 512 * unat ?n + 512 * unat (nsecs - ?n) \<le> length c"
        "512 * unat ?n + 512 * unat (nsecs - ?n) = 512 * unat nsecs" using m sub by simp_all
      from moved_append [OF this(1) len(2), of "write" ptr "remote be"] this(2) show ?thesis
        by (simp add: b1(5) sec ptr distrib_left)
    qed
    have "unat (nsecs - ?n) < unat nsecs" using sub pos by simp
    from less.hyps [OF this b1(2) bus False m1 b1(7), of "fst ?mv" a "ptr + push_bit SECTOR_SHIFT ?n"] b1(4) a1 less.prems(7) lc(2)
    obtain b2 fl2 tw2 acks2 where
      b2: "transfer_loop env (sec + ?n) (nsecs - ?n) (ptr + push_bit SECTOR_SHIFT ?n) win write resp flush b1 = Returns (0, b2)"
      "bk_inv env b2 fl2 tw2 [] acks2" "bk_frame b1 b2"
      "settled b2 tw2 acks2 = (fst (moved write (512 * unat sec) (512 * unat nsecs) ptr (c, remote be)), a @ answer resp)"
      "remote b2 = snd (moved write (512 * unat sec) (512 * unat nsecs) ptr (c, remote be))"
      "windows b2 = remove1 win (windows b1)" "write \<or> (\<forall>k \<in> set tw2. \<not> is_write (transfers b2 ! k))"
      unfolding mv by auto
    then show ?thesis using b1(1,6) False bk_frame_trans [OF b1(3) b2(3)]
      by (intro exI [of _ b2] exI [of _ fl2] exI [of _ tw2] exI [of _ acks2]) simp
  qed
qed

end
