(* ===== verification/Vcablk_Requests.thy ===== *)
theory Vcablk_Requests
  imports Vcablk_Storage
begin

text \<open>
  Requests of the block device as a whole: the back end takes them from the ring, moves the data of all
  their parts, and answers each of them once. The last sections hold the properties, among them the
  requests that are not served as they should be.
\<close>

section \<open>One part of a request\<close>

lemma bcknd_ioremap_run:
  assumes "bus_works env"
  shows "vcablk_bcknd_ioremap env p be = (True, be\<lparr>windows := p # windows be, calls := calls be + 1\<rparr>)"
  using assms by (simp add: vcablk_bcknd_ioremap_def bus_works_def eval_nat_numeral)

lemma bk_inv_windows: "bk_inv env (be\<lparr>windows := w, calls := n\<rparr>) fl tw held acks = bk_inv env be fl tw held acks"
  by (simp add: bk_inv_def transfers_ok_def acks_ok_def transfer_fits_def settled_def)

lemma settled_windows: "settled (be\<lparr>windows := w, calls := n\<rparr>) tw acks = settled be tw acks"
  by (simp add: settled_def)

text \<open>
  What is known between the parts of a request: \<open>c\<close> and \<open>a\<close> are the settled storage and answers, \<open>mem\<close> the memory of
  the card and \<open>win\<close> the windows. While data is read no write is under way.
\<close>

definition bk_state ::
  "bcknd_env \<Rightarrow> bool \<Rightarrow> u8 list \<times> (u64 \<Rightarrow> u8) \<Rightarrow> vcablk_completion list \<Rightarrow> u64 list \<Rightarrow> vcablk_bcknd_disk \<Rightarrow> bool" where
  "bk_state env wr = (\<lambda>(c, mem) a win be. \<exists>fl tw acks. bk_inv env be fl tw [] acks \<and> settled be tw acks = (c, a)
     \<and> remote be = mem \<and> windows be = win \<and> (wr \<or> (\<forall>k \<in> set tw. \<not> is_write (transfers be ! k))))"

lemma bk_stateI:
  assumes "bk_inv env be fl tw [] acks" "settled be tw acks = (fst st, a)" "remote be = snd st" "windows be = win"
    "wr \<or> (\<forall>k \<in> set tw. \<not> is_write (transfers be ! k))"
  shows "bk_state env wr st a win be"
proof -
  have "\<exists>fl tw acks. bk_inv env be fl tw [] acks \<and> settled be tw acks = (fst st, a) \<and> remote be = snd st \<and> windows be = win
      \<and> (wr \<or> (\<forall>k \<in> set tw. \<not> is_write (transfers be ! k)))"
    using assms by blast
  then show ?thesis by (simp add: bk_state_def split_def)
qed

lemma transfer_run:
  assumes st: "bk_state env wr (c, mem) a win be" and bus: "bus_works env" and n: "nsecs \<noteq> 0"
    and m: "in_media (media be) sec (unat nsecs)"
    and room: "length a + length (answer resp) \<le> unat (completion_ring_num_elems be)"
  shows "\<exists>be'. vcablk_bcknd_transfer env sec nsecs phys wr resp flush be = Returns (0, be') \<and> bk_frame be be'
    \<and> bk_state env wr (moved wr (512 * unat sec) (512 * unat nsecs) phys (c, mem)) (a @ answer resp) win be'"
proof -
  obtain fl tw acks where inv: "bk_inv env be fl tw [] acks" "settled be tw acks = (c, a)" "remote be = mem" "windows be = win"
    "wr \<or> (\<forall>k \<in> set tw. \<not> is_write (transfers be ! k))"
    using st by (auto simp: bk_state_def)
  let ?b = "be\<lparr>windows := phys # windows be, calls := calls be + 1\<rparr>"
  have "bk_inv env ?b fl tw [] acks" "settled ?b tw acks = (c, a)"
    using inv by (simp_all only: bk_inv_windows settled_windows)
  from transfer_loop_run [OF this(1) bus n _ _ this(2), of sec wr resp phys phys flush] m inv(5) room
  obtain be' fl' tw' acks' where be': "transfer_loop env sec nsecs phys phys wr resp flush ?b = Returns (0, be')"
    "bk_inv env be' fl' tw' [] acks'" "bk_frame ?b be'"
    "settled be' tw' acks' = (fst (moved wr (512 * unat sec) (512 * unat nsecs) phys (c, mem)), a @ answer resp)"
    "remote be' = snd (moved wr (512 * unat sec) (512 * unat nsecs) phys (c, mem))" "windows be' = win"
    "wr \<or> (\<forall>k \<in> set tw'. \<not> is_write (transfers be' ! k))"
    using inv(3,4) by auto
  have "vcablk_bcknd_transfer env sec nsecs phys wr resp flush be = Returns (0, be')"
    using be'(1) by (simp add: vcablk_bcknd_transfer_def bcknd_ioremap_run [OF bus])
  moreover have "bk_frame be be'" using be'(3) by (simp add: bk_frame_def)
  moreover have "bk_state env wr (moved wr (512 * unat sec) (512 * unat nsecs) phys (c, mem)) (a @ answer resp) win be'"
    by (rule bk_stateI [OF be'(2,4-7)])
  ultimately show ?thesis by blast
qed

section \<open>Requests\<close>

text \<open>
  The data parts of a request in the ring: one cookie, one type, sectors in sequence, none of them empty.
  \<open>request_parts\<close> is a request with its cookie and direction: data parts, with a synchronisation in front
  of them or behind them or both.
\<close>

fun contiguous :: "u16 \<Rightarrow> u8 \<Rightarrow> u64 \<Rightarrow> vcablk_request list \<Rightarrow> bool" where
  "contiguous cook ty sec [] = True"
| "contiguous cook ty sec (r # rs) =
     (cookie r = cook \<and> request_type r = ty \<and> sector r = sec \<and> sectors_num r \<noteq> 0 \<and> contiguous cook ty (sec + sectors_num r) rs)"

definition sync_part :: "u16 \<Rightarrow> vcablk_request list \<Rightarrow> bool" where
  "sync_part cook rs = (length rs \<le> 1 \<and> (\<forall>r \<in> set rs. cookie r = cook \<and> request_type r = REQUEST_SYNC))"

definition request_of :: "u16 \<Rightarrow> bool \<Rightarrow> vcablk_request list \<Rightarrow> vcablk_request list \<Rightarrow> vcablk_request list \<Rightarrow> bool" where
  "request_of cook wr pre parts post =
     (sync_part cook pre \<and> sync_part cook post \<and> parts \<noteq> []
      \<and> contiguous cook (if wr then REQUEST_WRITE else REQUEST_READ) (sector (hd parts)) parts)"

text \<open>The data of a request moved, in the order of its parts.\<close>

definition parts_moved :: "bool \<Rightarrow> vcablk_request list \<Rightarrow> u8 list \<times> (u64 \<Rightarrow> u8) \<Rightarrow> u8 list \<times> (u64 \<Rightarrow> u8)" where
  "parts_moved wr = fold (\<lambda>r. moved wr (512 * unat (sector r)) (512 * unat (sectors_num r)) (phys_buff r))"

lemma contiguous_nonempty: "contiguous cook ty sec rs \<Longrightarrow> r \<in> set rs \<Longrightarrow> sectors_num r \<noteq> 0"
  by (induction rs arbitrary: sec) auto

lemma contiguous_cookies: "contiguous cook ty sec rs \<Longrightarrow> r \<in> set rs \<Longrightarrow> cookie r = cook \<and> request_type r = ty"
  by (induction rs arbitrary: sec) auto

lemma request_loop_run:
  assumes "bk_state env wr st a win be" and "bus_works env"
    and "\<forall>r \<in> set rs. sectors_num r \<noteq> 0 \<and> in_media (media be) (sector r) (unat (sectors_num r))"
    and "length a < unat (completion_ring_num_elems be)"
  shows "\<exists>be'. request_loop env cook flush wr rs be = Returns (0, be') \<and> bk_frame be be'
    \<and> bk_state env wr (parts_moved wr rs st) (a @ (if rs = [] then [] else answer (int (unat cook)))) win be'"
  using assms
proof (induction rs arbitrary: be st)
  case Nil
  then show ?case by (simp add: parts_moved_def)
next
  case (Cons r rs)
  let ?resp = "if rs = [] then int (unat cook) else - 1"
  obtain c mem where st: "st = (c, mem)" by (cases st)
  have room: "length a + length (answer ?resp) \<le> unat (completion_ring_num_elems be)"
    using Cons.prems(4) by (simp add: answer_def)
  from transfer_run [OF Cons.prems(1) [unfolded st] Cons.prems(2) _ _ this, of "sectors_num r" "sector r" "phys_buff r" "rs = [] \<and> flush"] Cons.prems(3)
  obtain b1 where b1: "vcablk_bcknd_transfer env (sector r) (sectors_num r) (phys_buff r) wr ?resp (rs = [] \<and> flush) be = Returns (0, b1)"
    "bk_frame be b1" "bk_state env wr (moved wr (512 * unat (sector r)) (512 * unat (sectors_num r)) (phys_buff r) st) (a @ answer ?resp) win b1"
    by (auto simp: st)
  show ?case
  proof (cases "rs = []")
    case True
    then show ?thesis using b1 by (simp add: parts_moved_def)
  next
    case False
    have "a @ answer ?resp = a" using False by (simp add: answer_def)
    with b1(3) have s1: "bk_state env wr (moved wr (512 * unat (sector r)) (512 * unat (sectors_num r)) (phys_buff r) st) a win b1" by simp
    from Cons.IH [OF s1 Cons.prems(2)] Cons.prems(3,4) b1(2)
    obtain b2 where b2: "request_loop env cook flush wr rs b1 = Returns (0, b2)" "bk_frame b1 b2"
      "bk_state env wr (parts_moved wr (r # rs) st) (a @ answer (int (unat cook))) win b2"
      using False by (auto simp: bk_frame_def in_media_def parts_moved_def)
    then show ?thesis using b1(1) bk_frame_trans [OF b1(2) b2(2)] False by simp
  qed
qed

lemma check_parts_sync:
  assumes "sync_part cook post" and "ty \<noteq> REQUEST_SYNC"
  shows "fst (check_parts cook ty sec tot b post) = 0"
  using assms by (cases post) (auto simp: sync_part_def)

lemma check_parts_run:
  assumes "contiguous cook ty sec parts" and "sync_part cook post" and "ty \<noteq> REQUEST_SYNC"
  shows "fst (check_parts cook ty sec tot b (parts @ post)) = 0"
  using assms
proof (induction parts arbitrary: sec tot b)
  case Nil
  then show ?case using check_parts_sync by simp
qed simp

lemma request_get_info_run:
  assumes r: "request_of cook wr pre parts post"
  shows "vcablk_bcknd_disk_request_get_info (pre @ parts @ post) =
    (0, cook, if wr then REQUEST_WRITE else REQUEST_READ, pre \<noteq> [], post \<noteq> [])"
proof -
  let ?ty = "if wr then REQUEST_WRITE else REQUEST_READ"
  have c: "contiguous cook ?ty (sector (hd parts)) parts" "parts \<noteq> []" "sync_part cook pre" "sync_part cook post"
    using r by (simp_all add: request_of_def)
  have ns: "?ty \<noteq> REQUEST_SYNC" "?ty \<in> {REQUEST_READ, REQUEST_WRITE, REQUEST_SYNC}" by auto
  obtain p ps where p: "parts = p # ps" using c(2) by (cases parts) auto
  have hd: "cookie p = cook" "request_type p = ?ty" using c(1) p by auto
  have lst: "request_type (last (parts @ post)) = REQUEST_SYNC \<longleftrightarrow> post \<noteq> []"
  proof (cases "post = []")
    case True
    have "request_type (last parts) = ?ty" using contiguous_cookies [OF c(1)] c(2) by simp
    then show ?thesis using True ns(1) by simp
  next
    case False
    then show ?thesis using c(4) by (auto simp: sync_part_def)
  qed
  note chk = check_parts_run [OF c(1,4) ns(1)]
  show ?thesis
  proof (cases pre)
    case Nil
    then show ?thesis
      using hd lst chk [of 0 True] ns unfolding vcablk_bcknd_disk_request_get_info_def p by (auto simp: Let_def)
  next
    case (Cons s ss)
    then have s: "pre = [s]" "cookie s = cook" "request_type s = REQUEST_SYNC" using c(3) by (auto simp: sync_part_def)
    then show ?thesis
      using hd lst chk [of 0 False] ns unfolding vcablk_bcknd_disk_request_get_info_def p by (auto simp: Let_def)
  qed
qed

lemma sync_run:
  assumes "bk_state env wr st a win be"
  shows "vcablk_media_sync (files env) (media be) = 0"
  using assms media_sync_works by (auto simp: bk_state_def bk_inv_def split: prod.splits)

lemma disk_request_run:
  assumes r: "request_of cook wr pre parts post" and st: "bk_state env wr st a win be" and bus: "bus_works env"
    and m: "\<forall>r \<in> set parts. in_media (media be) (sector r) (unat (sectors_num r))"
    and room: "length a < unat (completion_ring_num_elems be)"
  shows "\<exists>be'. vcablk_bcknd_disk_request env (pre @ parts @ post) be = Returns (0, be') \<and> bk_frame be be'
    \<and> bk_state env wr (parts_moved wr parts st) (a @ [\<lparr>ack_cookie = cook, ack_ret = 0\<rparr>]) win be'"
proof -
  have c: "contiguous cook (if wr then REQUEST_WRITE else REQUEST_READ) (sector (hd parts)) parts" "parts \<noteq> []" "sync_part cook pre" "sync_part cook post"
    using r by (simp_all add: request_of_def)
  have m': "\<forall>r \<in> set parts. sectors_num r \<noteq> 0 \<and> in_media (media be) (sector r) (unat (sectors_num r))"
    using contiguous_nonempty [OF c(1)] m by simp
  have ans: "answer (int (unat cook)) = [\<lparr>ack_cookie = cook, ack_ret = 0\<rparr>]" by (simp add: answer_def)
  obtain be' where be': "request_loop env cook (post \<noteq> []) wr parts be = Returns (0, be')" "bk_frame be be'"
    "bk_state env wr (parts_moved wr parts st) (a @ [\<lparr>ack_cookie = cook, ack_ret = 0\<rparr>]) win be'"
    using request_loop_run [OF st bus m' room, of cook "post \<noteq> []"] c(2) ans by auto
  have pre: "(if pre \<noteq> [] then tl (pre @ parts @ post) else pre @ parts @ post) = parts @ post"
    "pre \<noteq> [] \<Longrightarrow> length (pre @ parts @ post) \<noteq> 1"
    using c(2,3) by (cases pre; cases parts; auto simp: sync_part_def)+
  have post: "(if post \<noteq> [] then butlast (parts @ post) else parts @ post) = parts"
    using c(4) by (cases post) (auto simp: sync_part_def)
  have "vcablk_bcknd_disk_request env (pre @ parts @ post) be = Returns (0, be')"
    unfolding vcablk_bcknd_disk_request_def request_get_info_run [OF r] Let_def prod.case pre(1) post
    using pre(2) sync_run [OF st] be'(1) by (cases wr) (simp_all)
  then show ?thesis using be'(2,3) by blast
qed

section \<open>The ring of requests\<close>

definition reqs_ok :: "vcablk_bcknd_disk \<Rightarrow> vcablk_request list \<Rightarrow> bool" where
  "reqs_ok be rs = (rb_size (request_ring_nums be)
     \<and> rb_window (request_ring_nums be) (last_add (request_ring be)) (request_last_used be) (elems (request_ring be)) rs)"

lemma reqs_ok_empty: "reqs_ok be rs \<Longrightarrow> request_last_used be = last_add (request_ring be) \<longleftrightarrow> rs = []"
  unfolding reqs_ok_def by (elim conjE) (rule rb_window_empty)

lemma next_request_loop_run:
  assumes "rb_size (request_ring_nums be)"
    and "rb_window (request_ring_nums be) la lu (elems (request_ring be)) (g @ rest)"
    and "\<forall>r \<in> set g. cookie r = k" and "k \<noteq> 0" and "cook = k \<or> cook = 0 \<and> g \<noteq> []" and "rest = [] \<or> cookie (hd rest) \<noteq> k"
    and "length acc + length g \<le> 258" and "length g < fuel"
  shows "\<exists>lu'. next_request_loop fuel la lu cook acc be = Some (lu', acc @ g)
    \<and> rb_window (request_ring_nums be) la lu' (elems (request_ring be)) rest"
  using assms
proof (induction g arbitrary: lu cook acc fuel)
  case Nil
  then obtain f where f: "fuel = Suc f" and c: "cook = k" by (cases fuel) auto
  show ?case
  proof (cases rest)
    case r: Nil
    then have "lu = la" using rb_window_empty [OF Nil.prems(1,2)] by simp
    then show ?thesis using Nil.prems(2) f by simp
  next
    case (Cons r rs)
    with Nil.prems have w: "rb_window (request_ring_nums be) la lu (elems (request_ring be)) (r # rs)" by simp
    show ?thesis using rb_window_pop(1,2) [OF Nil.prems(1) w] Nil.prems Cons f c by (auto simp: Let_def)
  qed
next
  case (Cons r g)
  then obtain f where f: "fuel = Suc f" "length g < f" by (cases fuel) auto
  have w: "rb_window (request_ring_nums be) la lu (elems (request_ring be)) (r # (g @ rest))" using Cons.prems(2) by simp
  note pop = rb_window_pop [OF Cons.prems(1) w]
  have r: "cookie r = k" using Cons.prems(3) by simp
  have "\<exists>lu'. next_request_loop f la (VCA_RB_COUNTER_ADD lu 1 (request_ring_nums be)) k (acc @ [r]) be = Some (lu', (acc @ [r]) @ g)
    \<and> rb_window (request_ring_nums be) la lu' (elems (request_ring be)) rest"
    by (rule Cons.IH [OF Cons.prems(1) pop(3)]) (use Cons.prems f(2) in simp_all)
  moreover have "next_request_loop fuel la lu cook acc be =
      next_request_loop f la (VCA_RB_COUNTER_ADD lu 1 (request_ring_nums be)) k (acc @ [r]) be"
    using pop(1,2) r Cons.prems(4,5,7) f(1) by (auto simp: Let_def)
  ultimately show ?case by simp
qed

lemma get_next_request_run:
  assumes w: "reqs_ok be (g @ rest)" and g: "g \<noteq> []" "\<forall>r \<in> set g. cookie r = k" "k \<noteq> 0" "rest = [] \<or> cookie (hd rest) \<noteq> k"
    and len: "length g \<le> 258" "length g < fuel"
  shows "\<exists>lu. vcablk_bcknd_disk_get_next_request fuel be =
      Some (g, be\<lparr>request_last_used := lu, request_ring := (request_ring be)\<lparr>last_used := lu\<rparr>\<rparr>)
    \<and> reqs_ok (be\<lparr>request_last_used := lu, request_ring := (request_ring be)\<lparr>last_used := lu\<rparr>\<rparr>) rest"
proof -
  have sz: "rb_size (request_ring_nums be)"
    and win: "rb_window (request_ring_nums be) (last_add (request_ring be)) (request_last_used be) (elems (request_ring be)) (g @ rest)"
    using w by (simp_all add: reqs_ok_def)
  obtain lu where lu: "next_request_loop fuel (last_add (request_ring be)) (request_last_used be) 0 [] be = Some (lu, g)"
    "rb_window (request_ring_nums be) (last_add (request_ring be)) lu (elems (request_ring be)) rest"
    using next_request_loop_run [OF sz win g(2,3) _ g(4), of 0 "[]" fuel] g(1) len by auto
  have "request_last_used be \<noteq> last_add (request_ring be)" using reqs_ok_empty [OF w] g(1) by simp
  then show ?thesis using lu sz by (intro exI [of _ lu]) (simp add: vcablk_bcknd_disk_get_next_request_def Let_def reqs_ok_def)
qed

text \<open>
  A request of the front end: cookie, synchronisation in front, data, synchronisation behind; and what the
  requests of a list together do.
\<close>

type_synonym block_request = "u16 \<times> vcablk_request list \<times> vcablk_request list \<times> vcablk_request list"

fun request_ok :: "vcablk_bcknd_disk \<Rightarrow> bool \<Rightarrow> block_request \<Rightarrow> bool" where
  "request_ok be wr (cook, pre, parts, post) =
     (cook \<noteq> 0 \<and> request_of cook wr pre parts post \<and> length (pre @ parts @ post) \<le> 258
      \<and> (\<forall>r \<in> set parts. in_media (media be) (sector r) (unat (sectors_num r))))"

fun request_parts :: "block_request \<Rightarrow> vcablk_request list" where
  "request_parts (cook, pre, parts, post) = pre @ parts @ post"

fun request_data :: "block_request \<Rightarrow> vcablk_request list" where
  "request_data (cook, pre, parts, post) = parts"

definition success :: "block_request \<Rightarrow> vcablk_completion" where
  "success q = \<lparr>ack_cookie = fst q, ack_ret = 0\<rparr>"

lemma request_parts_cookies:
  assumes "request_ok be wr q"
  shows "request_parts q \<noteq> []" "\<forall>r \<in> set (request_parts q). cookie r = fst q" "fst q \<noteq> 0" "length (request_parts q) \<le> 258"
proof -
  obtain cook pre parts post where q: "q = (cook, pre, parts, post)" by (cases q) auto
  have r: "request_of cook wr pre parts post" using assms q by simp
  then have "\<forall>r \<in> set parts. cookie r = cook" using contiguous_cookies by (auto simp: request_of_def)
  then show "\<forall>r \<in> set (request_parts q). cookie r = fst q" using r by (auto simp: q request_of_def sync_part_def)
  show "request_parts q \<noteq> []" using r by (simp add: q request_of_def)
  show "fst q \<noteq> 0" "length (request_parts q) \<le> 258" using assms by (simp_all add: q)
qed

lemma bk_state_request:
  "bk_state env wr st a win (be\<lparr>request_last_used := lu, request_ring := r\<rparr>) = bk_state env wr st a win be"
  by (simp add: bk_state_def split_def bk_inv_def transfers_ok_def acks_ok_def transfer_fits_def settled_def)

lemma request_ok_frame:
  "length (contents (media be')) = length (contents (media be)) \<Longrightarrow> request_ok be' wr q = request_ok be wr q"
  by (cases q) (simp add: in_media_def)

lemma request_rounds_run:
  assumes "bk_state env wr st a win be" and bus: "bus_works env" and "reqs_ok be (concat (map request_parts qs))"
    and "\<forall>q \<in> set qs. request_ok be wr q" and "distinct_adj (map fst qs)"
    and "length a + length qs \<le> unat (completion_ring_num_elems be)" and "258 < rounds" and "length qs < fuel"
    and "la = last_add (request_ring be)"
  shows "\<exists>be'. request_rounds env rounds fuel la be = Returns be' \<and> reqs_ok be' []
    \<and> bk_state env wr (fold (\<lambda>q. parts_moved wr (request_data q)) qs st) (a @ map success qs) win be'
    \<and> length (contents (media be')) = length (contents (media be))"
  using assms
proof (induction qs arbitrary: be st a fuel)
  case Nil
  then obtain f where f: "fuel = Suc f" by (cases fuel) auto
  have "request_last_used be = la" using reqs_ok_empty [OF Nil.prems(3)] Nil.prems(9) by simp
  then show ?case using Nil.prems f by (intro exI [of _ be]) simp
next
  case (Cons q qs)
  then obtain f where f: "fuel = Suc f" "length qs < f" by (cases fuel) auto
  have ok: "request_ok be wr q" using Cons.prems(4) by simp
  note p = request_parts_cookies [OF ok]
  have nxt: "concat (map request_parts qs) = [] \<or> cookie (hd (concat (map request_parts qs))) \<noteq> fst q"
  proof (cases qs)
    case (Cons q' qs')
    then have "fst q \<noteq> fst q'" "request_ok be wr q'" using Cons.prems(4,5) by simp_all
    then show ?thesis using request_parts_cookies [of be wr q'] Cons by auto
  qed simp
  have "reqs_ok be (request_parts q @ concat (map request_parts qs))" using Cons.prems(3) by simp
  from get_next_request_run [OF this p(1-3) nxt p(4)] Cons.prems(7) p(4)
  obtain lu where lu: "vcablk_bcknd_disk_get_next_request rounds be =
      Some (request_parts q, be\<lparr>request_last_used := lu, request_ring := (request_ring be)\<lparr>last_used := lu\<rparr>\<rparr>)"
    "reqs_ok (be\<lparr>request_last_used := lu, request_ring := (request_ring be)\<lparr>last_used := lu\<rparr>\<rparr>) (concat (map request_parts qs))"
    by (meson le_less_trans)
  let ?b = "be\<lparr>request_last_used := lu, request_ring := (request_ring be)\<lparr>last_used := lu\<rparr>\<rparr>"
  obtain cook pre parts post where q: "q = (cook, pre, parts, post)" by (cases q) auto
  have s: "bk_state env wr st a win ?b" using Cons.prems(1) by (simp only: bk_state_request)
  have m: "\<forall>r \<in> set parts. in_media (media ?b) (sector r) (unat (sectors_num r))" and r: "request_of cook wr pre parts post"
    using ok q by simp_all
  obtain b1 where b1: "vcablk_bcknd_disk_request env (request_parts q) ?b = Returns (0, b1)" "bk_frame ?b b1"
    "bk_state env wr (parts_moved wr parts st) (a @ [success q]) win b1"
    using disk_request_run [OF r s bus m] Cons.prems(6) by (auto simp: q success_def)
  have ne: "la \<noteq> request_last_used be"
    using reqs_ok_empty [OF Cons.prems(3)] Cons.prems(9) p(1) by auto
  have fr: "length (contents (media b1)) = length (contents (media be))" "completion_ring_num_elems b1 = completion_ring_num_elems be"
    "last_add (request_ring b1) = last_add (request_ring be)" "reqs_ok b1 (concat (map request_parts qs))"
    using b1(2) lu(2) by (simp_all add: bk_frame_def reqs_ok_def)
  have "\<exists>be'. request_rounds env rounds f la b1 = Returns be' \<and> reqs_ok be' []
    \<and> bk_state env wr (fold (\<lambda>q. parts_moved wr (request_data q)) qs (parts_moved wr parts st)) ((a @ [success q]) @ map success qs) win be'
    \<and> length (contents (media be')) = length (contents (media b1))"
    by (rule Cons.IH [OF b1(3) bus fr(4)])
      (use Cons.prems(4-9) f(2) fr request_ok_frame [OF fr(1)] in \<open>auto simp: distinct_adj_Cons\<close>)
  moreover have "request_rounds env rounds fuel la be = request_rounds env rounds f la b1"
    using ne p(1) by (simp add: f(1) lu(1) b1(1))
  ultimately show ?case using fr(1) by (simp add: q)
qed

section \<open>An idle back end\<close>

text \<open>All buffers are free; \<open>acks\<close> are the answers that the front end has not read yet.\<close>

definition bk_idle :: "bcknd_env \<Rightarrow> vcablk_bcknd_disk \<Rightarrow> vcablk_completion list \<Rightarrow> bool" where
  "bk_idle env be acks = (\<exists>fl. bk_inv env be fl [] [] acks)"

lemma idle_state:
  assumes "bk_idle env be acks"
  shows "bk_state env wr (contents (media be), remote be) acks (windows be) be"
proof -
  obtain fl where "bk_inv env be fl [] [] acks" using assms by (auto simp: bk_idle_def)
  then show ?thesis by (rule bk_stateI) (simp_all add: settled_def)
qed

lemma drain_run:
  assumes "bk_state env wr st a win be"
  shows "\<exists>be'. transfer_rounds env 16 be = Returns be' \<and> bk_idle env be' a \<and> (contents (media be'), remote be') = st
    \<and> windows be' = win \<and> bk_frame be be'"
proof -
  obtain fl tw acks where inv: "bk_inv env be fl tw [] acks" "settled be tw acks = (fst st, a)" "remote be = snd st" "windows be = win"
    using assms by (auto simp: bk_state_def split_def)
  have "length tw \<le> 16"
    using inv(1) distinct_card [of "fl @ tw @ []"] by (simp add: bk_inv_def transfers_ok_def)
  then have d: "drop 16 tw = []" by simp
  obtain be' acks' where be': "transfer_rounds env 16 be = Returns be'" "bk_inv env be' (fl @ take 16 tw) [] [] acks'" "bk_same be be'"
    "settled be' [] acks' = settled be tw acks"
    using rounds_run [OF inv(1), of 16] unfolding d by blast
  have "contents (media be') = fst st" "acks' = a" using be'(4) inv(2) by (simp_all add: settled_def)
  then show ?thesis using be' inv(3,4) bk_same_fields(2,3) [OF be'(3)] bk_same_frame [OF be'(3)]
    by (intro exI [of _ be']) (auto simp: bk_idle_def)
qed

lemma reqs_ok_frame: "bk_frame be be' \<Longrightarrow> reqs_ok be' rs = reqs_ok be rs"
  by (simp add: bk_frame_def reqs_ok_def)

text \<open>Starting the back end on rings with the answers \<open>acks\<close> and the requests \<open>rs\<close>.\<close>

lemma pow2_test:
  assumes "rb_size n"
  shows "n \<noteq> 0" "n AND (n - 1) = 0"
proof -
  obtain k where k: "k \<le> 14" "n = 2 ^ k" using assms by (auto simp: rb_size_def)
  show "n \<noteq> 0" using rb_size_bounds(1) [OF assms] by auto
  have "n - 1 = mask k" by (simp add: k(2) mask_eq_exp_minus_1)
  then have "n AND (n - 1) = take_bit k n" by (simp only: take_bit_eq_mask)
  then show "n AND (n - 1) = 0" by (auto simp: k(2) bit_simps intro!: bit_word_eqI)
qed

lemma num_clear [simp]: "num (vcablk_pool_clear pool) = num pool"
proof -
  have "num (fold (\<lambda>i p. set_next_free p i (of_nat i + 1)) is p) = num p" for p "is"
    by (induction "is" arbitrary: p) simp_all
  then show ?thesis by (simp add: vcablk_pool_clear_def Let_def)
qed

text \<open>Calls of the kernel that all succeed, for storage with the bytes \<open>c\<close>.\<close>

definition create_works :: "u8 list \<Rightarrow> create_env" where
  "create_works c = \<lparr>disk_mem = True, pool_mem = Some 0, path_fits = True, media_mem = True, opened_file = Inr c,
     memory_block = Some c, buffer_err = 0\<rparr>"

definition type_code :: "VCABLK_DISK_TYPE \<Rightarrow> u8" where
  "type_code ty = (case ty of VCABLK_DISK_TYPE_FILE \<Rightarrow> disk_type_file | VCABLK_DISK_TYPE_MEMORY \<Rightarrow> disk_type_memory)"

lemma create_run:
  assumes "desc = \<lparr>disk_type = type_code ty, disk_read_only = ro, disk_size = sz\<rparr>"
  shows "\<exists>p. vcablk_bcknd_disk_create (create_works c) tp_size desc =
      Inr (p, Inr \<lparr>read_only = ro, size_bytes = disk_size_bytes sz, media_type = ty, contents = c\<rparr>)
    \<and> pool_rel p [0..<16] \<and> num p = 16 \<and> length (items p) = 16"
proof -
  obtain p where p: "vcablk_pool_init (Some 0) 15 tp_size = Some p" "pool_rel p [0..<unat (15 :: u16) + 1]"
    using init_rel [of 15 0 tp_size] by auto
  have n: "num p = 16" using p(1) by (auto simp: vcablk_pool_init_def split: if_splits)
  have r: "pool_rel p [0..<16]" using p(2) by simp
  then have "length (items p) = 16" using n by (simp add: pool_rel_def)
  then show ?thesis using p(1) r n assms
    by (cases ty) (simp_all add: vcablk_bcknd_disk_create_def create_works_def Let_def type_code_def vcablk_media_create_file_def vcablk_media_create_memory_def
        media_create_def IS_ERR_def)
qed

lemma start_run:
  assumes desc: "desc = \<lparr>disk_type = type_code ty, disk_read_only = ro, disk_size = sz\<rparr>"
    and mdef: "m = \<lparr>read_only = ro, size_bytes = disk_size_bytes sz, media_type = ty, contents = c\<rparr>" and m: "media_works (files env) m"
    and rreq: "rb_size (num_elems rreq)" "rb_window (num_elems rreq) (last_add rreq) (last_used rreq) (elems rreq) rs"
    and rack: "rb_size (num_elems rack)" "length (elems rack) = unat (num_elems rack)"
      "rb_window (num_elems rack) (last_add rack) (last_used rack) (elems rack) acks"
  shows "\<exists>be. bring_up (create_works c) tp_size desc chan rreq rack mem = Inr be \<and> bk_idle env be acks \<and> reqs_ok be rs
    \<and> media be = m \<and> remote be = mem \<and> windows be = [] \<and> dma_ch be = chan \<and> completion_ring_num_elems be = num_elems rack"
proof -
  obtain p where p: "vcablk_bcknd_disk_create (create_works c) tp_size desc = Inr (p, Inr m)" "pool_rel p [0..<16]" "num p = 16"
    "length (items p) = 16"
    using create_run [OF desc] mdef by blast
  let ?be = "\<lparr>media = m, dma_ch = chan, transfer_thread = True,
    transfer_ring = \<lparr>num_elems = 16, last_add = 0, last_used = 0, elems = replicate 16 0\<rparr>, request_ring = rreq,
    request_ring_nums = num_elems rreq, completion_ring = rack, completion_ring_num_elems = num_elems rack,
    request_last_used = last_used rreq, transfer_buffer_pool = p, transfers = replicate 16 new_transfer, remote = mem, windows = [],
    done_intrs = 0, calls = 0\<rparr>"
  have start: "bring_up (create_works c) tp_size desc chan rreq rack mem = Inr ?be"
    using p(1,3) pow2_test [OF rreq(1)] pow2_test [OF rack(1)] pow2_test [OF rb_size_16]
    by (simp add: bring_up_def vcablk_bcknd_disk_start_def vcablk_bcknd_alloc_transfer_ring_def start_works_def is_power_of_2_def)
  have "transfers_ok ?be [0..<16] [] []"
    using p(2,4) by (auto simp: transfers_ok_def rb_window_def cwindow_def new_transfer_def)
  moreover have "length acks \<le> unat (num_elems rack)" using rack(3) by (simp add: rb_window_def cwindow_def)
  ultimately have "bk_inv env ?be [0..<16] [] [] acks"
    using m rack by (simp add: bk_inv_def acks_ok_def settled_def)
  then show ?thesis using start rreq by (intro exI [of _ ?be]) (auto simp: bk_idle_def reqs_ok_def)
qed

section \<open>Properties of requests\<close>


definition working_files :: file_env where
  "working_files = \<lparr>kernel_write = (\<lambda>c off ys. (int (length ys), overwrite c (unat off) ys)),
     kernel_read = (\<lambda>c off n. (int n, take n (drop (unat off) c))), vfs_fsync = (\<lambda>c. 0)\<rparr>"

definition working_env :: bcknd_env where
  "working_env = \<lparr>files = working_files, ioremap_ok = (\<lambda>k. True), dma_result = (\<lambda>k. 0), sleep_ring = (\<lambda>k r. r), thread_progress = (\<lambda>k. k mod 3)\<rparr>"

definition demo_media :: "VCABLK_DISK_TYPE \<Rightarrow> vcablk_media" where
  "demo_media ty = \<lparr>read_only = False, size_bytes = 8192, media_type = ty, contents = replicate 8192 0\<rparr>"

abbreviation (input) data_part :: "u16 \<Rightarrow> u8 \<Rightarrow> u64 \<Rightarrow> u64 \<Rightarrow> u64 \<Rightarrow> vcablk_request" where
  "data_part cook ty p sec n \<equiv> \<lparr>phys_buff = p, sector = sec, sectors_num = n, cookie = cook, request_type = ty\<rparr>"

definition demo_requests :: "block_request list" where
  "demo_requests = [(7, [data_part 7 3 0 0 0], [data_part 7 2 4096 0 9], []), (8, [], [data_part 8 2 16384 9 7], [data_part 8 3 0 0 0])]"

definition demo_ring :: "vcablk_request vcablk_ring" where
  "demo_ring = \<lparr>num_elems = 4, last_add = 4, last_used = 0, elems = concat (map request_parts demo_requests)\<rparr>"

definition demo_answers :: "vcablk_completion vcablk_ring" where
  "demo_answers = \<lparr>num_elems = 2, last_add = 0, last_used = 0, elems = replicate 2 \<lparr>ack_cookie = 0, ack_ret = 0\<rparr>\<rparr>"

lemma working_env_works: "bus_works working_env" "media_works (files working_env) (demo_media ty)"
  by (simp_all add: bus_works_def working_env_def media_works_def demo_media_def files_work_def working_files_def)

lemma small_rb_sizes: "rb_size 2" "rb_size 4"
  using rb_size_def [of 2] rb_size_def [of 4] by (auto intro: exI [of _ 1] exI [of _ 2])

lemma demo_rings:
  "rb_size (num_elems demo_ring)"
  "rb_window (num_elems demo_ring) (last_add demo_ring) (last_used demo_ring) (elems demo_ring) (concat (map request_parts demo_requests))"
  "rb_size (num_elems demo_answers)" "length (elems demo_answers) = unat (num_elems demo_answers)"
  "rb_window (num_elems demo_answers) (last_add demo_answers) (last_used demo_answers) (elems demo_answers) []"
  using small_rb_sizes by (simp_all add: rb_window_def cwindow_def demo_ring_def demo_requests_def demo_answers_def)

text \<open>A disk of 8192 bytes, file or memory, and the back end started on it.\<close>

definition demo_disk :: "VCABLK_DISK_TYPE \<Rightarrow> int + vcablk_bcknd_disk" where
  "demo_disk ty = bring_up (create_works (replicate 8192 0)) 4200 \<lparr>disk_type = type_code ty, disk_read_only = False, disk_size = 8192\<rparr> True
     demo_ring demo_answers ucast"

lemma demo_start:
  "\<exists>be. demo_disk ty = Inr be \<and> bk_idle working_env be [] \<and> reqs_ok be (concat (map request_parts demo_requests))
    \<and> media be = demo_media ty \<and> remote be = ucast \<and> windows be = [] \<and> dma_ch be \<and> completion_ring_num_elems be = 2"
proof -
  have "demo_media ty = \<lparr>read_only = False, size_bytes = disk_size_bytes 8192, media_type = ty, contents = replicate 8192 0\<rparr>"
    by (simp add: demo_media_def disk_size_bytes_def)
  from start_run [OF refl this working_env_works(2) demo_rings, of 4200 True ucast]
  show ?thesis by (simp add: demo_disk_def demo_answers_def)
qed

lemma demo_requests_ok:
  "media be = demo_media ty \<Longrightarrow> \<forall>q \<in> set demo_requests. request_ok be True q" "distinct_adj (map fst demo_requests)"
  by (simp_all add: demo_requests_def request_of_def sync_part_def in_media_def demo_media_def)


lemma read_write_remote: "length xs \<le> 2 ^ 64 \<Longrightarrow> read_remote (write_remote mem p xs) p (length xs) = xs"
  by (rule nth_equalityI) (auto simp: read_remote_def write_remote_def unat_of_nat_small)

lemma drop_overwrite: "i + length ys \<le> length xs \<Longrightarrow> take (length ys) (drop i (overwrite xs i ys)) = ys"
  by (simp add: overwrite_def)

text \<open>
  C10. What was written is read back: after a write request for some sectors has been served, a read request for the same sectors
  puts the bytes that were in the buffer of the first one into the buffer of the second, and changes no
  other byte of the memory of the card.
\<close>

theorem block_write_read:
  assumes idle: "bk_idle env be acks" and bus: "bus_works env"
    and w: "request_ok be True (cw, pre, [w], post)" and r: "request_ok be False (cr, pre', [r], post')"
    and sec: "sector r = sector w" "sectors_num r = sectors_num w"
    and room: "length acks + 2 \<le> unat (completion_ring_num_elems be)"
  shows "\<exists>b1 b2 b3 b4. vcablk_bcknd_disk_request env (pre @ [w] @ post) be = Returns (0, b1) \<and> transfer_rounds env 16 b1 = Returns b2
    \<and> vcablk_bcknd_disk_request env (pre' @ [r] @ post') b2 = Returns (0, b3) \<and> transfer_rounds env 16 b3 = Returns b4
    \<and> read_remote (remote b4) (phys_buff r) (512 * unat (sectors_num r)) = read_remote (remote be) (phys_buff w) (512 * unat (sectors_num w))
    \<and> (\<forall>x. 512 * unat (sectors_num r) \<le> unat (x - phys_buff r) \<longrightarrow> remote b4 x = remote be x)"
proof -
  let ?n = "512 * unat (sectors_num w)" and ?i = "512 * unat (sector w)" and ?c = "contents (media be)"
  let ?bs = "read_remote (remote be) (phys_buff w) ?n"
  have in_w: "?i + ?n \<le> length ?c" using w by (simp add: in_media_def)
  have room1: "length acks < unat (completion_ring_num_elems be)" using room by simp
  have lc: "length ?c < 2 ^ 64" using idle settled_length(2) [of env be _ "[]" "[]" acks] by (auto simp: bk_idle_def settled_def)
  obtain b1 where b1: "vcablk_bcknd_disk_request env (pre @ [w] @ post) be = Returns (0, b1)" "bk_frame be b1"
    "bk_state env True (overwrite ?c ?i ?bs, remote be) (acks @ [\<lparr>ack_cookie = cw, ack_ret = 0\<rparr>]) (windows be) b1"
    using disk_request_run [OF _ idle_state [OF idle] bus _ room1, of cw True pre "[w]" post] w by (auto simp: parts_moved_def moved_def)
  obtain b2 where b2: "transfer_rounds env 16 b1 = Returns b2" "bk_idle env b2 (acks @ [\<lparr>ack_cookie = cw, ack_ret = 0\<rparr>])"
    "contents (media b2) = overwrite ?c ?i ?bs" "remote b2 = remote be" "bk_frame b1 b2"
    using drain_run [OF b1(3)] by auto
  have fr: "bk_frame be b2" by (rule bk_frame_trans [OF b1(2) b2(5)])
  have room2: "length (acks @ [\<lparr>ack_cookie = cw, ack_ret = 0\<rparr>]) < unat (completion_ring_num_elems b2)"
    using room fr by (simp add: bk_frame_def)
  have r2: "request_ok b2 False (cr, pre', [r], post')" using r fr by (simp add: bk_frame_def in_media_def)
  obtain b3 where b3: "vcablk_bcknd_disk_request env (pre' @ [r] @ post') b2 = Returns (0, b3)"
    "bk_state env False (overwrite ?c ?i ?bs, write_remote (remote be) (phys_buff r) (take ?n (drop ?i (overwrite ?c ?i ?bs))))
      (acks @ [\<lparr>ack_cookie = cw, ack_ret = 0\<rparr>, \<lparr>ack_cookie = cr, ack_ret = 0\<rparr>]) (windows b2) b3"
    using disk_request_run [OF _ idle_state [OF b2(2)] bus _ room2, of cr False pre' "[r]" post'] r2 b2(3,4) sec
    by (auto simp: parts_moved_def moved_def)
  obtain b4 where b4: "transfer_rounds env 16 b3 = Returns b4"
    "remote b4 = write_remote (remote be) (phys_buff r) (take ?n (drop ?i (overwrite ?c ?i ?bs)))"
    using drain_run [OF b3(2)] by auto
  have "take ?n (drop ?i (overwrite ?c ?i ?bs)) = ?bs" using drop_overwrite [of ?i ?bs ?c] in_w by simp
  with b4(2) have m: "remote b4 = write_remote (remote be) (phys_buff r) ?bs" by simp
  have "read_remote (remote b4) (phys_buff r) ?n = ?bs"
    using read_write_remote [of ?bs "remote be" "phys_buff r"] in_w lc by (simp add: m)
  moreover have "remote b4 x = remote be x" if "?n \<le> unat (x - phys_buff r)" for x using that by (simp add: m write_remote_def)
  ultimately show ?thesis using b1(1) b2(1) b3(1) b4(1) sec(2) by (metis (no_types, lifting))
qed

text \<open>A second pair of requests, of which the back end of \<open>demo_start\<close> knows nothing yet.\<close>

theorem block_write_read_witness:
  "\<exists>be b1 b2 b3 b4. demo_disk VCABLK_DISK_TYPE_FILE = Inr be
    \<and> vcablk_bcknd_disk_request working_env [data_part 5 2 4096 3 10] be = Returns (0, b1) \<and> transfer_rounds working_env 16 b1 = Returns b2
    \<and> vcablk_bcknd_disk_request working_env [data_part 6 1 65536 3 10, data_part 6 3 0 0 0] b2 = Returns (0, b3)
    \<and> transfer_rounds working_env 16 b3 = Returns b4
    \<and> read_remote (remote b4) 65536 5120 = read_remote ucast 4096 5120"
proof -
  obtain be where be: "demo_disk VCABLK_DISK_TYPE_FILE = Inr be"
    "bk_idle working_env be []" "media be = demo_media VCABLK_DISK_TYPE_FILE" "remote be = ucast" "completion_ring_num_elems be = 2"
    using demo_start by blast
  show ?thesis
    using block_write_read [OF be(2) working_env_works(1), of 5 "[]" "data_part 5 2 4096 3 10" "[]" 6 "[]" "data_part 6 1 65536 3 10" "[data_part 6 3 0 0 0]"]
      be by (auto simp: request_of_def sync_part_def in_media_def demo_media_def)
qed

section \<open>Requests that are not served\<close>

text \<open>
  C37. A request that consists of synchronisations only is never answered: the back end returns without an error and without a
  change of its state. The front end sends such a request, of two parts, for a flush without data.
\<close>

theorem flush_unanswered:
  assumes "rs \<noteq> []" and "length rs \<le> 2" and "\<forall>r \<in> set rs. cookie r = cook \<and> request_type r = REQUEST_SYNC"
    and "vcablk_media_sync (files env) (media be) = 0"
  shows "vcablk_bcknd_disk_request env rs be = Returns (0, be)"
proof -
  obtain r rs' where r: "rs = r # rs'" using assms(1) by (cases rs) auto
  show ?thesis
  proof (cases rs')
    case Nil
    then show ?thesis using assms r
      by (simp add: vcablk_bcknd_disk_request_def vcablk_bcknd_disk_request_get_info_def Let_def)
  next
    case (Cons s ss)
    then have "rs = [r, s]" using assms(2) r by simp
    then show ?thesis using assms(3,4)
      by (simp add: vcablk_bcknd_disk_request_def vcablk_bcknd_disk_request_get_info_def Let_def)
  qed
qed

theorem flush_unanswered_witness:
  "\<exists>be. demo_disk VCABLK_DISK_TYPE_FILE = Inr be
    \<and> vcablk_bcknd_disk_request working_env [data_part 5 3 0 0 0, data_part 5 3 0 0 0] be = Returns (0, be)"
proof -
  obtain be where be: "demo_disk VCABLK_DISK_TYPE_FILE = Inr be"
    "media be = demo_media VCABLK_DISK_TYPE_FILE"
    using demo_start by blast
  have "vcablk_media_sync (files working_env) (media be) = 0" using media_sync_works [OF working_env_works(2)] be(2) by simp
  then show ?thesis using be(1) flush_unanswered [of "[data_part 5 3 0 0 0, data_part 5 3 0 0 0]" 5 working_env be] by simp
qed

text \<open>A buffer that is being filled may be written to; the transfer thread does not see it.\<close>

lemma bk_inv_filling:
  assumes inv: "bk_inv env b fl tw held acks" and k: "k \<in> set held" and buf: "length (tp_buffer tp) = 4096"
  shows "bk_inv env (b\<lparr>transfers := (transfers b)[k := tp], calls := n, windows := w\<rparr>) fl tw held acks"
proof -
  let ?b = "b\<lparr>transfers := (transfers b)[k := tp], calls := n, windows := w\<rparr>"
  have t: "transfers_ok b fl tw held" using inv by (simp add: bk_inv_def)
  have same: "transfers ?b ! j = transfers b ! j" if "j \<in> set tw" for j
  proof -
    have "j \<noteq> k" using that k t by (auto simp: transfers_ok_def)
    then show ?thesis by simp
  qed
  have s: "settled ?b tw acks = settled b tw acks" by (rule settled_cong) (simp_all only: same, simp)
  have "\<forall>j \<in> set tw. transfer_fits ?b j" using inv same by (simp add: bk_inv_def transfer_fits_def)
  moreover have "transfers_ok ?b fl tw held"
    using t buf by (auto simp: transfers_ok_def dest!: set_update_subset_insert [THEN subsetD])
  ultimately show ?thesis using inv s by (simp add: bk_inv_def acks_ok_def)
qed

lemma failing_transfer:
  assumes inv: "bk_inv env be fl tw held acks" and few: "length held < 15" and maps: "\<forall>k. ioremap_ok env k" and ch: "dma_ch be"
    and fails: "\<forall>k. dma_result env k = e" "e \<noteq> 0" and n: "nsecs \<noteq> 0"
  shows "\<exists>be' fl' tw' acks' k. vcablk_bcknd_transfer env sec nsecs phys True resp flush be = Returns (e, be')
    \<and> bk_inv env be' fl' tw' (k # held) acks' \<and> dma_ch be'"
proof -
  let ?b = "be\<lparr>windows := phys # windows be, calls := calls be + 1\<rparr>"
  have map: "vcablk_bcknd_ioremap env phys be = (True, ?b)"
    using maps by (simp add: vcablk_bcknd_ioremap_def eval_nat_numeral)
  have "bk_inv env ?b fl tw held acks" using inv by (simp only: bk_inv_windows)
  from get_param_run [OF this few] obtain k b1 fl1 tw1 acks1 where
    b1: "vcablk_bcknd_get_transfer_param env ?b = Returns (k, b1)" "bk_inv env b1 fl1 tw1 (k # held) acks1" "bk_same ?b b1" by metis
  have t: "transfers_ok b1 fl1 tw1 (k # held)" using b1(2) by (simp add: bk_inv_def)
  define nsec where "nsec = min nsecs 8"
  define tp where "tp = (transfers b1 ! k)\<lparr>response_cookie := (if nsecs - nsec = 0 then resp else - 1),
    remapped := (if nsecs - nsec = 0 then Some phys else None), do_flush := (nsecs - nsec = 0 \<and> flush), tp_sector := sec, tp_nsec := nsec,
    is_write := True\<rparr>"
  have ch1: "dma_ch b1" using bk_same_fields(4) [OF b1(3)] ch by simp
  let ?b2 = "b1\<lparr>transfers := (transfers b1)[k := tp], calls := calls b1 + 1\<rparr>"
  have dev: "vcablk_bcknd_transfer_device env k phys i (b1\<lparr>transfers := (transfers b1)[k := tp]\<rparr>) = Returns (e, ?b2)" for i
    using fails ch1 by (simp add: vcablk_bcknd_transfer_device_def Let_def)
  have "transfer_loop env sec nsecs phys phys True resp flush ?b = Returns (e, ?b2)"
    by (subst transfer_loop.simps, subst if_not_P [OF n])
      (simp only: b1(1) obind_simps prod.case Let_def upd_transfer_def nsec_def [symmetric] tp_def [symmetric] if_True if_False
        simp_thms not_not dev fails(2))
  then have run: "vcablk_bcknd_transfer env sec nsecs phys True resp flush be = Returns (e, ?b2\<lparr>windows := remove1 phys (windows ?b2)\<rparr>)"
    using fails(2) unfolding vcablk_bcknd_transfer_def map by simp
  have "length (tp_buffer tp) = 4096" using transfers_used(3) [OF t, of k] by (simp add: tp_def)
  from bk_inv_filling [OF b1(2) _ this, where k = k and w = "remove1 phys (windows b1)" and n = "calls b1 + 1"]
  have "bk_inv env (?b2\<lparr>windows := remove1 phys (windows ?b2)\<rparr>) fl1 tw1 (k # held) acks1" by simp
  moreover have "dma_ch (?b2\<lparr>windows := remove1 phys (windows ?b2)\<rparr>)" using ch1 by simp
  ultimately show ?thesis using run by blast
qed

lemma no_buffer_waits:
  assumes inv: "bk_inv env be fl tw held acks" and full: "15 \<le> length held"
  shows "vcablk_bcknd_get_transfer_param env' (be\<lparr>windows := w, calls := n\<rparr>) = Waits"
proof -
  have t: "transfers_ok be fl tw held" using inv by (simp add: bk_inv_def)
  then have r: "pool_rel (transfer_buffer_pool be) fl" by (simp add: transfers_ok_def)
  have "0 < length fl" using r by (simp add: pool_rel_def)
  moreover have "length fl + length tw + length held = 16"
    using t distinct_card [of "fl @ tw @ held"] by (simp add: transfers_ok_def)
  ultimately have "length fl = Suc 0" "length tw = 0" using full by linarith+
  then obtain x where x: "fl = [x]" "tw = []" by (auto simp: length_Suc_conv)
  have e: "VCA_RB_BUFF_EMPTY (last_add (transfer_ring be)) (last_used (transfer_ring be))"
    using transfer_ring_empty [OF t] x(2) by simp
  have rounds: "transfer_rounds env' i b = Returns b" if "transfer_ring b = transfer_ring be" for i b
    using that e by (induction i) (simp_all add: transfer_round_def Let_def)
  have none: "vcablk_pool_pop (transfer_buffer_pool be) = (None, transfer_buffer_pool be)"
    using vcablk.pop_none [of "transfer_buffer_pool be" x] r pool_relI pool_rel_free_ids unfolding x by simp
  show ?thesis unfolding vcablk_bcknd_get_transfer_param_def Let_def by (simp add: rounds none e)
qed

fun repeated :: "nat \<Rightarrow> ('s \<Rightarrow> ('r \<times> 's) outcome) \<Rightarrow> 's \<Rightarrow> ('r list \<times> 's) outcome" where
  "repeated 0 f s = Returns ([], s)"
| "repeated (Suc n) f s = obind (f s) (\<lambda>(r, s). obind (repeated n f s) (\<lambda>(rs, s). Returns (r # rs, s)))"

lemma failing_transfers:
  assumes "bk_inv env be fl tw held acks" and "n + length held \<le> 15" and "\<forall>k. ioremap_ok env k" and "dma_ch be"
    and "\<forall>k. dma_result env k = e" "e \<noteq> 0" and "nsecs \<noteq> 0"
  shows "\<exists>be' fl' tw' held' acks'. repeated n (vcablk_bcknd_transfer env sec nsecs phys True resp flush) be = Returns (replicate n e, be')
    \<and> bk_inv env be' fl' tw' held' acks' \<and> length held' = n + length held"
  using assms
proof (induction n arbitrary: be fl tw held acks)
  case 0
  then show ?case by auto
next
  case (Suc n)
  have few: "length held < 15" using Suc.prems(2) by simp
  obtain b1 fl1 tw1 acks1 k where b1: "vcablk_bcknd_transfer env sec nsecs phys True resp flush be = Returns (e, b1)"
    "bk_inv env b1 fl1 tw1 (k # held) acks1" "dma_ch b1"
    using failing_transfer [OF Suc.prems(1) few Suc.prems(3-7)] by blast
  have "n + length (k # held) \<le> 15" using Suc.prems(2) by simp
  from Suc.IH [OF b1(2) this Suc.prems(3) b1(3) Suc.prems(5-7)] obtain b2 fl2 tw2 held2 acks2 where
    b2: "repeated n (vcablk_bcknd_transfer env sec nsecs phys True resp flush) b1 = Returns (replicate n e, b2)"
    "bk_inv env b2 fl2 tw2 held2 acks2" "length held2 = n + length (k # held)" by blast
  then show ?case using b1(1) by (intro exI [of _ b2] exI [of _ fl2] exI [of _ tw2] exI [of _ held2] exI [of _ acks2]) simp
qed

text \<open>
  C38. Failed DMA transfers use up the buffers of the back end: from an idle state fifteen writes whose DMA transfer fails return the error, and every
  transfer after them waits for ever, also when DMA works again and however long the transfer thread is given.
\<close>

theorem dma_errors_use_up_buffers:
  assumes idle: "bk_idle env be acks" and "\<forall>k. ioremap_ok env k" and "dma_ch be"
    and "\<forall>k. dma_result env k = e" "e \<noteq> 0" and n: "nsecs \<noteq> 0"
  shows "\<exists>be'. repeated 15 (vcablk_bcknd_transfer env sec nsecs phys True resp flush) be = Returns (replicate 15 e, be')
    \<and> (\<forall>env' sec' nsecs' phys' wr resp' flush'. bus_works env' \<longrightarrow> nsecs' \<noteq> 0
        \<longrightarrow> vcablk_bcknd_transfer env' sec' nsecs' phys' wr resp' flush' be' = Waits)"
proof -
  obtain fl where "bk_inv env be fl [] [] acks" using idle by (auto simp: bk_idle_def)
  from failing_transfers [OF this _ assms(2-6), of 15 sec phys resp flush] obtain be' fl' tw' held' acks' where
    be': "repeated 15 (vcablk_bcknd_transfer env sec nsecs phys True resp flush) be = Returns (replicate 15 e, be')"
    "bk_inv env be' fl' tw' held' acks'" "length held' = 15" by auto
  have "vcablk_bcknd_transfer env' sec' nsecs' phys' wr resp' flush' be' = Waits" if "bus_works env'" "nsecs' \<noteq> 0"
    for env' sec' nsecs' phys' wr resp' flush'
    using no_buffer_waits [OF be'(2), where env' = env' and w = "phys' # windows be'" and n = "calls be' + 1"] be'(3) that
    by (simp add: vcablk_bcknd_transfer_def bcknd_ioremap_run transfer_loop.simps [of env' sec' nsecs'])
  with be'(1) show ?thesis by blast
qed

theorem dma_errors_use_up_buffers_witness:
  "\<exists>be be'. demo_disk VCABLK_DISK_TYPE_FILE = Inr be
    \<and> repeated 15 (vcablk_bcknd_transfer (working_env\<lparr>dma_result := \<lambda>k. - 5\<rparr>) 0 8 4096 True 7 False) be = Returns (replicate 15 (- 5), be')
    \<and> vcablk_bcknd_transfer working_env 0 8 4096 True 7 False be' = Waits"
proof -
  obtain be where be: "demo_disk VCABLK_DISK_TYPE_FILE = Inr be"
    "bk_idle working_env be []" "dma_ch be"
    using demo_start by blast
  have idle: "bk_idle (working_env\<lparr>dma_result := \<lambda>k. - 5\<rparr>) be []" using be(2) by (simp add: bk_idle_def bk_inv_def)
  obtain be' where be': "repeated 15 (vcablk_bcknd_transfer (working_env\<lparr>dma_result := \<lambda>k. - 5\<rparr>) 0 8 4096 True 7 False) be = Returns (replicate 15 (- 5), be')"
    "\<And>env' sec' nsecs' phys' wr resp' flush'. bus_works env' \<Longrightarrow> nsecs' \<noteq> 0
      \<Longrightarrow> vcablk_bcknd_transfer env' sec' nsecs' phys' wr resp' flush' be' = Waits"
    using dma_errors_use_up_buffers [OF idle _ be(3), of "- 5" 8 0 4096 7 False] by (auto simp: working_env_def)
  have "vcablk_bcknd_transfer working_env 0 8 4096 True 7 False be' = Waits" by (rule be'(2) [OF working_env_works(1)]) simp
  then show ?thesis using be(1) be'(1) by blast
qed

text \<open>
  C39. The test for the end of the storage wraps: a read request of the card for the 8 sectors from number \<open>2 ^ 55 - 8\<close> on passes
  it, whatever the size of the storage, and the host copies from outside of a memory disk.
\<close>

theorem wrapped_sector_crashes:
  assumes idle: "bk_idle env be acks" and bus: "bus_works env" and mem: "media_type (media be) = VCABLK_DISK_TYPE_MEMORY"
    and r: "request_type r = REQUEST_READ" "sector r = 2 ^ 55 - 8" "sectors_num r = 8"
  shows "vcablk_bcknd_disk_request env [r] be = Crashes WILD_ACCESS"
proof -
  let ?b = "be\<lparr>windows := phys_buff r # windows be, calls := calls be + 1\<rparr>"
  obtain fl where "bk_inv env be fl [] [] acks" using idle by (auto simp: bk_idle_def)
  then have "bk_inv env ?b fl [] [] acks" by (simp only: bk_inv_windows)
  from get_param_run [OF this] obtain k b1 fl1 tw1 acks1 where
    b1: "vcablk_bcknd_get_transfer_param env ?b = Returns (k, b1)" "bk_inv env b1 fl1 tw1 [k] acks1" "bk_same ?b b1" by auto
  obtain c where m1: "media b1 = (media be)\<lparr>contents := c\<rparr>" using b1(3) by (auto simp: bk_same_def)
  have lc: "length (contents (media b1)) < 2 ^ 64"
    using b1(2) unsigned_less [of "size_bytes (media b1)", where 'a = nat] by (simp add: bk_inv_def media_works_def)
  have zero: "(18446744073709551616 :: u64) = 0" by (rule word_unat_eq_iff [THEN iffD2]) simp
  have tr: "vcablk_media_transfer f (media b1) (2 ^ 55 - 8) 8 buf False = Inl WILD_ACCESS" for f buf
    using mem m1 lc by (simp add: vcablk_media_transfer_def media_transfer_mem_def Let_def zero)
  have "transfer_loop env (2 ^ 55 - 8) 8 p p False resp flush ?b = Crashes WILD_ACCESS" for p resp flush
    using b1(1) tr by (subst transfer_loop.simps) (simp add: Let_def upd_transfer_def)
  then show ?thesis using r
    by (simp add: vcablk_bcknd_disk_request_def vcablk_bcknd_disk_request_get_info_def vcablk_bcknd_transfer_def bcknd_ioremap_run [OF bus] Let_def)
qed

theorem wrapped_sector_crashes_witness:
  "\<exists>be. demo_disk VCABLK_DISK_TYPE_MEMORY = Inr be
    \<and> vcablk_bcknd_disk_request working_env [data_part 5 1 4096 (2 ^ 55 - 8) 8] be = Crashes WILD_ACCESS"
proof -
  obtain be where be: "demo_disk VCABLK_DISK_TYPE_MEMORY = Inr be"
    "bk_idle working_env be []" "media be = demo_media VCABLK_DISK_TYPE_MEMORY"
    using demo_start by blast
  show ?thesis using be(1) wrapped_sector_crashes [OF be(2) working_env_works(1), of "data_part 5 1 4096 (2 ^ 55 - 8) 8"] be(3) by (simp add: demo_media_def)
qed

text \<open>
  C40. A write that the file system refuses is reported as done: when the transfer thread gets to the last buffer of a write request and writing to the
  file fails, the front end still receives the answer of success, and the file is as before.
\<close>

theorem file_write_error_lost:
  assumes inv: "bk_inv env be fl (k # tw) held acks" and fm: "media_type (media be) = VCABLK_DISK_TYPE_FILE"
    and k: "is_write (transfers be ! k)" "response_cookie (transfers be ! k) = int (unat cook)" "\<not> do_flush (transfers be ! k)"
    and fails: "\<forall>c off ys. kernel_write (files env') c off ys = (e, c)"
  shows "\<exists>be'. transfer_round env' be = Returns be' \<and> acks_ok be' (acks @ [\<lparr>ack_cookie = cook, ack_ret = 0\<rparr>])
    \<and> contents (media be') = contents (media be)"
proof -
  let ?tp = "transfers be ! k" and ?r = "transfer_ring be"
  have t: "transfers_ok be fl (k # tw) held" and a: "acks_ok be acks" and mw: "media_works (files env) (media be)"
    and fits: "transfer_fits be k" and room: "length (snd (settled be (k # tw) acks)) \<le> unat (completion_ring_num_elems be)"
    using inv by (simp_all add: bk_inv_def)
  have w: "rb_window 16 (last_add ?r) (last_used ?r) (elems ?r) (k # tw)" and sz: "num_elems ?r = 16"
    using t by (simp_all add: transfers_ok_def)
  note pop = rb_window_pop [OF rb_size_16 w]
  have in_m: "in_media (media be) (tp_sector ?tp) (unat (tp_nsec ?tp))" and n8: "unat (tp_nsec ?tp) \<le> 8"
    using fits k(1) by (simp_all add: transfer_fits_def Let_def)
  have buf: "length (tp_buffer ?tp) = 4096" and used: "used_id (transfer_buffer_pool be) k"
    using transfers_used [OF t, of k] by simp_all
  have "media be\<lparr>contents := contents (media be)\<rparr> = media be" by simp
  then have tr: "vcablk_media_transfer (files env') (media be) (tp_sector ?tp) (tp_nsec ?tp) (tp_buffer ?tp) True =
      Inr (0, media be, tp_buffer ?tp)"
    using fm mw fails media_room [OF mw in_m n8] buf n8
    by (simp add: vcablk_media_transfer_def media_transfer_file_def Let_def media_works_def)
  have "length acks < unat (completion_ring_num_elems be)"
    using room k(2) unfolding snd_settled by (simp add: answer_def)
  from send_response_run [OF a this, of env' cook 0] obtain ring where
    ring: "vcablk_bcknd_disk_send_response env' cook 0 be = Returns (0, be\<lparr>completion_ring := ring, done_intrs := done_intrs be + 1\<rparr>)"
    "acks_ok (be\<lparr>completion_ring := ring, done_intrs := done_intrs be + 1\<rparr>) (acks @ [\<lparr>ack_cookie = cook, ack_ret = word_of_int 0\<rparr>])"
    by blast
  have "pool_rel (transfer_buffer_pool be) fl" using t by (simp add: transfers_ok_def)
  from push_rel [OF this used] obtain p where
    p: "vcablk_pool_push (transfer_buffer_pool be) (item_data (transfer_buffer_pool be) k) = Inr p" by blast
  let ?b = "be\<lparr>completion_ring := ring, done_intrs := done_intrs be + 1, transfer_buffer_pool := p\<rparr>"
  have "vca_bcknd_complete_transfer env' k be = Returns ?b"
    using ring(1) p k by (simp add: vca_bcknd_complete_transfer_def Let_def tr)
  then have "transfer_round env' be = Returns (?b\<lparr>transfer_ring := ?r\<lparr>last_used := VCA_RB_COUNTER_ADD (last_used ?r) 1 16\<rparr>\<rparr>)"
    unfolding transfer_round_def Let_def sz using pop(1,2) by (auto simp: VCA_RB_BUFF_EMPTY_def)
  then show ?thesis using ring(2)
    by (intro exI [of _ "?b\<lparr>transfer_ring := ?r\<lparr>last_used := VCA_RB_COUNTER_ADD (last_used ?r) 1 16\<rparr>\<rparr>"]) (simp add: acks_ok_def)
qed

definition failing_env :: bcknd_env where
  "failing_env = working_env\<lparr>files := working_files\<lparr>kernel_write := \<lambda>c off ys. (- 5, c)\<rparr>\<rparr>"

theorem file_write_error_lost_witness:
  "\<exists>b0 k b1 be be'. demo_disk VCABLK_DISK_TYPE_FILE = Inr b0
    \<and> vcablk_bcknd_get_transfer_param working_env b0 = Returns (k, b1)
    \<and> vca_bcknd_callback_dma working_env k (b1\<lparr>transfers := (transfers b1)[k := new_transfer\<lparr>tp_nsec := 8, response_cookie := 7, is_write := True,
         tp_buffer := replicate 4096 1\<rparr>], remote := ucast, calls := 0\<rparr>) = Returns be
    \<and> transfer_round failing_env be = Returns be' \<and> acks_ok be' [\<lparr>ack_cookie = 7, ack_ret = 0\<rparr>] \<and> contents (media be') = replicate 8192 0"
proof -
  let ?tp = "new_transfer\<lparr>tp_nsec := 8, response_cookie := 7, is_write := True, tp_buffer := replicate 4096 1\<rparr>"
  obtain b0 fl where b0: "demo_disk VCABLK_DISK_TYPE_FILE = Inr b0"
    "bk_inv working_env b0 fl [] [] []" "media b0 = demo_media VCABLK_DISK_TYPE_FILE" "completion_ring_num_elems b0 = 2"
    using demo_start [of VCABLK_DISK_TYPE_FILE] by (auto simp: bk_idle_def)
  obtain k b1 fl1 tw1 acks1 where b1: "vcablk_bcknd_get_transfer_param working_env b0 = Returns (k, b1)" "bk_inv working_env b1 fl1 tw1 [k] acks1"
    "bk_same b0 b1" "settled b1 tw1 acks1 = settled b0 [] []" "tw1 = []"
    using get_param_run [OF b0(2)] by auto
  have c: "contents (media b1) = replicate 8192 0" "acks1 = []" using b1(4,5) b0(3) by (simp_all add: settled_def demo_media_def)
  obtain cs where m: "media b1 = demo_media VCABLK_DISK_TYPE_FILE\<lparr>contents := cs\<rparr>" using b1(3) b0(3) by (auto simp: bk_same_def)
  have n: "completion_ring_num_elems b1 = 2" using bk_same_fields(8) [OF b1(3)] b0(4) by simp
  have "\<exists>be. vca_bcknd_callback_dma working_env k (b1\<lparr>transfers := (transfers b1)[k := ?tp], remote := ucast, calls := 0\<rparr>) = Returns be
    \<and> bk_inv working_env be fl1 (tw1 @ [k]) [] acks1 \<and> settled be (tw1 @ [k]) acks1 = apply_chunk (chunk_of ?tp) (settled b1 tw1 acks1)
    \<and> bk_frame b1 be \<and> media be = media b1 \<and> remote be = ucast
    \<and> windows be = (case remapped ?tp of None \<Rightarrow> windows b1 | Some win \<Rightarrow> remove1 win (windows b1))
    \<and> transfers be = (transfers b1)[k := ?tp\<lparr>remapped := None\<rparr>]"
    by (rule hand_over [OF b1(2)])
      (use c n b1(5) in \<open>simp_all add: in_media_def new_transfer_def settled_def answer_def\<close>)
  then obtain be where be: "vca_bcknd_callback_dma working_env k (b1\<lparr>transfers := (transfers b1)[k := ?tp], remote := ucast, calls := 0\<rparr>) = Returns be"
    "bk_inv working_env be fl1 [k] [] []" "media be = media b1" "transfers be = (transfers b1)[k := ?tp\<lparr>remapped := None\<rparr>]"
    using b1(5) c(2) by auto
  have "k < length (transfers b1)" using b1(2) by (auto simp: bk_inv_def transfers_ok_def)
  then have "\<exists>be'. transfer_round failing_env be = Returns be' \<and> acks_ok be' ([] @ [\<lparr>ack_cookie = 7, ack_ret = 0\<rparr>])
      \<and> contents (media be') = contents (media be)"
    by (intro file_write_error_lost [OF be(2), where e = "- 5"])
      (simp_all add: be(3,4) m demo_media_def new_transfer_def failing_env_def)
  then show ?thesis using b0(1) b1(1) be(1) c(1) be(3) by auto
qed

text \<open>
  The size of a disk is rounded down to sectors and kept modulo \<open>2 ^ 32\<close> sectors, so that the storage of a disk of 2 TiB or more is
  smaller than asked for, and a disk of exactly 2 TiB has no sector at all.
\<close>

theorem disk_size_bytes_wraps:
  "unat (disk_size_bytes sz) = 512 * (unat sz div 512 mod 2 ^ 32) \<and> disk_size_bytes (2 ^ 41) = 0"
proof -
  let ?n = "ucast (sz div 512) :: u32"
  have n: "unat ?n = unat sz div 512 mod 2 ^ 32"
    by (simp add: unsigned_ucast_eq take_bit_nat_def unat_div)
  have lt: "unat ?n < 2 ^ 32" using unsigned_less [of ?n, where 'a = nat] by simp
  then have u: "unat (ucast ?n :: u64) = unat ?n" by (simp add: unsigned_ucast_eq unsigned_take_bit_eq)
  have "unat (disk_size_bytes sz) = unat (ucast ?n :: u64) * 512 mod 2 ^ 64"
    by (simp only: disk_size_bytes_def unat_word_ariths) simp
  also have "\<dots> = 512 * unat ?n" using lt unfolding u by simp
  finally show ?thesis using n by (simp add: disk_size_bytes_def)
qed

end
