(* ===== verification/Vca_Common.thy ===== *)
theory Vca_Common
  imports Vca_Prelude
begin

text \<open>
  The enumerations and string tables of \<open>common/vca_common.h\<close>, and the sysfs file of the
  card agent that shows and stores the state of a node (\<open>state_show\<close> and \<open>state_store\<close> of
  \<open>vca_csa/vca_csa_sysfs.c\<close>), which prints and parses these strings.
\<close>

section \<open>Enumerations\<close>

datatype vca_lbp_states =
  VCA_BIOS_DOWN | VCA_BIOS_UP | VCA_BIOS_READY | VCA_OS_READY | VCA_NET_DEV_READY
  | VCA_BOOTING | VCA_FLASHING | VCA_RESETTING | VCA_BUSY | VCA_DONE | VCA_ERROR
  | VCA_NET_DEV_UP | VCA_NET_DEV_DOWN | VCA_NET_DEV_NO_IP | VCA_DRV_PROBE_DONE
  | VCA_DRV_PROBE_ERROR | VCA_DHCP_IN_PROGRESS | VCA_DHCP_DONE | VCA_DHCP_ERROR
  | VCA_NFS_MOUNT_DONE | VCA_NFS_MOUNT_ERROR | VCA_LINK_DOWN | VCA_BOOTING_BLOCKIO
  | VCA_OS_REBOOTING | VCA_AFTER_REBOOT | VCA_POWER_DOWN | VCA_POWERING_DOWN | VCA_SIZE

datatype vca_lbp_rcvy_states =
  VCA_RCVY_JUMPER_CLOSE | VCA_RCVY_JUMPER_OPEN | VCA_RCVY_NON_READABLE | VCA_RCVY_SIZE

datatype vca_os_type = VCA_OS_TYPE_UNKNOWN | VCA_OS_TYPE_LINUX | VCA_OS_TYPE_WINDOWS | VCA_OS_TYPE_SIZE

datatype vca_lbp_param =
  VCA_LBP_PARAM_i7_IRQ_TIMEOUT_MS | VCA_LBP_PARAM_i7_ALLOC_TIMEOUT_MS
  | VCA_LBP_PARAM_i7_CMD_TIMEOUT_MS | VCA_LBP_PARAM_i7_MAC_WRITE_TIMEOUT_MS | VCA_LBP_PARAM_SIZE

datatype vca_lbp_retval =
  LBP_STATE_OK | LBP_SPAD_i7_WRONG_STATE | LBP_IRQ_TIMEOUT | LBP_ALLOC_TIMEOUT | LBP_CMD_TIMEOUT
  | LBP_BAD_PARAMETER_VALUE | LBP_UNKNOWN_PARAMETER | LBP_INTERNAL_ERROR
  | LBP_PROTOCOL_VERSION_MISMATCH | LBP_WAIT_INTERRUPTED | LBP_BIOS_INFO_CACHE_EMPTY | LBP_SIZE

datatype plx_eep_retval = PLX_EEP_STATUS_OK | PLX_EEP_INTERNAL_ERROR | PLX_EEP_TIMEOUT | PLX_EEP_SIZE

text \<open>The card types are bit sets.\<close>

definition VCA_VV :: u32 where "VCA_VV = 0x6"
definition VCA_MV :: u32 where "VCA_MV = 0x8"
definition VCA_PRODUCTION :: u32 where "VCA_PRODUCTION = 0xE"

section \<open>Strings\<close>

text \<open>
  The strings of the code have no inner null character; \<open>strncmp\<close> stops at the end of
  either string and is modelled by its comparison with 0.
\<close>

fun strncmp_eq :: "string \<Rightarrow> string \<Rightarrow> nat \<Rightarrow> bool" where
  "strncmp_eq a b 0 = True"
| "strncmp_eq [] [] (Suc n) = True"
| "strncmp_eq (x # xs) (y # ys) (Suc n) = (x = y \<and> strncmp_eq xs ys n)"
| "strncmp_eq [] (y # ys) (Suc n) = False"
| "strncmp_eq (x # xs) [] (Suc n) = False"

fun get_vca_os_type_string :: "vca_os_type \<Rightarrow> crash + string" where
  "get_vca_os_type_string VCA_OS_TYPE_UNKNOWN = Inr ''os_unknown''"
| "get_vca_os_type_string VCA_OS_TYPE_LINUX = Inr ''linux''"
| "get_vca_os_type_string VCA_OS_TYPE_WINDOWS = Inr ''windows''"
| "get_vca_os_type_string VCA_OS_TYPE_SIZE = Inl BUG"

fun get_vca_state_string :: "vca_lbp_states \<Rightarrow> crash + string" where
  "get_vca_state_string VCA_BIOS_DOWN = Inr ''bios_down''"
| "get_vca_state_string VCA_BIOS_UP = Inr ''bios_up''"
| "get_vca_state_string VCA_BIOS_READY = Inr ''bios_ready''"
| "get_vca_state_string VCA_OS_READY = Inr ''os_ready''"
| "get_vca_state_string VCA_NET_DEV_READY = Inr ''net_device_ready''"
| "get_vca_state_string VCA_BOOTING = Inr ''booting''"
| "get_vca_state_string VCA_FLASHING = Inr ''flashing''"
| "get_vca_state_string VCA_RESETTING = Inr ''resetting''"
| "get_vca_state_string VCA_BUSY = Inr ''busy''"
| "get_vca_state_string VCA_DONE = Inr ''done''"
| "get_vca_state_string VCA_ERROR = Inr ''error''"
| "get_vca_state_string VCA_NET_DEV_UP = Inr ''net_device_up''"
| "get_vca_state_string VCA_NET_DEV_DOWN = Inr ''net_device_down''"
| "get_vca_state_string VCA_NET_DEV_NO_IP = Inr ''net_device_no_ip''"
| "get_vca_state_string VCA_DRV_PROBE_DONE = Inr ''drv_probe_done''"
| "get_vca_state_string VCA_DRV_PROBE_ERROR = Inr ''drv_probe_error''"
| "get_vca_state_string VCA_DHCP_IN_PROGRESS = Inr ''dhcp_in_progress''"
| "get_vca_state_string VCA_DHCP_DONE = Inr ''dhcp_done''"
| "get_vca_state_string VCA_DHCP_ERROR = Inr ''dhcp_error''"
| "get_vca_state_string VCA_NFS_MOUNT_DONE = Inr ''nfs_mount_done''"
| "get_vca_state_string VCA_NFS_MOUNT_ERROR = Inr ''nfs_mount_error''"
| "get_vca_state_string VCA_LINK_DOWN = Inr ''link_down''"
| "get_vca_state_string VCA_BOOTING_BLOCKIO = Inr ''booting''"
| "get_vca_state_string VCA_OS_REBOOTING = Inr ''os_rebooting''"
| "get_vca_state_string VCA_AFTER_REBOOT = Inr ''waiting_for_boot''"
| "get_vca_state_string VCA_POWER_DOWN = Inr ''power_off''"
| "get_vca_state_string VCA_POWERING_DOWN = Inr ''powering_down''"
| "get_vca_state_string VCA_SIZE = Inl BUG"

fun get_vca_rcvy_state_string :: "vca_lbp_rcvy_states \<Rightarrow> crash + string" where
  "get_vca_rcvy_state_string VCA_RCVY_JUMPER_CLOSE = Inr ''rcvy_jumper_close''"
| "get_vca_rcvy_state_string VCA_RCVY_JUMPER_OPEN = Inr ''rcvy_jumper_open''"
| "get_vca_rcvy_state_string VCA_RCVY_NON_READABLE = Inr ''rcvy_status_non_readable''"
| "get_vca_rcvy_state_string VCA_RCVY_SIZE = Inl BUG"

text \<open>The chain of comparisons of \<open>get_vca_state_num\<close>, in its order.\<close>

definition state_texts :: "(string \<times> vca_lbp_states) list" where
  "state_texts = [
     (''bios_down'', VCA_BIOS_DOWN),
     (''bios_up'', VCA_BIOS_UP),
     (''bios_ready'', VCA_BIOS_READY),
     (''os_ready'', VCA_OS_READY),
     (''net_device_ready'', VCA_NET_DEV_READY),
     (''booting'', VCA_BOOTING),
     (''flashing'', VCA_FLASHING),
     (''resetting'', VCA_RESETTING),
     (''busy'', VCA_BUSY),
     (''done'', VCA_DONE),
     (''error'', VCA_ERROR),
     (''net_device_up'', VCA_NET_DEV_UP),
     (''net_device_down'', VCA_NET_DEV_DOWN),
     (''net_device_no_ip'', VCA_NET_DEV_NO_IP),
     (''drv_probe_done'', VCA_DRV_PROBE_DONE),
     (''drv_probe_error'', VCA_DRV_PROBE_ERROR),
     (''dhcp_in_progress'', VCA_DHCP_IN_PROGRESS),
     (''dhcp_done'', VCA_DHCP_DONE),
     (''dhcp_error'', VCA_DHCP_ERROR),
     (''nfs_mount_done'', VCA_NFS_MOUNT_DONE),
     (''nfs_mount_error'', VCA_NFS_MOUNT_ERROR),
     (''booting'', VCA_BOOTING_BLOCKIO),
     (''os_rebooting'', VCA_OS_REBOOTING),
     (''waiting_for_boot'', VCA_AFTER_REBOOT),
     (''power_off'', VCA_POWER_DOWN),
     (''powering_down'', VCA_POWERING_DOWN)]"

definition get_vca_state_num :: "string \<Rightarrow> nat \<Rightarrow> vca_lbp_states" where
  "get_vca_state_num str len =
     (case find (\<lambda>(t, s). strncmp_eq t str len) state_texts of
        Some (t, s) \<Rightarrow> s
      | None \<Rightarrow> VCA_SIZE)"

section \<open>The state file of the card agent\<close>

text \<open>
  \<open>state_show\<close> for the state the hardware reports; the result is the text, or the error.
  \<open>PAGE_SIZE\<close> is larger than every text.
\<close>

definition state_show :: "vca_lbp_states \<Rightarrow> crash + (errno + string)" where
  "state_show state =
     (if state = VCA_SIZE then Inr (Inl EINVAL)
      else
        (case get_vca_state_string state of
           Inl e \<Rightarrow> Inl e
         | Inr s \<Rightarrow> Inr (Inr (s @ [CHR 0x0A]))))"

text \<open>
  \<open>state_store\<close> on the text written to the file (sysfs appends the null character): the
  state to set and the number of bytes accepted, or the error.
\<close>

definition strcspn_newline :: "string \<Rightarrow> nat" where
  "strcspn_newline buf = length (takeWhile (\<lambda>c. c \<noteq> CHR 0x0A \<and> c \<noteq> CHR 0x0D) buf)"

definition state_store :: "string \<Rightarrow> errno + (vca_lbp_states \<times> nat)" where
  "state_store buf =
     (if length buf = 0 then Inl EINVAL
      else
        (let len = strcspn_newline buf in
         if len = 0 then Inl EINVAL
         else
           (let state = get_vca_state_num buf len in
            if state \<noteq> VCA_SIZE then Inr (state, length buf) else Inl EINVAL)))"

abbreviation first_line :: "string \<Rightarrow> string" where
  "first_line \<equiv> takeWhile (\<lambda>c. c \<noteq> CHR 0x0A \<and> c \<noteq> CHR 0x0D)"

section \<open>Library: prefixes\<close>

text \<open>The comparison up to the length of the second string asks whether it is a prefix.\<close>

lemma strncmp_eq_prefix:
  "n \<le> length b \<Longrightarrow> strncmp_eq a b n = (n \<le> length a \<and> take n a = take n b)"
  by (induction a b n rule: strncmp_eq.induct) auto

lemma find_default:
  assumes "\<forall>x \<in> set xs. f x \<noteq> d"
  shows "(case find P xs of Some x \<Rightarrow> f x | None \<Rightarrow> d) \<noteq> d \<longleftrightarrow> (\<exists>x \<in> set xs. P x)"
  using assms by (induction xs) auto

section \<open>Properties\<close>

text \<open>
  C29. Writing back the text that the state file shows sets the same state again, with two
  exceptions: \<open>VCA_BOOTING_BLOCKIO\<close> shares its text with \<open>VCA_BOOTING\<close> and comes back as
  that, and the text of \<open>VCA_LINK_DOWN\<close>, missing from the parser, is rejected.
\<close>

theorem state_file_roundtrip:
  "state \<noteq> VCA_SIZE \<Longrightarrow>
   \<exists>txt. state_show state = Inr (Inr txt) \<and>
     state_store txt =
       (if state = VCA_LINK_DOWN then Inl EINVAL
        else Inr (if state = VCA_BOOTING_BLOCKIO then VCA_BOOTING else state, length txt))"
  by (cases state) (simp_all add: state_show_def, code_simp+)

theorem state_file_roundtrip_witness:
  "\<exists>txt. state_show VCA_NET_DEV_UP = Inr (Inr txt) \<and>
     state_store txt = Inr (VCA_NET_DEV_UP, length txt)"
  using state_file_roundtrip [of VCA_NET_DEV_UP] by simp

text \<open>
  The parser of the state file accepts exactly the texts whose first line is a non-empty
  prefix of a state text; so \<open>os_re\<close> is accepted (and means \<open>VCA_OS_READY\<close>).
\<close>

theorem state_store_accepts:
  "(\<exists>state n. state_store buf = Inr (state, n)) =
     (\<exists>t s r. (t, s) \<in> set state_texts \<and> t = first_line buf @ r \<and> first_line buf \<noteq> [])"
proof (cases "first_line buf = []")
  case True
  then show ?thesis by (simp add: state_store_def strcspn_newline_def Let_def)
next
  case False
  let ?l = "first_line buf"
  have len: "length ?l \<le> length buf" "take (length ?l) buf = ?l" "buf \<noteq> []"
    using False by (auto simp: length_takeWhile_le takeWhile_eq_take [symmetric])
  have pre: "strncmp_eq t buf (length ?l) = (\<exists>r. t = ?l @ r)" for t
  proof
    assume "strncmp_eq t buf (length ?l)"
    then have "take (length ?l) t = ?l" unfolding strncmp_eq_prefix [OF len(1)] len(2) by blast
    then have "t = ?l @ drop (length ?l) t" using append_take_drop_id [of "length ?l" t] by simp
    then show "\<exists>r. t = ?l @ r" by blast
  next
    assume "\<exists>r. t = ?l @ r"
    then show "strncmp_eq t buf (length ?l)"
      unfolding strncmp_eq_prefix [OF len(1)] len(2) by auto
  qed
  have ne: "\<forall>x \<in> set state_texts. (case x of (t, s) \<Rightarrow> s) \<noteq> VCA_SIZE"
    by (simp add: state_texts_def)
  have "(\<exists>state n. state_store buf = Inr (state, n)) = (get_vca_state_num buf (length ?l) \<noteq> VCA_SIZE)"
    using False len(3) by (simp add: state_store_def strcspn_newline_def Let_def)
  also have "\<dots> = (\<exists>t s. (t, s) \<in> set state_texts \<and> strncmp_eq t buf (length ?l))"
    unfolding get_vca_state_num_def find_default [OF ne] by auto
  finally show ?thesis using pre False by auto
qed

end
