(* ===== verification/Lut_Manager.thy ===== *)
theory Lut_Manager
  imports Vca_Prelude
begin

text \<open>
  What the register code of the bridge relies on when it asks the manager of the address
  lookup table for segments: an interface, the laws of its provider, and the consequences for
  the registers, proved once. The provider is \<open>Plx_Alm\<close>, the client is \<open>Plx_Hw\<close>.
\<close>

text \<open>
  A view of the registers gives the peer address behind a segment the bridge lets through.
  It agrees with the manager when every mapped segment is let through to its address.
\<close>

type_synonym lut_view = "nat \<Rightarrow> u64 option"

definition set_view :: "lut_view \<Rightarrow> nat \<Rightarrow> nat \<Rightarrow> u64 \<Rightarrow> u64 \<Rightarrow> lut_view" where
  "set_view v i n am step =
     (\<lambda>j. if i \<le> j \<and> j < i + n then Some (am + of_nat (j - i) * step) else v j)"

definition clear_view :: "lut_view \<Rightarrow> nat \<Rightarrow> nat \<Rightarrow> lut_view" where
  "clear_view v i n = (\<lambda>j. if i \<le> j \<and> j < i + n then None else v j)"

locale lut_manager =
  fixes inv :: "'m \<Rightarrow> bool"
    and room :: "'m \<Rightarrow> bool"
    and segs :: "'m \<Rightarrow> nat"
    and step :: "'m \<Rightarrow> u64"
    and aligned :: "'m \<Rightarrow> u64 \<Rightarrow> u64"
    and lookup :: "'m \<Rightarrow> nat \<Rightarrow> (u64 \<times> u16) option"
    and add :: "'m \<Rightarrow> u64 \<Rightarrow> u64 \<Rightarrow> (crash + (errno \<times> (u32 \<times> u32) option \<times> 'm)) option"
    and del :: "'m \<Rightarrow> nat \<Rightarrow> crash + ((nat \<times> nat) option \<times> 'm)"
  assumes add_returns:
    "inv m \<Longrightarrow> room m \<Longrightarrow> \<exists>rc out m'. add m addr sz = Some (Inr (rc, out, m'))
       \<and> inv m' \<and> segs m' = segs m \<and> step m' = step m \<and> (out = None \<longrightarrow> rc = ENOMEM)"
    and add_fails:
    "inv m \<Longrightarrow> room m \<Longrightarrow> add m addr sz = Some (Inr (rc, None, m')) \<Longrightarrow> j < segs m \<Longrightarrow>
       lookup m' j = Some (a, c) \<Longrightarrow> lookup m j = Some (a, c)"
    and add_maps:
    "inv m \<Longrightarrow> room m \<Longrightarrow> add m addr sz = Some (Inr (rc, Some (sid, n), m')) \<Longrightarrow>
       rc \<in> {EOK, EEXIST} \<and> 0 < unat n \<and> unat sid + unat n \<le> segs m \<and>
       (\<forall>k < unat n. \<exists>c. lookup m' (unat sid + k) = Some (aligned m addr + of_nat k * step m, c))"
    and add_keeps:
    "inv m \<Longrightarrow> room m \<Longrightarrow> add m addr sz = Some (Inr (rc, Some (sid, n), m')) \<Longrightarrow> j < segs m \<Longrightarrow>
       lookup m' j = Some (a, c') \<Longrightarrow> rc = EEXIST \<or> j < unat sid \<or> unat sid + unat n \<le> j \<Longrightarrow>
       \<exists>c. lookup m j = Some (a, c)"
    and del_returns:
    "inv m \<Longrightarrow> i < segs m \<Longrightarrow> lookup m i \<noteq> None \<Longrightarrow>
       \<exists>out m'. del m i = Inr (out, m') \<and> inv m' \<and> segs m' = segs m \<and> step m' = step m"
    and del_keeps:
    "inv m \<Longrightarrow> i < segs m \<Longrightarrow> lookup m i \<noteq> None \<Longrightarrow> del m i = Inr (out, m') \<Longrightarrow>
       j < segs m \<Longrightarrow> lookup m' j = Some (a, c') \<Longrightarrow>
       (\<exists>c. lookup m j = Some (a, c)) \<and> (\<forall>s n. out = Some (s, n) \<longrightarrow> j < s \<or> s + n \<le> j)"
begin

definition agrees :: "'m \<Rightarrow> lut_view \<Rightarrow> bool" where
  "agrees m v = (\<forall>j < segs m. \<forall>a c. lookup m j = Some (a, c) \<longrightarrow> v j = Some a)"

text \<open>The view after a request: the segments of a new mapping are written, no others.\<close>

definition view_after_add :: "'m \<Rightarrow> u64 \<Rightarrow> errno \<Rightarrow> (u32 \<times> u32) option \<Rightarrow> lut_view \<Rightarrow> lut_view" where
  "view_after_add m addr rc out v =
     (case out of
        Some (sid, n) \<Rightarrow>
          if rc = EOK then set_view v (unat sid) (unat n) (aligned m addr) (step m) else v
      | None \<Rightarrow> v)"

definition view_after_del :: "(nat \<times> nat) option \<Rightarrow> lut_view \<Rightarrow> lut_view" where
  "view_after_del out v = (case out of Some (s, n) \<Rightarrow> clear_view v s n | None \<Rightarrow> v)"

lemma add_agrees:
  assumes m: "inv m" "room m" and ag: "agrees m v"
    and add: "add m addr sz = Some (Inr (rc, out, m'))"
  shows "agrees m' (view_after_add m addr rc out v)"
proof -
  have segs: "segs m' = segs m" using add_returns [OF m, of addr sz] add by auto
  have "view_after_add m addr rc out v j = Some a"
    if j: "j < segs m" and l: "lookup m' j = Some (a, c)" for j a c
  proof (cases out)
    case None
    then have "lookup m j = Some (a, c)" using add_fails [OF m] add j l by blast
    then show ?thesis using ag j None by (simp add: agrees_def view_after_add_def)
  next
    case (Some p)
    obtain sid n where p: "p = (sid, n)" by (cases p)
    note add' = add [unfolded Some p]
    show ?thesis
    proof (cases "rc = EOK \<and> unat sid \<le> j \<and> j < unat sid + unat n")
      case True
      define k where "k = j - unat sid"
      have k: "k < unat n" "j = unat sid + k" using True k_def by auto
      from add_maps [OF m add'] k(1) obtain c where
        "lookup m' (unat sid + k) = Some (aligned m addr + of_nat k * step m, c)" by blast
      then show ?thesis using True l k Some p by (simp add: view_after_add_def set_view_def)
    next
      case False
      have "rc \<in> {EOK, EEXIST}" using add_maps [OF m add'] by blast
      with False have "rc = EEXIST \<or> j < unat sid \<or> unat sid + unat n \<le> j" by auto
      from add_keeps [OF m add' j l this] obtain c where "lookup m j = Some (a, c)" by blast
      then have "v j = Some a" using ag j by (auto simp: agrees_def)
      then show ?thesis using False Some p by (auto simp: view_after_add_def set_view_def)
    qed
  qed
  then show ?thesis using segs by (simp add: agrees_def)
qed

lemma add_reaches:
  assumes m: "inv m" "room m" and ag: "agrees m v"
    and add: "add m addr sz = Some (Inr (rc, Some (sid, n), m'))" and k: "k < unat n"
  shows "view_after_add m addr rc (Some (sid, n)) v (unat sid + k)
    = Some (aligned m addr + of_nat k * step m)"
proof -
  obtain c where l: "lookup m' (unat sid + k) = Some (aligned m addr + of_nat k * step m, c)"
    using add_maps [OF m add] k by blast
  have "unat sid + k < segs m" using add_maps [OF m add] k by linarith
  moreover have "segs m' = segs m" using add_returns [OF m, of addr sz] add by auto
  ultimately show ?thesis
    using add_agrees [OF m ag add] l by (auto simp: agrees_def)
qed

lemma del_agrees:
  assumes m: "inv m" "i < segs m" "lookup m i \<noteq> None" and ag: "agrees m v"
    and del: "del m i = Inr (out, m')"
  shows "agrees m' (view_after_del out v)"
proof -
  have segs: "segs m' = segs m" using del_returns [OF m] del by auto
  have "view_after_del out v j = Some a"
    if j: "j < segs m" and l: "lookup m' j = Some (a, c)" for j a c
    using del_keeps [OF m del j l] ag j
    by (auto simp: agrees_def view_after_del_def clear_view_def split: option.splits prod.splits)
  then show ?thesis using segs by (simp add: agrees_def)
qed

end

end
