(* ===== verification/Plx_Alm.thy ===== *)
theory Plx_Alm
  imports Lut_Manager
begin

text \<open>
  The manager of the address lookup table (A-LUT) of the PCIe bridge,
  \<open>plx87xx/plx_alm.c\<close>: which segments of the aperture map which range of peer memory, with
  a reference count per mapping and lazy release. The theory models every operation of the
  file, describes a well formed table as a row of blocks (free segments and mappings), and
  shows that allocation finds a correct place, that release and clean-up keep the mappings
  in use, and where the 16 bit reference count leaves this contract.
\<close>

unbundle bit_operations_syntax

section \<open>State\<close>

record plx_alm_arr_entry =
  e_value :: u64
  e_counter :: u16
  e_segments_count :: u16
  e_start :: u16

record plx_alm =
  segments_num :: u32
  segment_size :: u64
  entries :: "plx_alm_arr_entry list"

abbreviation nsegs :: "plx_alm \<Rightarrow> nat" where
  "nsegs m \<equiv> unat (segments_num m)"

definition zero_entry :: plx_alm_arr_entry where
  "zero_entry = \<lparr>e_value = 0, e_counter = 0, e_segments_count = 0, e_start = 0\<rparr>"

section \<open>Operations\<close>

text \<open>
  The consistency check of the table. The loop goes on after an error only to print it, so
  the first error decides the result.
\<close>

function plx_alm_check_from :: "plx_alm \<Rightarrow> nat \<Rightarrow> bool" where
  "plx_alm_check_from m i =
     (if i < nsegs m then
        (let e = entries m ! i in
         if e_counter e = 0 then
           e_segments_count e = 0 \<and> e_start e = 0 \<and> e_value e = 0
           \<and> plx_alm_check_from m (i + 1)
         else
           (let segments = unat (e_segments_count e) in
            if segments = 0 then False
            else if segments + i > nsegs m then False
            else list_all (\<lambda>j. unat (e_start (entries m ! j)) = i \<and>
                   (j \<noteq> i \<longrightarrow> e_counter (entries m ! j) = 0
                     \<and> e_segments_count (entries m ! j) = 0)) [i..<i + segments]
                 \<and> plx_alm_check_from m (i + segments)))
      else True)"
  by pat_completeness auto
termination
  by (relation "measure (\<lambda>(m, i). nsegs m - i)") auto

declare plx_alm_check_from.simps [simp del]

definition plx_alm_check :: "plx_alm \<Rightarrow> crash + unit" where
  "plx_alm_check m = (if plx_alm_check_from m 0 then Inr () else Inl BUG)"

text \<open>
  \<open>plx_alm_init\<close>: \<open>kzalloc\<close> tells whether the allocation of the table succeeds. After a
  failure the function still runs the check, which reads the table through the null
  pointer.
\<close>

definition plx_alm_init :: "bool \<Rightarrow> nat \<Rightarrow> u64 \<Rightarrow> crash + (errno \<times> plx_alm)" where
  "plx_alm_init kzalloc num_ntbs aper_len =
     (let n = of_nat (256 div num_ntbs);
          m = \<lparr>segments_num = n, segment_size = aper_len div ucast n,
               entries = replicate (unat n) zero_entry\<rparr>
      in if kzalloc then
           (case plx_alm_check m of Inl e \<Rightarrow> Inl e | Inr _ \<Rightarrow> Inr (EOK, m))
         else if n = 0 then Inr (ENOMEM, m)
         else Inl NULL_DEREF)"

definition plx_alm_release :: "plx_alm \<Rightarrow> crash + plx_alm" where
  "plx_alm_release m =
     (case plx_alm_check m of
        Inl e \<Rightarrow> Inl e
      | Inr _ \<Rightarrow> Inr (m\<lparr>entries := [], segments_num := 0, segment_size := 0\<rparr>))"

definition clear_entries ::
  "plx_alm_arr_entry list \<Rightarrow> nat \<Rightarrow> nat \<Rightarrow> plx_alm_arr_entry list" where
  "clear_entries es id_begin n =
     take id_begin es @ replicate n zero_entry @ drop (id_begin + n) es"

definition plx_alm_reset :: "plx_alm \<Rightarrow> crash + plx_alm" where
  "plx_alm_reset m =
     (case plx_alm_check m of
        Inl e \<Rightarrow> Inl e
      | Inr _ \<Rightarrow> Inr (m\<lparr>entries := clear_entries (entries m) 0 (nsegs m)\<rparr>))"

text \<open>
  \<open>plx_alm_del_entry\<close>. The two out parameters are written only when the last reference
  goes; they are the pair in the result.
\<close>

definition plx_alm_del_entry ::
  "plx_alm \<Rightarrow> nat \<Rightarrow> crash + ((nat \<times> nat) option \<times> plx_alm)" where
  "plx_alm_del_entry m segment_id =
     (if length (entries m) \<le> segment_id then Inl WILD_ACCESS
      else
        (let start_id = unat (e_start (entries m ! segment_id)) in
         if length (entries m) \<le> start_id then Inl WILD_ACCESS
         else
           (let e = entries m ! start_id in
            if e_counter e = 0 then Inl BUG
            else
              (let es = (entries m)[start_id := e\<lparr>e_counter := e_counter e - 1\<rparr>] in
               if e_counter e - 1 = 0 then
                 (let segments = unat (e_segments_count e) in
                  Inr (Some (start_id, segments),
                       m\<lparr>entries := clear_entries es start_id segments\<rparr>))
               else Inr (None, m\<lparr>entries := es\<rparr>)))))"

text \<open>
  \<open>plx_alm_cleanup_unused_entry\<close> walks the whole table and drops every mapping whose
  counter is 1, the value that stands for a mapping nobody uses any more.
\<close>

fun plx_alm_cleanup_loop ::
  "nat list \<Rightarrow> plx_alm \<Rightarrow> nat \<Rightarrow> crash + (nat \<times> plx_alm)" where
  "plx_alm_cleanup_loop [] m nums = Inr (nums, m)"
| "plx_alm_cleanup_loop (i # is) m nums =
     (if e_counter (entries m ! i) = 1 then
        (case plx_alm_del_entry m i of
           Inl e \<Rightarrow> Inl e
         | Inr (_, m') \<Rightarrow> plx_alm_cleanup_loop is m' (nums + 1))
      else plx_alm_cleanup_loop is m nums)"

definition plx_alm_cleanup_unused_entry :: "plx_alm \<Rightarrow> crash + (nat \<times> plx_alm)" where
  "plx_alm_cleanup_unused_entry m = plx_alm_cleanup_loop [0..<nsegs m] m 0"

text \<open>
  The scan of \<open>plx_alm_add_entry\<close>: first fit for \<open>segments\<close> free segments, unless an existing
  mapping already covers the request. The result holds \<open>match\<close> (\<open>None\<close> for the code's \<open>-1\<close>)
  and \<open>idx\<close>. A mapping of zero segments would make the loop stand still; the fuel bounds the
  number of rounds and \<open>None\<close> is a loop that does not end.
\<close>

fun alm_search ::
  "nat \<Rightarrow> plx_alm \<Rightarrow> u64 \<Rightarrow> nat \<Rightarrow> nat \<Rightarrow> nat \<Rightarrow> nat option \<Rightarrow> (nat option \<times> nat) option" where
  "alm_search 0 m addr_masked segments i free_slots mtch =
     (if i < nsegs m then None else Some (mtch, 0))"
| "alm_search (Suc fuel) m addr_masked segments i free_slots mtch =
     (if i < nsegs m then
        (let e = entries m ! i in
         if e_counter e = 0 then
           (case mtch of
              None \<Rightarrow>
                alm_search fuel m addr_masked segments (i + 1) (free_slots + 1)
                  (if free_slots + 1 = segments then Some (i + 1 - segments) else None)
            | Some _ \<Rightarrow> alm_search fuel m addr_masked segments (i + 1) free_slots mtch)
         else if e_value e \<le> addr_masked
            \<and> unat ((addr_masked - e_value e) div segment_size m) < nsegs m
            \<and> unat ((addr_masked - e_value e) div segment_size m) + segments
                \<le> unat (e_segments_count e)
         then Some (Some i, unat ((addr_masked - e_value e) div segment_size m))
         else alm_search fuel m addr_masked segments (i + unat (e_segments_count e)) 0 mtch)
      else Some (mtch, 0))"

text \<open>What follows the scan when a place was found, with the lazy release switched on.\<close>

definition alm_set_start ::
  "plx_alm_arr_entry list \<Rightarrow> nat \<Rightarrow> nat \<Rightarrow> plx_alm_arr_entry list" where
  "alm_set_start es mtch segments =
     fold (\<lambda>i es. es[mtch + i := (es ! (mtch + i))\<lparr>e_start := of_nat mtch\<rparr>]) [0..<segments] es"

definition alm_commit :: "plx_alm \<Rightarrow> u64 \<Rightarrow> nat \<Rightarrow> nat \<Rightarrow> errno \<times> plx_alm" where
  "alm_commit m addr_masked segments mtch =
     (let es = entries m;
          fresh = (e_counter (es ! mtch) = 0);
          es1 = (if fresh then
                   alm_set_start
                     (es[mtch := (es ! mtch)\<lparr>e_value := addr_masked,
                                             e_segments_count := of_nat segments\<rparr>])
                     mtch segments
                 else es);
          rc = (if fresh then EOK else EEXIST);
          es2 = (if e_counter (es1 ! mtch) = 0
                 then es1[mtch := (es1 ! mtch)\<lparr>e_counter := 1\<rparr>] else es1);
          es3 = es2[mtch := (es2 ! mtch)\<lparr>e_counter := e_counter (es2 ! mtch) + 1\<rparr>]
      in (rc, m\<lparr>entries := es3\<rparr>))"

definition DIV_ROUND_UP :: "u64 \<Rightarrow> u64 \<Rightarrow> u64" where
  "DIV_ROUND_UP n d = (n + d - 1) div d"

definition alm_mask :: "plx_alm \<Rightarrow> u64" where
  "alm_mask m = segment_size m - 1"

definition alm_segments :: "plx_alm \<Rightarrow> u64 \<Rightarrow> u64 \<Rightarrow> u32" where
  "alm_segments m addr sz = ucast (DIV_ROUND_UP ((addr AND alm_mask m) + sz) (segment_size m))"

text \<open>
  \<open>plx_alm_add_entry\<close>. The number of segments is computed before the size is tested, so a
  manager that was released (segment size 0) makes it divide by zero. When no place is found
  and the clean-up freed something, the code calls itself; the first argument bounds the
  depth of these calls.
\<close>

fun plx_alm_add_entry ::
  "nat \<Rightarrow> plx_alm \<Rightarrow> u64 \<Rightarrow> u64 \<Rightarrow> (crash + (errno \<times> (u32 \<times> u32) option \<times> plx_alm)) option" where
  "plx_alm_add_entry 0 m addr sz = None"
| "plx_alm_add_entry (Suc depth) m addr sz =
     (let addr_masked = addr AND NOT (alm_mask m);
          segments = alm_segments m addr sz
      in if segment_size m = 0 then Some (Inl DIV_ZERO)
         else if sz = 0 \<or> sz > segment_size m * ucast (segments_num m)
         then Some (Inr (ENOMEM, None, m))
         else
           (case alm_search (nsegs m) m addr_masked (unat segments) 0 0 None of
              None \<Rightarrow> None
            | Some (Some mtch, idx) \<Rightarrow>
                (let (rc, m') = alm_commit m addr_masked (unat segments) mtch
                 in Some (Inr (rc, Some (of_nat mtch + of_nat idx, segments), m')))
            | Some (None, _) \<Rightarrow>
                (case plx_alm_cleanup_unused_entry m of
                   Inl e \<Rightarrow> Some (Inl e)
                 | Inr (nums, m') \<Rightarrow>
                     if nums \<noteq> 0 then plx_alm_add_entry depth m' addr sz
                     else Some (Inr (ENOMEM, None, m')))))"

section \<open>Tables as rows of blocks\<close>

text \<open>
  A well formed table is a row of blocks: a free segment, or a mapping of \<open>n\<close> consecutive
  segments to peer memory from an address on. \<open>layout\<close> writes the table of such a row.
\<close>

datatype alm_block = FreeSeg | Mapped u64 u16 nat

fun block_len :: "alm_block \<Rightarrow> nat" where
  "block_len FreeSeg = 1"
| "block_len (Mapped v c n) = n"

definition blocks_len :: "alm_block list \<Rightarrow> nat" where
  "blocks_len bs = sum_list (map block_len bs)"

definition inner_entry :: "nat \<Rightarrow> plx_alm_arr_entry" where
  "inner_entry i = zero_entry\<lparr>e_start := of_nat i\<rparr>"

definition first_entry :: "nat \<Rightarrow> u64 \<Rightarrow> u16 \<Rightarrow> nat \<Rightarrow> plx_alm_arr_entry" where
  "first_entry i v c n =
     \<lparr>e_value = v, e_counter = c, e_segments_count = of_nat n, e_start = of_nat i\<rparr>"

fun layout :: "nat \<Rightarrow> alm_block list \<Rightarrow> plx_alm_arr_entry list" where
  "layout i [] = []"
| "layout i (FreeSeg # bs) = zero_entry # layout (i + 1) bs"
| "layout i (Mapped v c n # bs) =
     first_entry i v c n # replicate (n - 1) (inner_entry i) @ layout (i + n) bs"

fun block_ok :: "u64 \<Rightarrow> alm_block \<Rightarrow> bool" where
  "block_ok ss FreeSeg = True"
| "block_ok ss (Mapped v c n) = (c \<noteq> 0 \<and> 0 < n \<and> n \<le> 256 \<and> v AND (ss - 1) = 0)"

text \<open>
  The geometry of the aperture: at most 256 segments, a segment size that is a power of
  two, and an aperture that leaves two segments of the address space free, so that the
  ceiling division of the code does not wrap.
\<close>

definition geometry_ok :: "plx_alm \<Rightarrow> bool" where
  "geometry_ok m =
     (0 < nsegs m \<and> nsegs m \<le> 256 \<and> (\<exists>k < 64. segment_size m = 2 ^ k) \<and>
      unat (segment_size m) * (nsegs m + 2) < 2 ^ 64)"

definition alm_rel :: "plx_alm \<Rightarrow> alm_block list \<Rightarrow> bool" where
  "alm_rel m bs =
     (geometry_ok m \<and> entries m = layout 0 bs \<and> blocks_len bs = nsegs m \<and>
      list_all (block_ok (segment_size m)) bs)"

definition alm_inv :: "plx_alm \<Rightarrow> bool" where
  "alm_inv m = (\<exists>bs. alm_rel m bs)"

text \<open>
  What the table says about an aperture segment: the peer address behind it and the number
  of references on its mapping, read the way the driver does, through the \<open>start\<close> field.
  \<open>alm_translate\<close> is the address the bridge sends for a byte of the aperture.
\<close>

definition alm_lookup :: "plx_alm \<Rightarrow> nat \<Rightarrow> (u64 \<times> u16) option" where
  "alm_lookup m i =
     (let st = unat (e_start (entries m ! i)); e = entries m ! st
      in if st \<le> i \<and> i < st + unat (e_segments_count e)
         then Some (e_value e + of_nat (i - st) * segment_size m, e_counter e) else None)"

definition alm_translate :: "plx_alm \<Rightarrow> nat \<Rightarrow> u64 option" where
  "alm_translate m off =
     map_option (\<lambda>(a, c). a + of_nat (off mod unat (segment_size m)))
       (alm_lookup m (off div unat (segment_size m)))"

section \<open>Library: layouts\<close>

lemma blocks_len_simps [simp]:
  "blocks_len [] = 0"
  "blocks_len (b # bs) = block_len b + blocks_len bs"
  "blocks_len (bs @ cs) = blocks_len bs + blocks_len cs"
  "blocks_len (replicate k FreeSeg) = k"
  by (simp_all add: blocks_len_def sum_list_replicate)

lemma layout_append [simp]:
  "layout i (bs @ cs) = layout i bs @ layout (i + blocks_len bs) cs"
  by (induction i bs rule: layout.induct) (simp_all add: add.assoc)

lemma layout_free [simp]: "layout i (replicate k FreeSeg) = replicate k zero_entry"
  by (induction k arbitrary: i) simp_all

lemma length_layout:
  "list_all (block_ok ss) bs \<Longrightarrow> length (layout i bs) = blocks_len bs"
  by (induction i bs rule: layout.induct) auto

lemma length_le_blocks_len:
  "list_all (block_ok ss) bs \<Longrightarrow> length bs \<le> blocks_len bs"
proof (induction bs)
  case (Cons b bs)
  then show ?case by (cases b) auto
qed simp

lemma layout_nth_prefix:
  assumes "list_all (block_ok ss) pre"
  shows "layout i (pre @ b # bs) ! blocks_len pre = hd (layout (i + blocks_len pre) (b # bs))"
  using assms by (cases b) (simp_all add: nth_append length_layout)

lemma unat_count: "n \<le> 256 \<Longrightarrow> unat (of_nat n :: u16) = n"
  by (rule unat_of_nat_small) simp

lemma entry_simps [simp]:
  "e_counter zero_entry = 0" "e_segments_count zero_entry = 0"
  "e_start zero_entry = 0" "e_value zero_entry = 0"
  "e_counter (inner_entry i) = 0" "e_segments_count (inner_entry i) = 0"
  "e_start (inner_entry i) = of_nat i" "e_value (inner_entry i) = 0"
  "e_counter (first_entry i v c n) = c" "e_segments_count (first_entry i v c n) = of_nat n"
  "e_start (first_entry i v c n) = of_nat i" "e_value (first_entry i v c n) = v"
  by (simp_all add: zero_entry_def inner_entry_def first_entry_def)

lemma alm_rel_length: "alm_rel m bs \<Longrightarrow> length (entries m) = nsegs m"
  by (metis alm_rel_def length_layout)

section \<open>Library: the scan\<close>

text \<open>The scan over blocks, and that the loop over the table computes it.\<close>

definition covers :: "plx_alm \<Rightarrow> u64 \<Rightarrow> nat \<Rightarrow> u64 \<Rightarrow> nat \<Rightarrow> bool" where
  "covers m am s v n =
     (v \<le> am \<and> unat ((am - v) div segment_size m) < nsegs m
      \<and> unat ((am - v) div segment_size m) + s \<le> n)"

fun bsearch :: "plx_alm \<Rightarrow> u64 \<Rightarrow> nat \<Rightarrow> nat \<Rightarrow> nat \<Rightarrow> nat option \<Rightarrow> alm_block list \<Rightarrow>
    nat option \<times> nat" where
  "bsearch m am s i f mt [] = (mt, 0)"
| "bsearch m am s i f mt (FreeSeg # bs) =
     (case mt of
        None \<Rightarrow> bsearch m am s (i + 1) (f + 1) (if f + 1 = s then Some (i + 1 - s) else None) bs
      | Some _ \<Rightarrow> bsearch m am s (i + 1) f mt bs)"
| "bsearch m am s i f mt (Mapped v c n # bs) =
     (if covers m am s v n then (Some i, unat ((am - v) div segment_size m))
      else bsearch m am s (i + n) 0 mt bs)"

lemma search_blocks:
  assumes "entries m = layout 0 (pre @ bs)" and "blocks_len (pre @ bs) = nsegs m"
    and "list_all (block_ok ss) (pre @ bs)" and "length bs \<le> fuel"
  shows "alm_search fuel m am s (blocks_len pre) f mt = Some (bsearch m am s (blocks_len pre) f mt bs)"
  using assms
proof (induction bs arbitrary: pre f mt fuel)
  case Nil
  then show ?case by (cases fuel) simp_all
next
  case (Cons b bs)
  then obtain k where k: "fuel = Suc k" "length bs \<le> k" by (cases fuel) auto
  have IH: "alm_search k m am s (blocks_len pre + block_len b) f' mt' =
      Some (bsearch m am s (blocks_len pre + block_len b) f' mt' bs)" for f' mt'
    using Cons.IH [of "pre @ [b]"] Cons.prems k(2) by simp
  have lt: "blocks_len pre < nsegs m"
    using Cons.prems(2,3) by (cases b) auto
  have e: "entries m ! blocks_len pre = hd (layout (blocks_len pre) (b # bs))"
    using Cons.prems(1,3) layout_nth_prefix [of ss pre 0 b bs] by simp
  show ?case
  proof (cases b)
    case FreeSeg
    then show ?thesis using IH lt e k(1) by (simp split: option.splits)
  next
    case (Mapped v c n)
    then have "c \<noteq> 0" "n \<le> 256" using Cons.prems(3) by auto
    then show ?thesis using IH lt e k(1) Mapped
      by (auto simp: covers_def unat_count Let_def)
  qed
qed

lemma alm_search_blocks:
  assumes "alm_rel m bs"
  shows "alm_search (nsegs m) m am s 0 0 None = Some (bsearch m am s 0 0 None bs)"
proof -
  have ok: "list_all (block_ok (segment_size m)) bs" "blocks_len bs = nsegs m"
    "entries m = layout 0 bs"
    using assms by (auto simp: alm_rel_def)
  then have "length bs \<le> nsegs m" using length_le_blocks_len by metis
  then show ?thesis
    using search_blocks [of m "[]" bs "segment_size m" "nsegs m" am s 0 None] ok by simp
qed

text \<open>What a scan finds is either a run of free segments or a covering mapping.\<close>

definition free_run :: "nat \<Rightarrow> alm_block list \<Rightarrow> nat \<Rightarrow> bool" where
  "free_run s bs j = (\<exists>p q. bs = p @ replicate s FreeSeg @ q \<and> j = blocks_len p)"

definition covered_at :: "plx_alm \<Rightarrow> u64 \<Rightarrow> nat \<Rightarrow> alm_block list \<Rightarrow> nat \<Rightarrow> nat \<Rightarrow> bool" where
  "covered_at m am s bs j idx =
     (\<exists>p v c n q. bs = p @ Mapped v c n # q \<and> j = blocks_len p \<and> covers m am s v n
        \<and> idx = unat ((am - v) div segment_size m))"

lemma free_run_append: "free_run s bs k \<Longrightarrow> free_run s (bs @ cs) k"
  unfolding free_run_def by (metis append.assoc)

lemma bsearch_sound:
  assumes "bsearch m am s (blocks_len pre) f mt bs = (Some j, idx)" and "0 < s"
    and "case mt of None \<Rightarrow> f < s \<and> (\<exists>p. pre = p @ replicate f FreeSeg)
         | Some k \<Rightarrow> free_run s pre k"
  shows "free_run s (pre @ bs) j \<and> idx = 0 \<or> covered_at m am s (pre @ bs) j idx"
  using assms(1,3)
proof (induction bs arbitrary: pre f mt)
  case Nil
  then show ?case by simp
next
  case (Cons b bs)
  show ?case
  proof (cases b)
    case (Mapped v c n)
    show ?thesis
    proof (cases "covers m am s v n")
      case True
      then have "j = blocks_len pre" "idx = unat ((am - v) div segment_size m)"
        using Cons.prems(1) Mapped by simp_all
      then have "covered_at m am s (pre @ b # bs) j idx"
        unfolding covered_at_def using True Mapped by blast
      then show ?thesis by simp
    next
      case False
      have "case mt of None \<Rightarrow> 0 < s \<and> (\<exists>p. pre @ [b] = p @ replicate 0 FreeSeg)
         | Some k \<Rightarrow> free_run s (pre @ [b]) k"
        using Cons.prems(2) assms(2) by (auto simp: free_run_append split: option.splits)
      then show ?thesis
        using Cons.IH [of "pre @ [b]" 0 mt] Cons.prems(1) Mapped False by simp
    qed
  next
    case FreeSeg
    show ?thesis
    proof (cases mt)
      case None
      with Cons.prems(2) obtain p where p: "pre = p @ replicate f FreeSeg" and fs: "f < s"
        by auto
      have pb: "pre @ [b] = p @ replicate (f + 1) FreeSeg"
        using p FreeSeg by (simp add: replicate_append_same)
      then have "f + 1 = s \<longrightarrow> free_run s (pre @ [b]) (blocks_len pre + 1 - s)"
        using p unfolding free_run_def
        by (intro impI exI [of _ p] exI [of _ "[]"] conjI) (simp_all del: replicate_Suc)
      then have "case (if f + 1 = s then Some (blocks_len pre + 1 - s) else None) of
           None \<Rightarrow> f + 1 < s \<and> (\<exists>p. pre @ [b] = p @ replicate (f + 1) FreeSeg)
         | Some k \<Rightarrow> free_run s (pre @ [b]) k"
        using pb fs by auto
      then show ?thesis
        using Cons.IH [of "pre @ [b]" "f + 1"] Cons.prems(1) FreeSeg None by simp
    next
      case (Some k)
      then have "free_run s (pre @ [b]) k" using Cons.prems(2) by (simp add: free_run_append)
      then show ?thesis
        using Cons.IH [of "pre @ [b]" f mt] Cons.prems(1) FreeSeg Some by simp
    qed
  qed
qed

text \<open>A scan that finds nothing means that there is nothing to find.\<close>

lemma bsearch_Some_not_None: "fst (bsearch m am s i f (Some k) bs) \<noteq> None"
proof (induction bs arbitrary: i f)
  case (Cons b bs)
  then show ?case by (cases b) auto
qed simp

definition has_run :: "nat \<Rightarrow> alm_block list \<Rightarrow> bool" where
  "has_run s bs = (\<exists>p q. bs = p @ replicate s FreeSeg @ q)"

lemma has_run_replicate: "f < s \<Longrightarrow> \<not> has_run s (replicate f FreeSeg)"
proof
  assume "f < s" "has_run s (replicate f FreeSeg)"
  then obtain p q where "replicate f FreeSeg = p @ replicate s FreeSeg @ q"
    by (auto simp: has_run_def)
  then have "f = length p + (s + length q)"
    by (metis length_append length_replicate)
  with \<open>f < s\<close> show False by simp
qed

lemma has_run_past_Mapped:
  assumes "has_run s (replicate f FreeSeg @ Mapped v c n # bs)" and "f < s"
  shows "has_run s bs"
proof -
  obtain p q where eq: "replicate f FreeSeg @ Mapped v c n # bs = p @ replicate s FreeSeg @ q"
    using assms(1) by (auto simp: has_run_def)
  have "f < length p"
  proof (rule ccontr)
    assume nl: "\<not> f < length p"
    have "(p @ replicate s FreeSeg @ q) ! f = FreeSeg"
      using nl assms(2) less_imp_diff_less [OF assms(2), of "length p"]
      by (simp add: nth_append)
    moreover have "(replicate f FreeSeg @ Mapped v c n # bs) ! f = Mapped v c n"
      by (simp add: nth_append)
    ultimately show False using eq by simp
  qed
  then have "drop (Suc f) (p @ replicate s FreeSeg @ q) =
      drop (Suc f) p @ replicate s FreeSeg @ q" by simp
  moreover have "drop (Suc f) (replicate f FreeSeg @ Mapped v c n # bs) = bs" by simp
  ultimately show ?thesis using eq unfolding has_run_def by metis
qed

lemma bsearch_complete:
  assumes "fst (bsearch m am s i f None bs) = None" and "f < s"
  shows "\<not> has_run s (replicate f FreeSeg @ bs)
    \<and> (\<forall>v c n. Mapped v c n \<in> set bs \<longrightarrow> \<not> covers m am s v n)"
  using assms
proof (induction bs arbitrary: i f)
  case Nil
  then show ?case by (simp add: has_run_replicate)
next
  case (Cons b bs)
  show ?case
  proof (cases b)
    case (Mapped v c n)
    with Cons.prems have nc: "\<not> covers m am s v n"
      and r: "fst (bsearch m am s (i + n) 0 None bs) = None" by (auto split: if_splits)
    from Cons.IH [OF r] Cons.prems(2) have IH: "\<not> has_run s bs"
      "\<forall>v c n. Mapped v c n \<in> set bs \<longrightarrow> \<not> covers m am s v n" by auto
    then show ?thesis using nc Mapped has_run_past_Mapped Cons.prems(2) by auto
  next
    case FreeSeg
    have r0: "fst (bsearch m am s (i + 1) (f + 1)
        (if f + 1 = s then Some (i + 1 - s) else None) bs) = None"
      using Cons.prems(1) FreeSeg by simp
    have ne: "f + 1 \<noteq> s"
    proof
      assume "f + 1 = s"
      then have "fst (bsearch m am s (i + 1) (f + 1) (Some (i + 1 - s)) bs) = None"
        using r0 by simp
      then show False using bsearch_Some_not_None by blast
    qed
    then have r: "fst (bsearch m am s (i + 1) (f + 1) None bs) = None"
      using r0 by simp
    from Cons.IH [OF r] ne Cons.prems(2) have "\<not> has_run s (replicate (f + 1) FreeSeg @ bs)"
      "\<forall>v c n. Mapped v c n \<in> set bs \<longrightarrow> \<not> covers m am s v n" by auto
    then show ?thesis using FreeSeg
      by (simp add: replicate_app_Cons_same)
  qed
qed

section \<open>Library: allocation\<close>

lemma alm_set_start_append:
  "alm_set_start (xs @ ys @ zs) (length xs) (length ys) =
     xs @ map (\<lambda>e. e\<lparr>e_start := of_nat (length xs)\<rparr>) ys @ zs"
proof (induction ys arbitrary: zs rule: rev_induct)
  case Nil
  then show ?case by (simp add: alm_set_start_def)
next
  case (snoc y ys)
  have "alm_set_start (xs @ (ys @ [y]) @ zs) (length xs) (length (ys @ [y])) =
    (let es = alm_set_start (xs @ ys @ (y # zs)) (length xs) (length ys) in
     es[length xs + length ys := (es ! (length xs + length ys))\<lparr>e_start := of_nat (length xs)\<rparr>])"
    by (simp add: alm_set_start_def Let_def)
  also have "\<dots> = xs @ map (\<lambda>e. e\<lparr>e_start := of_nat (length xs)\<rparr>) (ys @ [y]) @ zs"
    by (simp add: snoc Let_def nth_append list_update_append)
  finally show ?case .
qed

lemma commit_free:
  assumes "alm_rel m (p @ replicate s FreeSeg @ q)" and "0 < s"
    and "am AND (segment_size m - 1) = 0"
  shows "\<exists>m'. alm_commit m am s (blocks_len p) = (EOK, m') \<and> alm_rel m' (p @ Mapped am 2 s # q)
     \<and> segment_size m' = segment_size m \<and> segments_num m' = segments_num m"
proof -
  let ?i = "blocks_len p"
  have ok: "list_all (block_ok (segment_size m)) p" and len: "length (layout 0 p) = ?i"
    using assms(1) by (auto simp: alm_rel_def length_layout)
  obtain s' where s': "s = Suc s'" using assms(2) by (cases s) auto
  let ?e = "\<lparr>e_value = am, e_counter = 0, e_segments_count = of_nat s, e_start = 0\<rparr>"
  have es: "entries m = layout 0 p @ (zero_entry # replicate s' zero_entry) @ layout (?i + s) q"
    using assms(1) s' by (simp add: alm_rel_def)
  have "alm_set_start (layout 0 p @ (?e # replicate s' zero_entry) @ layout (?i + s) q) ?i s
    = layout 0 p @ (?e\<lparr>e_start := of_nat ?i\<rparr> # replicate s' (inner_entry ?i)) @ layout (?i + s) q"
    using alm_set_start_append [of "layout 0 p" "?e # replicate s' zero_entry"] len s'
    by (simp add: inner_entry_def)
  moreover have ze: "zero_entry\<lparr>e_value := am, e_segments_count := of_nat s\<rparr> = ?e"
    by (simp add: zero_entry_def)
  ultimately have c: "alm_commit m am s ?i =
    (EOK, m\<lparr>entries := layout 0 p @ (first_entry ?i am 2 s # replicate s' (inner_entry ?i))
      @ layout (?i + s) q\<rparr>)"
    using len es
    by (simp add: alm_commit_def Let_def nth_append list_update_append first_entry_def ze)
  have "s \<le> 256" using assms(1) by (auto simp: alm_rel_def geometry_ok_def)
  then have "alm_rel (m\<lparr>entries := layout 0 p @ (first_entry ?i am 2 s # replicate s' (inner_entry ?i))
      @ layout (?i + s) q\<rparr>) (p @ Mapped am 2 s # q)"
    using assms s' by (simp add: alm_rel_def geometry_ok_def)
  then show ?thesis using c by simp
qed

lemma commit_covered:
  assumes "alm_rel m (p @ Mapped v c n # q)" and "c \<noteq> 0xFFFF"
  shows "\<exists>m'. alm_commit m am s (blocks_len p) = (EEXIST, m')
     \<and> alm_rel m' (p @ Mapped v (c + 1) n # q)
     \<and> segment_size m' = segment_size m \<and> segments_num m' = segments_num m"
proof -
  let ?i = "blocks_len p"
  have len: "length (layout 0 p) = ?i" and c0: "c \<noteq> 0"
    using assms(1) by (auto simp: alm_rel_def length_layout)
  have "c + 1 \<noteq> 0"
  proof
    assume "c + 1 = 0"
    then have "c = -1" by (simp add: eq_neg_iff_add_eq_0)
    with assms(2) show False by simp
  qed
  then show ?thesis
    using assms(1) len c0
    by (simp add: alm_commit_def Let_def alm_rel_def geometry_ok_def nth_append
        list_update_append first_entry_def)
qed

section \<open>Library: lookups\<close>

text \<open>The block of a segment: its address, its counter, and the offset inside it.\<close>

fun blookup :: "alm_block list \<Rightarrow> nat \<Rightarrow> (u64 \<times> u16 \<times> nat) option" where
  "blookup [] i = None"
| "blookup (FreeSeg # bs) i = (if i = 0 then None else blookup bs (i - 1))"
| "blookup (Mapped v c n # bs) i = (if i < n then Some (v, c, i) else blookup bs (i - n))"

lemma blookup_append [simp]:
  "blookup (p @ q) i = (if i < blocks_len p then blookup p i else blookup q (i - blocks_len p))"
  by (induction p i rule: blookup.induct) (auto simp: diff_diff_eq)

lemma blookup_free [simp]: "blookup (replicate n FreeSeg) i = None"
  by (induction n arbitrary: i) auto

lemma blookup_SomeD:
  assumes "blookup bs i = Some (v, c, k)"
  shows "\<exists>p n q. bs = p @ Mapped v c n # q \<and> i = blocks_len p + k \<and> k < n"
  using assms
proof (induction bs i rule: blookup.induct)
  case (2 bs i)
  then obtain p n q where "bs = p @ Mapped v c n # q" "i - 1 = blocks_len p + k" "k < n" "i \<noteq> 0"
    by (auto split: if_splits)
  then show ?case by (intro exI [of _ "FreeSeg # p"] exI [of _ n] exI [of _ q]) auto
next
  case (3 v' c' n' bs i)
  show ?case
  proof (cases "i < n'")
    case True
    then show ?thesis using 3 by (intro exI [of _ "[]"]) auto
  next
    case False
    with 3 obtain p n q where "bs = p @ Mapped v c n # q" "i - n' = blocks_len p + k" "k < n"
      by auto
    then show ?thesis using False
      by (intro exI [of _ "Mapped v' c' n' # p"] exI [of _ n] exI [of _ q]) auto
  qed
qed simp

lemma blookup_NoneD:
  assumes "blookup bs i = None" and "i < blocks_len bs"
  shows "\<exists>p q. bs = p @ FreeSeg # q \<and> i = blocks_len p"
  using assms
proof (induction bs i rule: blookup.induct)
  case (2 bs i)
  show ?case
  proof (cases "i = 0")
    case True
    then show ?thesis by (intro exI [of _ "[]"] exI [of _ bs]) simp
  next
    case False
    with 2 have "blookup bs (i - 1) = None" "i - 1 < blocks_len bs" by auto
    with 2(1) False obtain p q where "bs = p @ FreeSeg # q" "i - 1 = blocks_len p" by auto
    then show ?thesis using False by (intro exI [of _ "FreeSeg # p"] exI [of _ q]) auto
  qed
next
  case (3 v c n bs i)
  then have "\<not> i < n" "blookup bs (i - n) = None" "i - n < blocks_len bs"
    by (auto split: if_splits)
  with 3(1) obtain p q where "bs = p @ FreeSeg # q" "i - n = blocks_len p" "\<not> i < n" by auto
  then show ?case by (intro exI [of _ "Mapped v c n # p"] exI [of _ q]) auto
qed simp

text \<open>The entries of a well formed table.\<close>

lemma entry_of_mapped:
  assumes "alm_rel m (p @ Mapped v c n # q)" and "k < n"
  shows "entries m ! (blocks_len p + k) =
      (if k = 0 then first_entry (blocks_len p) v c n else inner_entry (blocks_len p))"
proof -
  have "length (layout 0 p) = blocks_len p"
    using assms(1) by (auto simp: alm_rel_def length_layout)
  then show ?thesis
    using assms by (auto simp: alm_rel_def nth_append nth_Cons')
qed

lemma entry_of_free:
  assumes "alm_rel m (p @ FreeSeg # q)"
  shows "entries m ! blocks_len p = zero_entry"
  using assms by (auto simp: alm_rel_def nth_append length_layout)

lemma alm_rel_bounds:
  assumes "alm_rel m (p @ Mapped v c n # q)"
  shows "blocks_len p + n \<le> nsegs m" "nsegs m \<le> 256" "0 < n" "c \<noteq> 0"
    "v AND (segment_size m - 1) = 0"
  using assms by (auto simp: alm_rel_def geometry_ok_def)

lemma alm_lookup_blocks:
  assumes "alm_rel m bs" and "i < nsegs m"
  shows "alm_lookup m i =
    map_option (\<lambda>(v, c, k). (v + of_nat k * segment_size m, c)) (blookup bs i)"
proof (cases "blookup bs i")
  case (Some x)
  obtain v c k where x: "x = (v, c, k)" by (cases x)
  with Some obtain p n q where b: "bs = p @ Mapped v c n # q" "i = blocks_len p + k" "k < n"
    using blookup_SomeD by blast
  note rel = assms(1) [unfolded b(1)]
  have st: "unat (e_start (entries m ! i)) = blocks_len p"
    using entry_of_mapped [OF rel b(3)] alm_rel_bounds [OF rel] b(2)
    by (auto simp: unat_count)
  have "entries m ! blocks_len p = first_entry (blocks_len p) v c n"
    using entry_of_mapped [OF rel, of 0] alm_rel_bounds [OF rel] by simp
  then show ?thesis
    using st b alm_rel_bounds [OF rel] Some x by (simp add: alm_lookup_def Let_def unat_count)
next
  case None
  have "i < blocks_len bs" using assms by (simp add: alm_rel_def)
  with None obtain p q where b: "bs = p @ FreeSeg # q" "i = blocks_len p"
    using blookup_NoneD by blast
  have st: "unat (e_start (entries m ! i)) = 0"
    using entry_of_free assms(1) b by simp
  have "\<not> i < unat (e_segments_count (entries m ! 0))"
  proof (cases p)
    case Nil
    then show ?thesis using entry_of_free [of m p q] assms(1) b by simp
  next
    case (Cons b' p')
    show ?thesis
    proof (cases b')
      case FreeSeg
      then show ?thesis using entry_of_free [of m "[]"] assms(1) b Cons by simp
    next
      case (Mapped v c n)
      have rel: "alm_rel m ([] @ Mapped v c n # p' @ FreeSeg # q)"
        using assms(1) b Cons Mapped by simp
      then show ?thesis
        using entry_of_mapped [OF rel, of 0] alm_rel_bounds [OF rel] b(2) Cons Mapped
        by (simp add: unat_count)
    qed
  qed
  then show ?thesis using st None by (simp add: alm_lookup_def Let_def)
qed

section \<open>Library: release and clean-up\<close>

lemma clear_entries_append:
  "length xs = i \<Longrightarrow> length ys = n \<Longrightarrow>
   clear_entries (xs @ ys @ zs) i n = xs @ replicate n zero_entry @ zs"
  by (simp add: clear_entries_def)

lemma block_ok_free [simp]: "list_all (block_ok ss) (replicate n FreeSeg)"
  by (induction n) simp_all

lemma del_mapped:
  assumes rel: "alm_rel m (p @ Mapped v c n # q)" and k: "k < n"
  shows "\<exists>m'. plx_alm_del_entry m (blocks_len p + k) =
        Inr (if c = 1 then Some (blocks_len p, n) else None, m')
      \<and> alm_rel m' (p @ (if c = 1 then replicate n FreeSeg else [Mapped v (c - 1) n]) @ q)
      \<and> segment_size m' = segment_size m \<and> segments_num m' = segments_num m"
proof -
  let ?i = "blocks_len p"
  note bnd = alm_rel_bounds [OF rel]
  have len: "length (layout 0 p) = ?i"
    using rel by (auto simp: alm_rel_def length_layout)
  have es: "entries m = layout 0 p @ (first_entry ?i v c n # replicate (n - 1) (inner_entry ?i))
      @ layout (?i + n) q"
    using rel by (simp add: alm_rel_def)
  have st: "unat (e_start (entries m ! (?i + k))) = ?i"
    using entry_of_mapped [OF rel k] bnd by (auto simp: unat_count)
  have e: "entries m ! ?i = first_entry ?i v c n"
    using entry_of_mapped [OF rel, of 0] bnd by simp
  have lm: "length (entries m) = nsegs m" using alm_rel_length [OF rel] .
  have upd: "(entries m)[?i := (first_entry ?i v c n)\<lparr>e_counter := c - 1\<rparr>] =
      layout 0 p @ (first_entry ?i v (c - 1) n # replicate (n - 1) (inner_entry ?i))
      @ layout (?i + n) q"
    using len es by (simp add: list_update_append first_entry_def)
  have clr: "clear_entries (layout 0 p
      @ (first_entry ?i v d n # replicate (n - 1) (inner_entry ?i)) @ layout (?i + n) q) ?i n
      = layout 0 p @ replicate n zero_entry @ layout (?i + n) q" for d
    using bnd by (intro clear_entries_append len) simp
  have d: "plx_alm_del_entry m (?i + k) =
      Inr (if c = 1 then Some (?i, n) else None,
           m\<lparr>entries := if c = 1 then layout 0 p @ replicate n zero_entry @ layout (?i + n) q
             else layout 0 p @ (first_entry ?i v (c - 1) n # replicate (n - 1) (inner_entry ?i))
               @ layout (?i + n) q\<rparr>)"
    using lm k bnd upd clr [of 0]
    by (simp add: plx_alm_del_entry_def Let_def st e unat_count)
  show ?thesis
    unfolding d using rel by (auto simp: alm_rel_def geometry_ok_def)
qed

text \<open>The clean-up turns the blocks with counter 1 into free segments.\<close>

fun clean_block :: "alm_block \<Rightarrow> alm_block list" where
  "clean_block FreeSeg = [FreeSeg]"
| "clean_block (Mapped v c n) = (if c = 1 then replicate n FreeSeg else [Mapped v c n])"

definition clean :: "alm_block list \<Rightarrow> alm_block list" where
  "clean bs = concat (map clean_block bs)"

fun unused :: "alm_block \<Rightarrow> bool" where
  "unused FreeSeg = False"
| "unused (Mapped v c n) = (c = 1)"

lemma clean_simps [simp]:
  "clean [] = []" "clean (b # bs) = clean_block b @ clean bs"
  "blocks_len (clean_block b) = block_len b"
  by (simp_all add: clean_def) (cases b; simp)

lemma cleanup_skip:
  "(\<And>i. i \<in> set is \<Longrightarrow> e_counter (entries m ! i) \<noteq> 1) \<Longrightarrow>
   plx_alm_cleanup_loop (is @ js) m nums = plx_alm_cleanup_loop js m nums"
  by (induction "is") auto

lemma cleanup_blocks:
  assumes "alm_rel m (pre @ bs)"
  shows "\<exists>m'. plx_alm_cleanup_loop [blocks_len pre..<nsegs m] m nums =
        Inr (nums + length (filter unused bs), m')
      \<and> alm_rel m' (pre @ clean bs)
      \<and> segment_size m' = segment_size m \<and> segments_num m' = segments_num m"
  using assms
proof (induction bs arbitrary: pre m nums)
  case Nil
  then show ?case by (simp add: alm_rel_def)
next
  case (Cons b bs)
  have tot: "nsegs m = blocks_len pre + block_len b + blocks_len bs"
    using Cons.prems by (simp add: alm_rel_def)
  have IH: "alm_rel m2 ((pre @ pre') @ bs) \<Longrightarrow> blocks_len pre' = block_len b \<Longrightarrow>
      segment_size m2 = segment_size m \<Longrightarrow> segments_num m2 = segments_num m \<Longrightarrow>
    \<exists>m'. plx_alm_cleanup_loop [blocks_len pre + block_len b..<nsegs m] m2 k =
        Inr (k + length (filter unused bs), m') \<and> alm_rel m' (pre @ pre' @ clean bs)
      \<and> segment_size m' = segment_size m \<and> segments_num m' = segments_num m" for m2 k pre'
    using Cons.IH [of m2 "pre @ pre'" k] by auto
  show ?case
  proof (cases b)
    case FreeSeg
    have "e_counter (entries m ! blocks_len pre) \<noteq> 1"
      using entry_of_free [of m pre bs] Cons.prems FreeSeg by simp
    moreover have "[blocks_len pre..<nsegs m] = blocks_len pre # [Suc (blocks_len pre)..<nsegs m]"
      using tot FreeSeg by (intro upt_conv_Cons) simp
    ultimately show ?thesis
      using IH [of m "[FreeSeg]" nums] Cons.prems FreeSeg by simp
  next
    case (Mapped v c n)
    note rel = Cons.prems [unfolded Mapped]
    have n: "0 < n" using alm_rel_bounds [OF rel] by simp
    have "[blocks_len pre..<nsegs m] = [blocks_len pre..<blocks_len pre + n]
        @ [blocks_len pre + n..<nsegs m]"
      using tot Mapped upt_add_eq_append [of "blocks_len pre" "blocks_len pre + n" "blocks_len bs"]
      by simp
    moreover have "[blocks_len pre..<blocks_len pre + n] =
        blocks_len pre # [Suc (blocks_len pre)..<blocks_len pre + n]"
      using n by (intro upt_conv_Cons) simp
    ultimately have up: "[blocks_len pre..<nsegs m] = blocks_len pre #
        [Suc (blocks_len pre)..<blocks_len pre + n] @ [blocks_len pre + n..<nsegs m]" by simp
    have e: "e_counter (entries m ! blocks_len pre) = c"
      using entry_of_mapped [OF rel n] by simp
    show ?thesis
    proof (cases "c = 1")
      case True
      from del_mapped [OF rel n] obtain m1 where d:
        "plx_alm_del_entry m (blocks_len pre) = Inr (Some (blocks_len pre, n), m1)"
        "alm_rel m1 (pre @ replicate n FreeSeg @ bs)"
        "segment_size m1 = segment_size m" "segments_num m1 = segments_num m"
        using True by auto
      have "e_counter (entries m1 ! i) \<noteq> 1" if "i \<in> set [Suc (blocks_len pre)..<blocks_len pre + n]" for i
      proof -
        define k where "k = i - blocks_len pre"
        have "i = blocks_len pre + k" "k < n" using that k_def by auto
        moreover have "replicate n FreeSeg = replicate k FreeSeg @ FreeSeg # replicate (n - k - 1) FreeSeg"
          using \<open>k < n\<close> replicate_add [of k "Suc (n - k - 1)" FreeSeg] by simp
        ultimately show ?thesis
          using entry_of_free [of m1 "pre @ replicate k FreeSeg" "replicate (n - k - 1) FreeSeg @ bs"]
            d(2) by simp
      qed
      then have "plx_alm_cleanup_loop ([Suc (blocks_len pre)..<blocks_len pre + n] @ js) m1 k =
          plx_alm_cleanup_loop js m1 k" for js k by (intro cleanup_skip)
      then show ?thesis
        using IH [of m1 "replicate n FreeSeg" "nums + 1"] d True e Mapped
        by (simp add: up)
    next
      case False
      have "e_counter (entries m ! i) \<noteq> 1" if "i \<in> set [Suc (blocks_len pre)..<blocks_len pre + n]" for i
      proof -
        define k where "k = i - blocks_len pre"
        have "i = blocks_len pre + k" "k < n" "0 < k" using that k_def by auto
        then show ?thesis using entry_of_mapped [OF rel, of k] by simp
      qed
      then have "plx_alm_cleanup_loop ([Suc (blocks_len pre)..<blocks_len pre + n] @ js) m k =
          plx_alm_cleanup_loop js m k" for js k by (intro cleanup_skip)
      then show ?thesis
        using IH [of m "[Mapped v c n]" nums] rel False e Mapped
        by (simp add: up)
    qed
  qed
qed

lemma cleanup_rel:
  assumes "alm_rel m bs"
  shows "\<exists>m'. plx_alm_cleanup_unused_entry m = Inr (length (filter unused bs), m')
      \<and> alm_rel m' (clean bs)
      \<and> segment_size m' = segment_size m \<and> segments_num m' = segments_num m"
  using cleanup_blocks [of m "[]" bs 0] assms by (simp add: plx_alm_cleanup_unused_entry_def)

lemma clean_no_unused: "filter unused (clean bs) = []"
proof (induction bs)
  case (Cons b bs)
  then show ?case by (cases b) auto
qed simp

lemma clean_unchanged: "filter unused bs = [] \<Longrightarrow> list_all (block_ok ss) bs \<Longrightarrow> clean bs = bs"
proof (induction bs)
  case (Cons b bs)
  then show ?case by (cases b) (auto split: if_splits)
qed simp

lemma blookup_clean:
  "blookup (clean bs) i =
     (case blookup bs i of Some (v, c, k) \<Rightarrow> if c = 1 then None else Some (v, c, k) | None \<Rightarrow> None)"
  by (induction bs i rule: blookup.induct) auto

section \<open>Library: the arithmetic of a request\<close>

lemma geometry_size:
  assumes "geometry_ok m"
  obtains k where "k < 64" "segment_size m = 2 ^ k" "unat (segment_size m) = 2 ^ k"
proof -
  from assms obtain k where k: "k < 64" "segment_size m = 2 ^ k"
    by (auto simp: geometry_ok_def)
  have "unat (of_nat (2 ^ k) :: u64) = 2 ^ k"
    using k(1) power_strict_increasing [of k 64 "2 :: nat"] by (intro unat_of_nat_small) simp
  then have "unat (segment_size m) = 2 ^ k" using k(2) by simp
  with k that show thesis by blast
qed

lemma geometry_pos: "geometry_ok m \<Longrightarrow> 0 < unat (segment_size m)"
  by (erule geometry_size) simp

lemma alm_rel_size: "alm_rel m bs \<Longrightarrow> segment_size m \<noteq> 0"
  using geometry_pos [of m] by (auto simp: alm_rel_def)

lemma unat_and_mask:
  "unat (x AND (2 ^ k - 1) :: u64) = unat x mod 2 ^ k"
proof -
  have "x AND (2 ^ k - 1) = take_bit k x"
    by (simp add: take_bit_eq_mask mask_eq_exp_minus_1)
  then have "unat (x AND (2 ^ k - 1)) = take_bit k (unat x)"
    by (simp only: unsigned_take_bit_eq)
  then show ?thesis by (simp only: take_bit_eq_mod)
qed

lemma and_not_plus_and: "(x AND NOT y) + (x AND y) = (x :: u64)"
proof -
  have "(x AND NOT y) AND (x AND y) = 0"
    by (rule bit_word_eqI) (simp add: bit_simps)
  then have "(x AND NOT y) + (x AND y) = (x AND NOT y) OR (x AND y)"
    by (simp add: disjunctive_add_eq_or)
  also have "\<dots> = x"
    by (rule bit_word_eqI) (auto simp: bit_simps)
  finally show ?thesis .
qed

lemma masked_aligned: "(x AND NOT y) AND y = (0 :: u64)"
  by (rule bit_word_eqI) (simp add: bit_simps)

text \<open>The offset of a request in its first segment, and the number of segments it takes.\<close>

lemma alm_off:
  assumes "geometry_ok m"
  shows "unat (addr AND alm_mask m) = unat addr mod unat (segment_size m)"
proof -
  obtain k where "k < 64" "segment_size m = 2 ^ k" "unat (segment_size m) = 2 ^ k"
    using geometry_size [OF assms] .
  then show ?thesis using unat_and_mask [of addr k] by (simp add: alm_mask_def)
qed

lemma alm_segments_value:
  assumes "geometry_ok m" and "0 < sz" and "sz \<le> segment_size m * ucast (segments_num m)"
  shows "unat (alm_segments m addr sz) =
      (unat (addr AND alm_mask m) + unat sz + unat (segment_size m) - 1) div unat (segment_size m)"
    and "unat sz \<le> unat (segment_size m) * nsegs m"
proof -
  let ?ss = "unat (segment_size m)" and ?off = "unat (addr AND alm_mask m)"
  have pos: "0 < ?ss" by (rule geometry_pos [OF assms(1)])
  have lim: "?ss * (nsegs m + 2) < 2 ^ 64" and n: "nsegs m \<le> 256"
    using assms(1) by (auto simp: geometry_ok_def)
  have "unat (segment_size m * ucast (segments_num m)) = ?ss * nsegs m"
    using lim n by (simp add: unat_word_ariths unsigned_ucast_eq take_bit_eq_mod)
  then show szle: "unat sz \<le> ?ss * nsegs m"
    using assms(3) by (simp add: word_le_nat_alt)
  have off: "?off < ?ss" using alm_off [OF assms(1)] pos by simp
  have sum: "?off + unat sz + ?ss < ?ss * (nsegs m + 2)"
    using off szle unfolding distrib_left by linarith
  have fits: "?off + unat sz + ?ss < 2 ^ LENGTH(64)" "?off + unat sz < 2 ^ LENGTH(64)"
    using sum lim by simp_all
  have "unat ((addr AND alm_mask m) + sz + segment_size m) = ?off + unat sz + ?ss"
    using fits by (simp only: unat_plus_small)
  then have "unat ((addr AND alm_mask m) + sz + segment_size m - 1) = ?off + unat sz + ?ss - 1"
    using pos by (metis unat_dec add_gr_0 unat_gt_0)
  then have d: "unat (DIV_ROUND_UP ((addr AND alm_mask m) + sz) (segment_size m)) =
      (?off + unat sz + ?ss - 1) div ?ss"
    by (simp add: DIV_ROUND_UP_def unat_div)
  have "(?off + unat sz + ?ss - 1) div ?ss \<le> (?ss * (nsegs m + 2)) div ?ss"
    using sum by (intro div_le_mono) simp
  also have "\<dots> = nsegs m + 2" using pos by simp
  finally have "(?off + unat sz + ?ss - 1) div ?ss < 2 ^ 32" using n by simp
  then show "unat (alm_segments m addr sz) = (?off + unat sz + ?ss - 1) div ?ss"
    using d by (simp add: alm_segments_def unsigned_ucast_eq take_bit_eq_mod)
qed

lemma alm_segments_pos:
  assumes "geometry_ok m" and "0 < sz" and "sz \<le> segment_size m * ucast (segments_num m)"
  shows "0 < unat (alm_segments m addr sz)"
proof -
  have "0 < unat sz" using assms(2) by (simp add: word_less_nat_alt)
  then show ?thesis
    using geometry_pos [OF assms(1)] alm_segments_value(1) [OF assms]
    by (simp add: div_greater_zero_iff)
qed

lemma alm_segments_room:
  assumes "geometry_ok m" and "0 < sz" and "sz \<le> segment_size m * ucast (segments_num m)"
    and "b < unat sz"
  shows "(unat (addr AND alm_mask m) + b) div unat (segment_size m) < unat (alm_segments m addr sz)"
proof -
  let ?ss = "unat (segment_size m)" and ?off = "unat (addr AND alm_mask m)"
  have pos: "0 < ?ss" by (rule geometry_pos [OF assms(1)])
  have "(?off + b) div ?ss + 1 = (?off + b + ?ss) div ?ss"
    using pos by (subst div_add_self2) simp_all
  also have "\<dots> \<le> (?off + unat sz + ?ss - 1) div ?ss"
    using assms(4) by (intro div_le_mono) simp
  finally show ?thesis using alm_segments_value(1) [OF assms(1-3)] by simp
qed

section \<open>Library: a request as a whole\<close>

definition fits :: "plx_alm \<Rightarrow> u64 \<Rightarrow> bool" where
  "fits m sz = (0 < sz \<and> sz \<le> segment_size m * ucast (segments_num m))"

text \<open>No mapping has reached the largest value of its 16 bit counter.\<close>

definition counters_below_max :: "plx_alm \<Rightarrow> bool" where
  "counters_below_max m = list_all (\<lambda>e. e_counter e \<noteq> 0xFFFF) (entries m)"

definition same_geometry :: "plx_alm \<Rightarrow> plx_alm \<Rightarrow> bool" where
  "same_geometry m m' = (segment_size m' = segment_size m \<and> segments_num m' = segments_num m)"

lemma same_geometry_simps:
  assumes "same_geometry m m'"
  shows "segment_size m' = segment_size m" "segments_num m' = segments_num m"
    "alm_mask m' = alm_mask m" "alm_segments m' addr sz = alm_segments m addr sz"
    "fits m' sz = fits m sz" "covers m' am s v n = covers m am s v n"
  using assms
  by (simp_all add: same_geometry_def alm_mask_def alm_segments_def fits_def covers_def)

text \<open>How a successful request changes the row of blocks.\<close>

definition placed ::
  "plx_alm \<Rightarrow> u64 \<Rightarrow> nat \<Rightarrow> errno \<Rightarrow> nat \<Rightarrow> alm_block list \<Rightarrow> alm_block list \<Rightarrow> bool" where
  "placed m am s rc sid bs bs' =
     (rc = EOK \<and> (\<exists>p q. bs = p @ replicate s FreeSeg @ q \<and> bs' = p @ Mapped am 2 s # q
         \<and> sid = blocks_len p)
      \<or> rc = EEXIST \<and> (\<exists>p v c n q. bs = p @ Mapped v c n # q \<and> bs' = p @ Mapped v (c + 1) n # q
         \<and> covers m am s v n \<and> sid = blocks_len p + unat ((am - v) div segment_size m)))"

lemma counters_below_max_block:
  assumes "alm_rel m (p @ Mapped v c n # q)" and "counters_below_max m"
  shows "c \<noteq> 0xFFFF"
  using assms by (auto simp: alm_rel_def counters_below_max_def)

lemma commit_placed:
  assumes rel: "alm_rel m bs" and "counters_below_max m" and "0 < s"
    and am: "am AND (segment_size m - 1) = 0"
    and found: "bsearch m am s 0 0 None bs = (Some j, idx)"
  shows "\<exists>rc m' bs'. alm_commit m am s j = (rc, m') \<and> alm_rel m' bs'
     \<and> placed m am s rc (j + idx) bs bs' \<and> same_geometry m m'"
proof -
  have "free_run s bs j \<and> idx = 0 \<or> covered_at m am s bs j idx"
    using bsearch_sound [of m am s "[]" 0 None bs j idx] found assms(3) by simp
  then show ?thesis
  proof
    assume f: "free_run s bs j \<and> idx = 0"
    then obtain p q where b: "bs = p @ replicate s FreeSeg @ q" "j = blocks_len p"
      by (auto simp: free_run_def)
    obtain m' where "alm_commit m am s j = (EOK, m')" "alm_rel m' (p @ Mapped am 2 s # q)"
      "segment_size m' = segment_size m" "segments_num m' = segments_num m"
      using commit_free [of m p s q am] rel b assms(3) am by auto
    then show ?thesis using b f unfolding placed_def same_geometry_def by fastforce
  next
    assume "covered_at m am s bs j idx"
    then obtain p v c n q where b: "bs = p @ Mapped v c n # q" "j = blocks_len p"
      "covers m am s v n" "idx = unat ((am - v) div segment_size m)"
      by (auto simp: covered_at_def)
    obtain m' where "alm_commit m am s j = (EEXIST, m')" "alm_rel m' (p @ Mapped v (c + 1) n # q)"
      "segment_size m' = segment_size m" "segments_num m' = segments_num m"
      using commit_covered [of m p v c n q am s] rel b counters_below_max_block assms(2) by auto
    then show ?thesis using b unfolding placed_def same_geometry_def by fastforce
  qed
qed

text \<open>One call that finds a place, and one call that does not.\<close>

lemma add_found:
  assumes rel: "alm_rel m bs" and "counters_below_max m" and fit: "fits m sz"
    and found: "bsearch m (addr AND NOT (alm_mask m)) (unat (alm_segments m addr sz)) 0 0 None bs
       = (Some j, idx)"
  shows "\<exists>rc m' bs'. plx_alm_add_entry (Suc d) m addr sz =
        Some (Inr (rc, Some (of_nat (j + idx), alm_segments m addr sz), m'))
     \<and> alm_rel m' bs' \<and> same_geometry m m'
     \<and> placed m (addr AND NOT (alm_mask m)) (unat (alm_segments m addr sz)) rc (j + idx) bs bs'"
proof -
  let ?am = "addr AND NOT (alm_mask m)" and ?s = "unat (alm_segments m addr sz)"
  have "0 < ?s" using rel fit alm_segments_pos by (simp add: alm_rel_def fits_def)
  moreover have "?am AND (segment_size m - 1) = 0"
    using masked_aligned by (simp add: alm_mask_def)
  ultimately obtain rc m' bs' where c: "alm_commit m ?am ?s j = (rc, m')" "alm_rel m' bs'"
    "placed m ?am ?s rc (j + idx) bs bs'" "same_geometry m m'"
    using commit_placed [OF rel assms(2)] found by blast
  have "plx_alm_add_entry (Suc d) m addr sz =
        Some (Inr (rc, Some (of_nat (j + idx), alm_segments m addr sz), m'))"
    using fit found c(1) alm_rel_size [OF rel]
    by (auto simp: Let_def fits_def alm_search_blocks [OF rel] not_less)
  then show ?thesis using c by blast
qed

lemma add_not_found:
  assumes rel: "alm_rel m bs" and fit: "fits m sz"
    and none: "fst (bsearch m (addr AND NOT (alm_mask m)) (unat (alm_segments m addr sz)) 0 0 None bs)
       = None"
  shows "\<exists>m'. alm_rel m' (clean bs) \<and> same_geometry m m' \<and> plx_alm_add_entry (Suc d) m addr sz =
      (if filter unused bs = [] then Some (Inr (ENOMEM, None, m'))
       else plx_alm_add_entry d m' addr sz)"
proof -
  obtain m' where c: "plx_alm_cleanup_unused_entry m = Inr (length (filter unused bs), m')"
    "alm_rel m' (clean bs)" "same_geometry m m'"
    using cleanup_rel [OF rel] by (auto simp: same_geometry_def)
  have "plx_alm_add_entry (Suc d) m addr sz =
      (if filter unused bs = [] then Some (Inr (ENOMEM, None, m'))
       else plx_alm_add_entry d m' addr sz)"
    using fit none c(1) alm_rel_size [OF rel]
    by (auto simp: Let_def fits_def alm_search_blocks [OF rel] not_less
        split: prod.splits option.splits)
  then show ?thesis using c by blast
qed
text \<open>
  The whole request. One nested call is enough, since the clean-up leaves nothing for a
  second one to free.
\<close>

definition no_place :: "plx_alm \<Rightarrow> u64 \<Rightarrow> nat \<Rightarrow> alm_block list \<Rightarrow> bool" where
  "no_place m am s bs =
     (\<not> has_run s bs \<and> (\<forall>v c n. Mapped v c n \<in> set bs \<longrightarrow> \<not> covers m am s v n))"

lemma counters_below_max_clean:
  assumes "alm_rel m bs" and "alm_rel m' (clean bs)" and "counters_below_max m"
  shows "counters_below_max m'"
proof -
  have "list_all (\<lambda>e. e_counter e \<noteq> 0xFFFF) (layout i bs) \<Longrightarrow>
      list_all (\<lambda>e. e_counter e \<noteq> 0xFFFF) (layout i (clean bs))" for i
    by (induction i bs rule: layout.induct) (auto simp: list_all_iff)
  then show ?thesis using assms by (simp add: alm_rel_def counters_below_max_def)
qed

lemma not_found_no_place:
  assumes "alm_rel m bs" and "fits m sz"
    and "fst (bsearch m am (unat (alm_segments m addr sz)) 0 0 None bs) = None"
  shows "no_place m am (unat (alm_segments m addr sz)) bs"
proof -
  have "0 < unat (alm_segments m addr sz)"
    using assms(1,2) alm_segments_pos by (simp add: alm_rel_def fits_def)
  then show ?thesis
    using bsearch_complete [of m am "unat (alm_segments m addr sz)" 0 0 bs] assms(3)
    by (auto simp: no_place_def)
qed

text \<open>What a request returns on the row \<open>bs\<close>, with the state after it.\<close>

inductive add_post ::
  "plx_alm \<Rightarrow> u64 \<Rightarrow> u64 \<Rightarrow> alm_block list \<Rightarrow> (crash + (errno \<times> (u32 \<times> u32) option \<times> plx_alm)) option \<Rightarrow> bool"
  for m addr sz bs where
  add_placed: "add_post m addr sz bs (Some (Inr (rc, Some (of_nat i, alm_segments m addr sz), m')))"
  if "alm_rel m' bs'" "same_geometry m m'" "cs = bs \<or> cs = clean bs" "alm_rel mc cs"
    "placed m (addr AND NOT (alm_mask m)) (unat (alm_segments m addr sz)) rc i cs bs'"
| add_nomem: "add_post m addr sz bs (Some (Inr (ENOMEM, None, m')))"
  if "alm_rel m' (clean bs)" "same_geometry m m'"
    "no_place m (addr AND NOT (alm_mask m)) (unat (alm_segments m addr sz)) (clean bs)"

lemma add_clean:
  fixes addr sz :: u64
  assumes rel: "alm_rel m bs" and m1: "alm_rel m1 (clean bs)" "same_geometry m m1"
    and below: "counters_below_max m" and fit: "fits m sz"
  defines "am \<equiv> addr AND NOT (alm_mask m1)" and "s \<equiv> unat (alm_segments m1 addr sz)"
  shows "add_post m addr sz bs (plx_alm_add_entry (Suc d) m1 addr sz)"
proof -
  note geo = same_geometry_simps [OF m1(2)]
  have fit1: "fits m1 sz" using fit geo by simp
  have below1: "counters_below_max m1"
    using counters_below_max_clean [OF rel m1(1) below] .
  have np: "no_place m1 a k cs = no_place m a k cs" for a k cs
    using geo(6) by (simp add: no_place_def)
  have pl: "placed m1 a k rc i cs cs' = placed m a k rc i cs cs'" for a k rc i cs cs'
    using geo(1,6) by (simp add: placed_def)
  have trans: "same_geometry m1 m' \<Longrightarrow> same_geometry m m'" for m'
    using m1(2) by (simp add: same_geometry_def)
  show ?thesis
  proof (cases "fst (bsearch m1 am s 0 0 None (clean bs))")
    case (Some j)
    then obtain idx where "bsearch m1 am s 0 0 None (clean bs) = (Some j, idx)"
      by (metis prod.collapse)
    from add_found [OF m1(1) below1 fit1 this [unfolded am_def s_def], of d]
    obtain rc m' bs' where
      "plx_alm_add_entry (Suc d) m1 addr sz =
        Some (Inr (rc, Some (of_nat (j + idx), alm_segments m addr sz), m'))"
      "alm_rel m' bs'" "same_geometry m m'"
      "placed m (addr AND NOT (alm_mask m)) (unat (alm_segments m addr sz)) rc (j + idx) (clean bs) bs'"
      using geo(3,4) pl trans by auto
    then show ?thesis using add_placed [where cs = "clean bs"] m1(1) by force
  next
    case None
    have "no_place m (addr AND NOT (alm_mask m)) (unat (alm_segments m addr sz)) (clean bs)"
      using not_found_no_place [OF m1(1) fit1 None [unfolded s_def]] geo(3,4) np
      unfolding am_def by simp
    moreover have "clean (clean bs) = clean bs"
      using clean_unchanged clean_no_unused m1(1) by (auto simp: alm_rel_def)
    moreover obtain m' where "alm_rel m' (clean (clean bs))" "same_geometry m1 m'"
      "plx_alm_add_entry (Suc d) m1 addr sz = Some (Inr (ENOMEM, None, m'))"
      using add_not_found [OF m1(1) fit1 None [unfolded am_def s_def], of d] clean_no_unused
      by auto
    ultimately show ?thesis using add_nomem trans by simp
  qed
qed

lemma add_rel:
  fixes addr sz :: u64
  assumes rel: "alm_rel m bs" and below: "counters_below_max m" and fit: "fits m sz"
  defines "am \<equiv> addr AND NOT (alm_mask m)" and "s \<equiv> unat (alm_segments m addr sz)"
  shows "add_post m addr sz bs (plx_alm_add_entry (Suc (Suc d)) m addr sz)"
proof (cases "fst (bsearch m am s 0 0 None bs)")
  case (Some j)
  then obtain idx where "bsearch m am s 0 0 None bs = (Some j, idx)" by (metis prod.collapse)
  from add_found [OF rel below fit this [unfolded am_def s_def], of "Suc d"] show ?thesis
    using add_placed [where cs = bs] rel by force
next
  case None
  then obtain m1 where m1: "alm_rel m1 (clean bs)" "same_geometry m m1"
    and eq: "plx_alm_add_entry (Suc (Suc d)) m addr sz =
      (if filter unused bs = [] then Some (Inr (ENOMEM, None, m1))
       else plx_alm_add_entry (Suc d) m1 addr sz)"
    using add_not_found [OF rel fit, of addr "Suc d"] unfolding am_def s_def by auto
  show ?thesis
  proof (cases "filter unused bs = []")
    case True
    then have "clean bs = bs" using clean_unchanged rel by (auto simp: alm_rel_def)
    moreover have "no_place m am s bs"
      using not_found_no_place [OF rel fit, of am addr] None unfolding s_def by simp
    ultimately show ?thesis using eq True m1 add_nomem unfolding am_def s_def by simp
  next
    case False
    then have eq1: "plx_alm_add_entry (Suc (Suc d)) m addr sz = plx_alm_add_entry (Suc d) m1 addr sz"
      using eq by simp
    show ?thesis unfolding eq1 using add_clean [OF rel m1 below fit] .
  qed
qed

section \<open>Library: what a placed request maps\<close>

lemma aligned_div_mult:
  assumes "geometry_ok m" and "am AND (segment_size m - 1) = 0" "v AND (segment_size m - 1) = 0"
  shows "(am - v) div segment_size m * segment_size m = am - v"
proof -
  obtain k where k: "k < 64" "segment_size m = 2 ^ k" "unat (segment_size m) = 2 ^ k"
    using geometry_size [OF assms(1)] .
  have z: "x mod 2 ^ k = 0" if "x AND (segment_size m - 1) = 0" for x :: u64
    using that k(2) by (simp add: take_bit_eq_mask mask_eq_exp_minus_1 flip: take_bit_eq_mod)
  have "am = am div 2 ^ k * 2 ^ k" "v = v div 2 ^ k * 2 ^ k"
    using z [OF assms(2)] z [OF assms(3)] div_mult_mod_eq [of am "2 ^ k"]
      div_mult_mod_eq [of v "2 ^ k"] by simp_all
  then have "am - v = push_bit k (am div 2 ^ k - v div 2 ^ k)"
    by (metis left_diff_distrib push_bit_eq_mult)
  then have "take_bit k (am - v) = 0" by (simp add: take_bit_push_bit)
  then have "(am - v) mod segment_size m = 0" using k(2) by (simp add: take_bit_eq_mod)
  then show ?thesis using div_mult_mod_eq [of "am - v" "segment_size m"] by simp
qed

lemma placed_lookup:
  assumes pl: "placed m am s rc i cs bs'" and rel: "alm_rel mc cs" "alm_rel m' bs'"
    and geo: "same_geometry m m'" and am: "am AND (segment_size m - 1) = 0" and k: "k < s"
  shows "i + k < nsegs m \<and>
    (\<exists>c. alm_lookup m' (i + k) = Some (am + of_nat k * segment_size m, c) \<and> 2 \<le> unat c)"
proof -
  note g = same_geometry_simps [OF geo]
  from pl consider
    (new) p q where "bs' = p @ Mapped am 2 s # q" "i = blocks_len p"
  | (old) p v c n q where "cs = p @ Mapped v c n # q" "bs' = p @ Mapped v (c + 1) n # q"
      "covers m am s v n" "i = blocks_len p + unat ((am - v) div segment_size m)"
    unfolding placed_def by blast
  then show ?thesis
  proof cases
    case new
    then have "i + k < nsegs m'" using alm_rel_bounds [of m' p am 2 s q] rel(2) k by simp
    then show ?thesis
      using alm_lookup_blocks [OF rel(2)] new k g by simp
  next
    case old
    let ?d = "unat ((am - v) div segment_size m)"
    have b: "v AND (segment_size m - 1) = 0" "c + 1 \<noteq> 0" "c \<noteq> 0" "blocks_len p + n \<le> nsegs m"
      using alm_rel_bounds [of m' p v "c + 1" n q] alm_rel_bounds [of mc p v c n q] rel old(1,2) g
      by auto
    have dn: "?d + s \<le> n" using old(3) by (simp add: covers_def)
    have "geometry_ok m" using rel(2) g by (simp add: alm_rel_def geometry_ok_def)
    then have "of_nat ?d * segment_size m = am - v"
      using aligned_div_mult am b(1) by simp
    then have "v + of_nat (?d + k) * segment_size m = am + of_nat k * segment_size m"
      by (simp add: algebra_simps)
    moreover have "2 \<le> unat (c + 1)"
      using b(2,3) by (intro unat_ge_2) simp_all
    ultimately show ?thesis
      using alm_lookup_blocks [OF rel(2), of "i + k"] old(2,4) dn k b(4) g by (simp add: add.assoc)
  qed
qed

lemma placed_frame:
  assumes "placed m am s rc i cs bs'" and "alm_rel m' bs'" and "blookup cs j = Some (v, c, k)"
  shows "\<exists>c'. blookup bs' j = Some (v, c', k) \<and> unat c \<le> unat c'"
proof -
  have inc: "c + 1 \<noteq> (0 :: u16) \<Longrightarrow> unat c \<le> unat (c + 1)" for c
    by (simp add: unat_inc_nz)
  from assms(1) consider
    (new) p q where "cs = p @ replicate s FreeSeg @ q" "bs' = p @ Mapped am 2 s # q"
  | (old) p w d n q where "cs = p @ Mapped w d n # q" "bs' = p @ Mapped w (d + 1) n # q"
    unfolding placed_def by blast
  then show ?thesis
  proof cases
    case new
    then show ?thesis using assms(3) by (auto split: if_splits simp: diff_diff_eq)
  next
    case old
    then have "d + 1 \<noteq> 0" using alm_rel_bounds [of m' p w "d + 1" n q] assms(2) by simp
    then show ?thesis using old assms(3) inc by (auto split: if_splits)
  qed
qed

text \<open>A stretch of unmapped segments is a run of free blocks.\<close>

lemma run_of_lookups:
  assumes "list_all (block_ok ss) bs" and "i + Suc s \<le> blocks_len bs"
    and "\<And>j. j < Suc s \<Longrightarrow> blookup bs (i + j) = None"
  shows "\<exists>p q. bs = p @ replicate (Suc s) FreeSeg @ q \<and> blocks_len p = i"
  using assms(2,3)
proof (induction s)
  case 0
  then show ?case using blookup_NoneD [of bs i] by fastforce
next
  case (Suc s)
  then obtain p q where b: "bs = p @ replicate (Suc s) FreeSeg @ q" "blocks_len p = i"
    by fastforce
  have "blookup bs (i + Suc s) = None" using Suc.prems(2) by blast
  then have "blookup q 0 = None" using b by (simp del: replicate_Suc)
  moreover have "q \<noteq> []" using Suc.prems(1) b by auto
  ultimately obtain q' where "q = FreeSeg # q'"
    using assms(1) b(1) by (cases q rule: list.exhaust; cases "hd q") auto
  then have "bs = p @ replicate (Suc (Suc s)) FreeSeg @ q'"
    using b by (simp add: replicate_app_Cons_same)
  then show ?case using b by blast
qed

text \<open>The consistency check accepts every well formed table.\<close>

lemma check_blocks:
  assumes "alm_rel m (pre @ bs)"
  shows "plx_alm_check_from m (blocks_len pre)"
  using assms
proof (induction bs arbitrary: pre)
  case Nil
  then show ?case by (subst plx_alm_check_from.simps) (simp add: alm_rel_def)
next
  case (Cons b bs)
  have IH: "plx_alm_check_from m (blocks_len pre + block_len b)"
    using Cons.IH [of "pre @ [b]"] Cons.prems by simp
  have lt: "blocks_len pre < nsegs m"
    using Cons.prems by (cases b) (auto simp: alm_rel_def)
  show ?case
  proof (cases b)
    case FreeSeg
    then show ?thesis using entry_of_free [of m pre bs] Cons.prems IH lt
      by (subst plx_alm_check_from.simps) (simp add: Let_def)
  next
    case (Mapped v c n)
    note rel = Cons.prems [unfolded Mapped]
    note bnd = alm_rel_bounds [OF rel]
    have "unat (e_start (entries m ! j)) = blocks_len pre \<and> (j \<noteq> blocks_len pre \<longrightarrow>
        e_counter (entries m ! j) = 0 \<and> e_segments_count (entries m ! j) = 0)"
      if "j \<in> set [blocks_len pre..<blocks_len pre + n]" for j
      using entry_of_mapped [OF rel, of "j - blocks_len pre"] that bnd by (auto simp: unat_count)
    moreover have "entries m ! blocks_len pre = first_entry (blocks_len pre) v c n"
      using entry_of_mapped [OF rel bnd(3)] by simp
    ultimately show ?thesis
      using IH lt bnd Mapped
      by (subst plx_alm_check_from.simps) (simp add: Let_def unat_count list_all_iff)
  qed
qed

lemma check_ok: "alm_rel m bs \<Longrightarrow> plx_alm_check m = Inr ()"
  using check_blocks [of m "[]" bs] by (simp add: plx_alm_check_def)

section \<open>Properties of allocation\<close>

lemma alm_bad_size:
  assumes "\<not> fits m sz" and "segment_size m \<noteq> 0"
  shows "plx_alm_add_entry (Suc d) m addr sz = Some (Inr (ENOMEM, None, m))"
  using assms by (auto simp: fits_def Let_def word_neq_0_conv)

lemma add_post_cases:
  assumes "alm_rel m bs" and "counters_below_max m" and "2 \<le> depth"
  shows "\<not> fits m sz \<and> plx_alm_add_entry depth m addr sz = Some (Inr (ENOMEM, None, m))
    \<or> fits m sz \<and> add_post m addr sz bs (plx_alm_add_entry depth m addr sz)"
proof -
  obtain d where "depth = Suc (Suc d)"
    using assms(3) by (metis Suc_le_D numeral_2_eq_2 Suc_le_mono)
  then show ?thesis using add_rel [OF assms(1,2)] alm_bad_size alm_rel_size [OF assms(1)] by blast
qed

lemma request_aligned: "(addr AND NOT (alm_mask m)) AND (segment_size m - 1) = 0"
  by (metis alm_mask_def masked_aligned)

lemma request_bytes:
  assumes ok: "geometry_ok m" and fit: "fits m sz" and b: "b < unat sz"
    and f: "\<And>k. k < unat (alm_segments m addr sz) \<Longrightarrow>
      f (i + k) = Some ((addr AND NOT (alm_mask m)) + of_nat k * segment_size m)"
  shows "map_option (\<lambda>a. a + of_nat
        ((i * unat (segment_size m) + unat (addr AND alm_mask m) + b) mod unat (segment_size m)))
      (f ((i * unat (segment_size m) + unat (addr AND alm_mask m) + b) div unat (segment_size m)))
    = Some (addr + of_nat b)"
proof -
  let ?ss = "unat (segment_size m)" and ?off = "unat (addr AND alm_mask m)"
  have pos: "?ss \<noteq> 0" using geometry_pos [OF ok] by simp
  have "(?off + b) div ?ss < unat (alm_segments m addr sz)"
    using alm_segments_room [OF ok _ _ b] fit by (simp add: fits_def)
  note l = f [OF this]
  have q: "(i * ?ss + ?off + b) div ?ss = i + (?off + b) div ?ss"
    "(i * ?ss + ?off + b) mod ?ss = (?off + b) mod ?ss"
    using pos by (simp_all add: add.assoc)
  have "(?off + b) div ?ss * ?ss + (?off + b) mod ?ss = ?off + b"
    by (rule div_mult_mod_eq)
  then have "(of_nat ((?off + b) div ?ss * ?ss + (?off + b) mod ?ss) :: u64) = of_nat (?off + b)"
    by (rule arg_cong)
  then have "of_nat ((?off + b) div ?ss) * segment_size m + of_nat ((?off + b) mod ?ss)
      = (addr AND alm_mask m) + of_nat b" by (simp only: of_nat_add of_nat_mult of_nat_unat ucast_id)
  then have "(addr AND NOT (alm_mask m)) + of_nat ((?off + b) div ?ss) * segment_size m
      + of_nat ((?off + b) mod ?ss) = addr + of_nat b"
    by (simp only: add.assoc) (simp only: and_not_plus_and add.assoc [symmetric])
  then show ?thesis using l q by simp
qed

lemma placed_translate:
  assumes pl: "placed m (addr AND NOT (alm_mask m)) (unat (alm_segments m addr sz)) rc i cs bs'"
    and rel: "alm_rel mc cs" "alm_rel m' bs'" and geo: "same_geometry m m'"
    and fit: "fits m sz" and b: "b < unat sz"
  shows "alm_translate m' (i * unat (segment_size m) + unat (addr AND alm_mask m) + b)
    = Some (addr + of_nat b)"
proof -
  note g = same_geometry_simps [OF geo]
  have ok: "geometry_ok m" using rel(2) g by (simp add: alm_rel_def geometry_ok_def)
  have f: "map_option fst (alm_lookup m' (i + k)) =
      Some ((addr AND NOT (alm_mask m)) + of_nat k * segment_size m)"
    if "k < unat (alm_segments m addr sz)" for k
    using placed_lookup [OF pl rel geo request_aligned that] by auto
  show ?thesis
    using request_bytes [OF ok fit b, where f = "\<lambda>j. map_option fst (alm_lookup m' j)" and i = i] f g
    by (simp add: alm_translate_def option.map_comp comp_def case_prod_unfold)
qed

lemma placed_index:
  assumes "placed m am s rc i cs bs'" and "alm_rel mc cs" "alm_rel m' bs'" and "same_geometry m m'"
    and "am AND (segment_size m - 1) = 0" and "0 < s"
  shows "unat (of_nat i :: u32) = i"
proof -
  have "i < nsegs m" using placed_lookup [OF assms(1-5), of 0] assms(6) by simp
  moreover have "nsegs m \<le> 256"
    using assms(3,4) by (simp add: alm_rel_def geometry_ok_def same_geometry_def)
  ultimately show ?thesis by (intro unat_of_nat_small) simp
qed

text \<open>A small table for the examples: a mapping in use, a free segment, an unused mapping.\<close>

definition alm_example :: plx_alm where
  "alm_example = \<lparr>segments_num = 4, segment_size = 4096,
     entries = layout 0 [Mapped 0x10000 2 2, FreeSeg, Mapped 0x40000 1 1]\<rparr>"

lemma alm_example_rel: "alm_rel alm_example [Mapped 0x10000 2 2, FreeSeg, Mapped 0x40000 1 1]"
proof -
  have "\<exists>k<64. (4096 :: u64) = 2 ^ k" by (intro exI [of _ 12]) simp
  then show ?thesis by (simp add: alm_rel_def alm_example_def geometry_ok_def)
qed

lemma alm_example_ok: "alm_inv alm_example" "counters_below_max alm_example"
  using alm_example_rel
  by (auto simp: alm_inv_def counters_below_max_def) (simp add: alm_example_def)

text \<open>
  C1. A request for the peer range \<open>[addr, addr + size)\<close> always returns (with one nested call
  at most), keeps the table well formed, and reports either \<open>-ENOMEM\<close> or a place: through the
  segments it names, every byte of the aperture at the offset of \<open>addr\<close> translates to the
  byte of the peer range. The reference counters must not be at the largest 16 bit value.
\<close>

theorem plx_alm_add_entry_translates:
  assumes "alm_inv m" and "counters_below_max m" and "2 \<le> depth"
  shows "\<exists>rc out m'. plx_alm_add_entry depth m addr sz = Some (Inr (rc, out, m')) \<and> alm_inv m'
    \<and> (case out of
         None \<Rightarrow> rc = ENOMEM
       | Some (segment_id, segments) \<Rightarrow> rc \<in> {EOK, EEXIST} \<and>
           (\<forall>b < unat sz. alm_translate m'
              (unat segment_id * unat (segment_size m) + unat (addr AND alm_mask m) + b)
              = Some (addr + of_nat b)))"
proof -
  obtain bs where rel: "alm_rel m bs" using assms(1) by (auto simp: alm_inv_def)
  from add_post_cases [OF rel assms(2,3), of sz addr] show ?thesis
  proof (elim disjE conjE)
    assume "plx_alm_add_entry depth m addr sz = Some (Inr (ENOMEM, None, m))"
    then show ?thesis using assms(1) by simp
  next
    assume fit: "fits m sz" and "add_post m addr sz bs (plx_alm_add_entry depth m addr sz)"
    from this(2) show ?thesis
    proof cases
      case (add_placed m' bs' cs mc rc i)
      have "0 < unat (alm_segments m addr sz)"
        using rel fit alm_segments_pos by (simp add: alm_rel_def fits_def)
      with placed_index [OF add_placed(6,5,2,3) request_aligned]
      have "unat (of_nat i :: u32) = i" by simp
      moreover have "rc \<in> {EOK, EEXIST}" using add_placed(6) by (auto simp: placed_def)
      ultimately show ?thesis
        using add_placed(1,2) placed_translate [OF add_placed(6,5,2,3) fit]
        by (auto simp: alm_inv_def)
    next
      case (add_nomem m')
      then show ?thesis by (auto simp: alm_inv_def)
    qed
  qed
qed

theorem plx_alm_add_entry_translates_witness:
  "\<exists>rc out m'. plx_alm_add_entry 2 alm_example 0x77010 0x1800 = Some (Inr (rc, out, m')) \<and> alm_inv m'"
  using plx_alm_add_entry_translates [OF alm_example_ok, of 2 "0x77010" "0x1800"] by auto

lemma clean_lookup_used:
  assumes "blookup bs j = Some (v, c, k)" and "c \<noteq> 1" and "cs = bs \<or> cs = clean bs"
  shows "blookup cs j = Some (v, c, k)"
  using assms by (auto simp: blookup_clean)



text \<open>
  C24. \<open>-ENOMEM\<close> is only reported for a request of a valid size when, even counting the unused
  mappings as free, the aperture has no stretch of free segments of the needed length.
\<close>

theorem plx_alm_add_entry_enomem:
  assumes "alm_inv m" and "counters_below_max m" and "2 \<le> depth" and fit: "fits m sz"
    and add: "plx_alm_add_entry depth m addr sz = Some (Inr (rc, None, m'))"
    and i: "i + unat (alm_segments m addr sz) \<le> nsegs m"
  shows "\<exists>j < unat (alm_segments m addr sz). \<exists>a c. alm_lookup m (i + j) = Some (a, c) \<and> c \<noteq> 1"
proof (rule ccontr)
  assume no: "\<not> ?thesis"
  obtain bs where rel: "alm_rel m bs" using assms(1) by (auto simp: alm_inv_def)
  have ok: "list_all (block_ok (segment_size m)) (clean bs)" "blocks_len (clean bs) = nsegs m"
    and np: "\<not> has_run (unat (alm_segments m addr sz)) (clean bs)"
    using add_post_cases [OF rel assms(2,3), of sz addr] fit add
    by (auto elim!: add_post.cases simp: no_place_def alm_rel_def same_geometry_def)
  have "0 < unat (alm_segments m addr sz)"
    using rel fit alm_segments_pos by (simp add: alm_rel_def fits_def)
  then obtain s where s: "unat (alm_segments m addr sz) = Suc s" by (metis gr0_implies_Suc)
  have "blookup (clean bs) (i + j) = None" if "j < Suc s" for j
  proof -
    have "i + j < nsegs m" using that i s by simp
    then show ?thesis
      using no that s alm_lookup_blocks [OF rel, of "i + j"]
      by (auto simp: blookup_clean split: option.splits)
  qed
  then have "has_run (Suc s) (clean bs)"
    using run_of_lookups [OF ok(1), of i s] i s ok(2) by (auto simp: has_run_def)
  then show False using np s by simp
qed

lemma alm_example_full:
  "plx_alm_add_entry 2 alm_example 0x77010 0x2800 =
     Some (Inr (ENOMEM, None, alm_example\<lparr>entries := layout 0 [Mapped 0x10000 2 2, FreeSeg, FreeSeg]\<rparr>))"
  by code_simp

theorem plx_alm_add_entry_enomem_witness:
  "fits alm_example 0x2800 \<and> alm_segments alm_example 0x77010 0x2800 = 3
   \<and> (\<exists>j<3. \<exists>a c. alm_lookup alm_example (0 + j) = Some (a, c) \<and> c \<noteq> 1)"
proof -
  have f: "fits alm_example 0x2800" and s: "alm_segments alm_example 0x77010 0x2800 = 3"
    by (simp_all add: fits_def alm_segments_def DIV_ROUND_UP_def alm_mask_def alm_example_def)
  show ?thesis
    using plx_alm_add_entry_enomem [OF alm_example_ok _ f alm_example_full, of 0] f s
    by (simp add: alm_example_def)
qed

section \<open>Properties of release\<close>

text \<open>The start field tells the mapping of a segment.\<close>

lemma start_of_block:
  assumes "alm_rel m bs" and "j < nsegs m" and "blookup bs j = Some (v, c, k)"
  shows "unat (e_start (entries m ! j)) = j - k \<and> k \<le> j"
proof -
  obtain p n q where b: "bs = p @ Mapped v c n # q" "j = blocks_len p + k" "k < n"
    using blookup_SomeD [OF assms(3)] by blast
  note rel = assms(1) [unfolded b(1)]
  show ?thesis
    using entry_of_mapped [OF rel b(3)] alm_rel_bounds [OF rel] b by (auto simp: unat_count)
qed

lemma same_start_iff:
  assumes rel: "alm_rel m (p @ Mapped v c n # q)" and j: "j < nsegs m"
  shows "(e_start (entries m ! j) = of_nat (blocks_len p) \<and> alm_lookup m j \<noteq> None)
     = (blocks_len p \<le> j \<and> j < blocks_len p + n)"
proof (cases "blookup (p @ Mapped v c n # q) j")
  case None
  then show ?thesis using alm_lookup_blocks [OF rel j] by (auto split: if_splits)
next
  case (Some x)
  obtain v' c' k where x: "x = (v', c', k)" by (cases x)
  have st: "unat (e_start (entries m ! j)) = j - k" "k \<le> j"
    using start_of_block [OF rel j Some [unfolded x]] by auto
  have small: "blocks_len p < 2 ^ 16" using alm_rel_bounds [OF rel] by simp
  then have "(e_start (entries m ! j) = of_nat (blocks_len p)) = (j - k = blocks_len p)"
    using st by (subst word_eq_of_nat_iff) simp_all
  moreover have "(j - k = blocks_len p) = (blocks_len p \<le> j \<and> j < blocks_len p + n)"
  proof (cases "j < blocks_len p")
    case True
    then show ?thesis using Some x blookup_SomeD [of p j v' c' k] by auto
  next
    case False
    show ?thesis
    proof (cases "j < blocks_len p + n")
      case True
      then have "j - blocks_len p < n" using False by linarith
      then have "k = j - blocks_len p" using False Some x by auto
      then show ?thesis using True False by auto
    next
      case below: False
      then have "\<not> j - blocks_len p < n" using False by linarith
      then have "blookup q (j - blocks_len p - n) = Some (v', c', k)"
        using False Some x by auto
      then show ?thesis using blookup_SomeD [of q "j - blocks_len p - n" v' c' k] below
        alm_rel_bounds [OF rel] by auto
    qed
  qed
  ultimately show ?thesis using alm_lookup_blocks [OF rel j] Some x by auto
qed

lemma alm_example_values:
  "segments_num alm_example = 4"
  "alm_lookup alm_example 0 = Some (0x10000, 2)" "alm_lookup alm_example 1 = Some (0x11000, 2)"
  "alm_lookup alm_example (Suc 0) = Some (0x11000, 2)"
  "alm_lookup alm_example 2 = None" "alm_lookup alm_example 3 = Some (0x40000, 1)"
  "e_start (entries alm_example ! 0) = 0" "e_start (entries alm_example ! Suc 0) = 0"
  "e_start (entries alm_example ! 3) = 3" "(2 :: u16) \<noteq> 1"
  by code_simp+

text \<open>
  C25. Releasing a segment of a mapping drops one reference from all segments of that mapping
  and touches no other segment; the mapping disappears with its last reference, and only
  then the segments to clear in the bridge are reported.
\<close>

theorem plx_alm_del_entry_spec:
  assumes "alm_inv m" and i: "i < nsegs m" and l: "alm_lookup m i = Some (a, c)"
  shows "\<exists>out m'. plx_alm_del_entry m i = Inr (out, m') \<and> alm_inv m'
    \<and> out = (if c = 1 then Some (unat (e_start (entries m ! i)),
                unat (e_segments_count (entries m ! unat (e_start (entries m ! i))))) else None)
    \<and> (\<forall>j < nsegs m. alm_lookup m' j =
        (if e_start (entries m ! j) = e_start (entries m ! i) \<and> alm_lookup m j \<noteq> None
         then (if c = 1 then None else map_option (\<lambda>(a, c). (a, c - 1)) (alm_lookup m j))
         else alm_lookup m j))"
proof -
  obtain bs where rel: "alm_rel m bs" using assms(1) by (auto simp: alm_inv_def)
  obtain v k where "blookup bs i = Some (v, c, k)"
    using l by (auto simp: alm_lookup_blocks [OF rel i])
  then obtain p n q where b: "bs = p @ Mapped v c n # q" "i = blocks_len p + k" "k < n"
    using blookup_SomeD by blast
  note relb = rel [unfolded b(1)]
  note bnd = alm_rel_bounds [OF relb]
  have e: "entries m ! blocks_len p = first_entry (blocks_len p) v c n"
    using entry_of_mapped [OF relb bnd(3)] by simp
  have si: "e_start (entries m ! i) = of_nat (blocks_len p)"
    using entry_of_mapped [OF relb b(3)] b(2) by simp
  let ?bs' = "p @ (if c = 1 then replicate n FreeSeg else [Mapped v (c - 1) n]) @ q"
  obtain m' where d: "plx_alm_del_entry m i = Inr (if c = 1 then Some (blocks_len p, n) else None, m')"
    "alm_rel m' ?bs'" "segment_size m' = segment_size m" "segments_num m' = segments_num m"
    using del_mapped [OF relb b(3)] b(2) by auto
  have "alm_lookup m' j =
      (if blocks_len p \<le> j \<and> j < blocks_len p + n
       then (if c = 1 then None else map_option (\<lambda>(a, c). (a, c - 1)) (alm_lookup m j))
       else alm_lookup m j)" if "j < nsegs m" for j
    using alm_lookup_blocks [OF d(2), of j] alm_lookup_blocks [OF relb that] d(3,4) that
    by (auto simp: diff_diff_eq)
  then show ?thesis
    unfolding d(1) using d(2) same_start_iff [OF relb] bnd
    by (auto simp: si e unat_count alm_inv_def)
qed

theorem plx_alm_del_entry_spec_witness:
  "\<exists>out m'. plx_alm_del_entry alm_example 1 = Inr (out, m') \<and> alm_inv m' \<and> out = None
     \<and> alm_lookup m' 0 = Some (0x10000, 1) \<and> alm_lookup m' 3 = Some (0x40000, 1)"
proof -
  have "(1::nat) < nsegs alm_example" "alm_lookup alm_example 1 = Some (0x11000, 2)"
    by (simp_all add: alm_example_values)
  from plx_alm_del_entry_spec [OF alm_example_ok(1) this]
  obtain out m' where r: "plx_alm_del_entry alm_example 1 = Inr (out, m')" "alm_inv m'" "out = None"
    and l: "\<And>j. j < 4 \<Longrightarrow> alm_lookup m' j =
        (if e_start (entries alm_example ! j) = e_start (entries alm_example ! 1)
            \<and> alm_lookup alm_example j \<noteq> None
         then (if (2::u16) = 1 then None else map_option (\<lambda>(a, c). (a, c - 1)) (alm_lookup alm_example j))
         else alm_lookup alm_example j)"
    by (auto simp: alm_example_values(1))
  from l [of 0] l [of 3] r show ?thesis by (simp add: alm_example_values)
qed

text \<open>
  The clean-up frees exactly the mappings nobody uses (counter 1), keeps all others as
  they are, and returns how many it dropped.
\<close>

theorem plx_alm_cleanup_spec:
  assumes "alm_inv m"
  shows "\<exists>m'. plx_alm_cleanup_unused_entry m =
        Inr (length (filter (\<lambda>e. e_counter e = 1) (entries m)), m') \<and> alm_inv m'
    \<and> (\<forall>j < nsegs m. alm_lookup m' j =
        (case alm_lookup m j of
           None \<Rightarrow> None | Some (a, c) \<Rightarrow> if c = 1 then None else Some (a, c)))"
proof -
  obtain bs where rel: "alm_rel m bs" using assms(1) by (auto simp: alm_inv_def)
  obtain m' where c: "plx_alm_cleanup_unused_entry m = Inr (length (filter unused bs), m')"
    "alm_rel m' (clean bs)" "segment_size m' = segment_size m" "segments_num m' = segments_num m"
    using cleanup_rel [OF rel] by blast
  have "length (filter unused bs) = length (filter (\<lambda>e. e_counter e = 1) (layout i bs))" for i
    by (induction i bs rule: layout.induct) auto
  then have n: "length (filter unused bs) = length (filter (\<lambda>e. e_counter e = 1) (entries m))"
    using rel by (simp add: alm_rel_def)
  show ?thesis
    using c(1,2) n alm_lookup_blocks [OF rel] alm_lookup_blocks [OF c(2)] c(3,4)
    by (auto simp: alm_inv_def blookup_clean split: option.splits)
qed

theorem plx_alm_cleanup_spec_witness:
  "\<exists>m'. plx_alm_cleanup_unused_entry alm_example = Inr (1, m') \<and> alm_inv m'
     \<and> alm_lookup m' 1 = Some (0x11000, 2) \<and> alm_lookup m' 3 = None"
proof -
  have "length (filter (\<lambda>e. e_counter e = 1) (entries alm_example)) = 1" by code_simp
  then obtain m' where "plx_alm_cleanup_unused_entry alm_example = Inr (1, m')" "alm_inv m'"
    and l: "\<And>j. j < 4 \<Longrightarrow> alm_lookup m' j =
        (case alm_lookup alm_example j of
           None \<Rightarrow> None | Some (a, c) \<Rightarrow> if c = 1 then None else Some (a, c))"
    using plx_alm_cleanup_spec [OF alm_example_ok(1)] by (auto simp: alm_example_values)
  with l [of 1] l [of 3] show ?thesis by (simp add: alm_example_values)
qed

lemma alm_rel_unique:
  assumes "alm_rel m bs" and "alm_rel m' bs" and "same_geometry m m'"
  shows "m' = m"
  using assms unfolding alm_rel_def same_geometry_def by (intro plx_alm.equality) simp_all

lemma no_counter_1:
  assumes "list_all (\<lambda>e. e_counter e \<noteq> 1) (layout i bs)"
  shows "filter unused bs = []"
  using assms by (induction i bs rule: layout.induct) auto

lemma clean_append: "clean (p @ q) = clean p @ clean q"
  by (simp add: clean_def)

lemma clean_free: "clean (replicate n FreeSeg) = replicate n FreeSeg"
  by (induction n) simp_all

text \<open>Undoing a placed request: one release and a clean-up bring the old row back.\<close>

lemma placed_undo:
  assumes pl: "placed m am s rc i bs bs'" and rel: "alm_rel m bs" "alm_rel m1 bs'"
    and geo: "same_geometry m m1" and s: "0 < s" and clean: "filter unused bs = []"
  shows "\<exists>m2 nums. plx_alm_del_entry m1 i = Inr (None, m2)
    \<and> plx_alm_cleanup_unused_entry m2 = Inr (nums, m)"
proof -
  have cl: "clean bs = bs" using clean clean_unchanged rel(1) by (auto simp: alm_rel_def)
  from pl consider
    (new) p q where "bs = p @ replicate s FreeSeg @ q" "bs' = p @ Mapped am 2 s # q" "i = blocks_len p"
  | (old) p v c n q where "bs = p @ Mapped v c n # q" "bs' = p @ Mapped v (c + 1) n # q"
      "covers m am s v n" "i = blocks_len p + unat ((am - v) div segment_size m)"
    unfolding placed_def by blast
  then have "\<exists>p v c n k q. bs' = p @ Mapped v c n # q \<and> c \<noteq> 1 \<and> i = blocks_len p + k
    \<and> k < n \<and> clean (p @ [Mapped v (c - 1) n] @ q) = bs"
  proof cases
    case new
    have "clean (p @ [Mapped am (2 - 1) s] @ q) = clean bs"
      using new(1) by (simp add: clean_append clean_free)
    then show ?thesis using new(2,3) s cl
      by (intro exI [of _ p] exI [of _ am] exI [of _ 2] exI [of _ s] exI [of _ 0] exI [of _ q]) simp
  next
    case old
    have "c \<noteq> 0" using alm_rel_bounds [of m p v c n q] rel(1) old(1) by simp
    moreover have "unat ((am - v) div segment_size m) < n" using old(3) s by (simp add: covers_def)
    moreover have "clean (p @ [Mapped v (c + 1 - 1) n] @ q) = bs" using old(1) cl by simp
    ultimately show ?thesis using old(2,4)
      by (intro exI [of _ p] exI [of _ v] exI [of _ "c + 1"] exI [of _ n]
          exI [of _ "unat ((am - v) div segment_size m)"] exI [of _ q]) simp
  qed
  then obtain p v c n k q where b: "bs' = p @ Mapped v c n # q" "c \<noteq> 1" "i = blocks_len p + k"
    "k < n" "clean (p @ [Mapped v (c - 1) n] @ q) = bs" by blast
  obtain m2 where d: "plx_alm_del_entry m1 i = Inr (None, m2)"
    "alm_rel m2 (p @ [Mapped v (c - 1) n] @ q)" "same_geometry m1 m2"
    using del_mapped [of m1 p v c n q k] rel(2) b by (auto simp: same_geometry_def)
  obtain nums m3 where c: "plx_alm_cleanup_unused_entry m2 = Inr (nums, m3)" "alm_rel m3 bs"
    "same_geometry m2 m3"
    using cleanup_rel [OF d(2)] b(5) by (auto simp: same_geometry_def)
  have "m3 = m"
    using alm_rel_unique [OF rel(1) c(2)] geo d(3) c(3) by (simp add: same_geometry_def)
  then show ?thesis using d(1) c(1) by blast
qed


definition alm_fresh :: plx_alm where
  "alm_fresh = \<lparr>segments_num = 4, segment_size = 4096, entries = replicate 4 zero_entry\<rparr>"

lemma alm_fresh_ok:
  "alm_inv alm_fresh" "counters_below_max alm_fresh"
  "list_all (\<lambda>e. e_counter e \<noteq> 1) (entries alm_fresh)"
proof -
  have "\<exists>k<64. (4096 :: u64) = 2 ^ k" by (intro exI [of _ 12]) simp
  then have "alm_rel alm_fresh (replicate 4 FreeSeg)"
    by (simp add: alm_rel_def alm_fresh_def geometry_ok_def)
  then show "alm_inv alm_fresh" by (auto simp: alm_inv_def)
qed (code_simp+)


section \<open>Start of the table, and the limit of the reference counter\<close>

lemma init_geometry:
  assumes "num_ntbs \<in> {1, 2}" and "8 \<le> k" and "k < 64"
    and m: "m = \<lparr>segments_num = of_nat (256 div num_ntbs),
      segment_size = 2 ^ k div ucast (of_nat (256 div num_ntbs) :: u32), entries = es\<rparr>"
  shows "geometry_ok m"
proof -
  have "256 div num_ntbs = (2 :: nat) ^ 8 \<or> 256 div num_ntbs = (2 :: nat) ^ 7"
    using assms(1) by auto
  then obtain j where j: "j \<in> {7, 8}" "256 div num_ntbs = (2 :: nat) ^ j" by blast
  then have ss: "segment_size m = 2 ^ (k - j)" and n: "nsegs m = 2 ^ j"
    using m word_pow2_div [of j k, where 'a = 64] assms(2,3) by auto
  have u: "unat (segment_size m) = 2 ^ (k - j)"
    using unat_pow2 [of "k - j", where 'a = 64] ss assms(3) by simp
  have "(2 :: nat) ^ (k - j) * (2 ^ j + 2) = 2 ^ k + 2 ^ (k - j + 1)"
    using j(1) assms(2) by (auto simp: distrib_left simp flip: power_add)
  also have "\<dots> < 2 ^ k + 2 ^ k"
    using j(1) assms(2) by (intro add_strict_left_mono power_strict_increasing) auto
  also have "\<dots> \<le> 2 ^ 64"
    using power_increasing [of "Suc k" 64 "2 :: nat"] assms(3) by simp
  finally have "unat (segment_size m) * (nsegs m + 2) < 2 ^ 64" using u n by simp
  moreover have "\<exists>i<64. segment_size m = 2 ^ i" using ss assms(3) by (intro exI [of _ "k - j"]) simp
  moreover have "0 < nsegs m" "nsegs m \<le> 256" using n j(1) by auto
  ultimately show ?thesis unfolding geometry_ok_def by blast
qed

lemma alm_init_ok:
  assumes "num_ntbs \<in> {1, 2}" and "8 \<le> k" and "k < 64"
  shows "\<exists>m. plx_alm_init True num_ntbs (2 ^ k) = Inr (EOK, m) \<and> alm_inv m
    \<and> counters_below_max m \<and> nsegs m = 256 div num_ntbs \<and> (\<forall>j < nsegs m. alm_lookup m j = None)"
proof -
  let ?n = "256 div num_ntbs"
  let ?m = "\<lparr>segments_num = of_nat ?n, segment_size = 2 ^ k div ucast (of_nat ?n :: u32),
    entries = replicate (unat (of_nat ?n :: u32)) zero_entry\<rparr>"
  have "unat (of_nat ?n :: u32) = ?n" using assms(1) by auto
  then have rel: "alm_rel ?m (replicate ?n FreeSeg)"
    using init_geometry [OF assms refl] by (simp add: alm_rel_def)
  then have "alm_lookup ?m j = None" if "j < nsegs ?m" for j
    using alm_lookup_blocks [OF rel that] by simp
  moreover have "counters_below_max ?m" by (simp add: counters_below_max_def list_all_iff)
  ultimately show ?thesis
    using rel check_ok [OF rel] assms(1) by (auto simp: plx_alm_init_def Let_def alm_inv_def)
qed

text \<open>
  \<open>plx_alm_init\<close> builds a well formed table in which nothing is mapped, for one or two
  NTBs and an aperture whose length is a power of two of at least 256 bytes; when the
  allocation of the table fails, the consistency check that runs all the same reads through
  the null pointer, so the error is never returned.
\<close>

theorem plx_alm_init_spec:
  assumes "num_ntbs \<in> {1, 2}" and "8 \<le> k" and "k < 64"
  shows "(\<exists>m. plx_alm_init True num_ntbs (2 ^ k) = Inr (EOK, m) \<and> alm_inv m
      \<and> counters_below_max m \<and> (\<forall>j < nsegs m. alm_lookup m j = None))
    \<and> plx_alm_init False num_ntbs (2 ^ k) = Inl NULL_DEREF"
  using alm_init_ok [OF assms] assms(1) by (auto simp: plx_alm_init_def Let_def)

theorem plx_alm_init_spec_witness:
  "(\<exists>m. plx_alm_init True 2 (2 ^ 20) = Inr (EOK, m) \<and> alm_inv m)
   \<and> plx_alm_init False 2 (2 ^ 20) = Inl NULL_DEREF"
  using plx_alm_init_spec [of 2 20] by auto

text \<open>The same request made over and over.\<close>

fun add_times :: "nat \<Rightarrow> plx_alm \<Rightarrow> u64 \<Rightarrow> u64 \<Rightarrow> plx_alm option" where
  "add_times 0 m addr sz = Some m"
| "add_times (Suc k) m addr sz =
     (case plx_alm_add_entry 2 m addr sz of
        Some (Inr (rc, Some place, m')) \<Rightarrow> add_times k m' addr sz
      | _ \<Rightarrow> None)"

lemma add_times_add:
  "add_times (j + k) m addr sz = Option.bind (add_times j m addr sz) (\<lambda>m'. add_times k m' addr sz)"
  by (induction j arbitrary: m) (auto split: option.splits sum.splits prod.splits)

lemma add_first_block:
  assumes rel: "alm_rel m (Mapped (addr AND NOT (alm_mask m)) c (unat (alm_segments m addr sz)) # q)"
    and fit: "fits m sz"
  shows "plx_alm_add_entry 2 m addr sz =
    (let (rc, m') = alm_commit m (addr AND NOT (alm_mask m)) (unat (alm_segments m addr sz)) 0
     in Some (Inr (rc, Some (0, alm_segments m addr sz), m')))"
proof -
  have "0 < nsegs m" using rel by (simp add: alm_rel_def geometry_ok_def)
  then have "covers m (addr AND NOT (alm_mask m)) (unat (alm_segments m addr sz))
      (addr AND NOT (alm_mask m)) (unat (alm_segments m addr sz))" by (simp add: covers_def)
  then show ?thesis
    using fit alm_rel_size [OF rel]
    by (auto simp: numeral_2_eq_2 Let_def fits_def alm_search_blocks [OF rel] not_less)
qed

lemma bsearch_after_match:
  "bsearch m am s i f (Some j) (replicate n FreeSeg) = (Some j, 0)"
  by (induction n arbitrary: i) simp_all

lemma bsearch_all_free:
  "0 < s \<Longrightarrow> f < s \<Longrightarrow> s \<le> f + n \<Longrightarrow>
   bsearch m am s (i + f) f None (replicate n FreeSeg) = (Some i, 0)"
proof (induction n arbitrary: f)
  case (Suc n)
  then show ?case using Suc.IH [of "Suc f"] by (auto simp: bsearch_after_match)
qed simp

lemma placed_all_free:
  assumes "placed m am s rc 0 (replicate n FreeSeg) bs'" and "0 < s"
  shows "rc = EOK \<and> bs' = Mapped am 2 s # replicate (n - s) FreeSeg"
proof -
  have "Mapped v c k \<notin> set (replicate n FreeSeg)" for v c k by simp
  then have "\<not> replicate n FreeSeg = p @ Mapped v c k # q" for p v c k q
    by (metis in_set_conv_decomp)
  then obtain p q where b: "replicate n FreeSeg = p @ replicate s FreeSeg @ q"
    "bs' = p @ Mapped am 2 s # q" "rc = EOK" "blocks_len p = 0"
    using assms(1) by (auto simp: placed_def)
  have "length p = blocks_len p"
    using b(1) by (metis append_eq_conv_conj blocks_len_simps(4) length_replicate take_replicate)
  then have "p = []" using b(4) by simp
  moreover from this b(1) have "q = replicate (n - s) FreeSeg"
    by (metis append_Nil append_eq_conv_conj drop_replicate length_replicate)
  ultimately show ?thesis using b by simp
qed

lemma add_times_counts:
  assumes "alm_rel m (Mapped (addr AND NOT (alm_mask m)) c (unat (alm_segments m addr sz)) # q)"
    and "fits m sz" and "unat c + k < 2 ^ 16"
  shows "\<exists>m'. add_times k m addr sz = Some m' \<and> same_geometry m m' \<and>
     alm_rel m' (Mapped (addr AND NOT (alm_mask m)) (c + of_nat k) (unat (alm_segments m addr sz)) # q)"
  using assms
proof (induction k arbitrary: m c)
  case 0
  then show ?case by (simp add: same_geometry_def)
next
  case (Suc k)
  let ?am = "addr AND NOT (alm_mask m)" and ?s = "unat (alm_segments m addr sz)"
  have c: "c \<noteq> 0xFFFF" using Suc.prems(3) by auto
  obtain m1 where m1: "alm_commit m ?am ?s 0 = (EEXIST, m1)" "alm_rel m1 (Mapped ?am (c + 1) ?s # q)"
    "same_geometry m m1"
    using commit_covered [of m "[]" ?am c ?s q ?am ?s] Suc.prems(1) c by (auto simp: same_geometry_def)
  note g = same_geometry_simps [OF m1(3)]
  have "unat (c + 1) = unat c + 1" using Suc.prems(3) by (intro unat_inc) simp
  with Suc.IH [of m1 "c + 1"] m1(2) g Suc.prems(2,3) obtain m' where
    "add_times k m1 addr sz = Some m'" "same_geometry m1 m'"
    "alm_rel m' (Mapped ?am (c + 1 + of_nat k) ?s # q)" by auto
  then show ?case
    using add_first_block [OF Suc.prems(1,2)] m1(1) g by (auto simp: same_geometry_def add.assoc)
qed

lemma add_at_max:
  assumes "alm_rel m (Mapped (addr AND NOT (alm_mask m)) 0xFFFF (unat (alm_segments m addr sz)) # q)"
    and "fits m sz"
  shows "\<exists>m'. add_times 1 m addr sz = Some m' \<and> plx_alm_check m' = Inl BUG"
proof -
  let ?am = "addr AND NOT (alm_mask m)" and ?s = "unat (alm_segments m addr sz)"
  obtain t where es: "entries m = first_entry 0 ?am 0xFFFF ?s # t"
    and "0 < ?s" "0 < nsegs m" "?s \<le> 256"
    using assms(1) by (auto simp: alm_rel_def geometry_ok_def)
  let ?m = "m\<lparr>entries := first_entry 0 ?am 0 ?s # t\<rparr>"
  have "(of_nat ?s :: u16) \<noteq> 0"
    using \<open>0 < ?s\<close> \<open>?s \<le> 256\<close> by (metis gr_implies_not0 unat_0 unat_count)
  with \<open>0 < nsegs m\<close> have "\<not> plx_alm_check_from ?m 0"
    by (subst plx_alm_check_from.simps) simp
  moreover have "alm_commit m ?am ?s 0 = (EEXIST, ?m)"
    by (simp add: alm_commit_def Let_def es first_entry_def)
  ultimately show ?thesis
    using add_first_block [OF assms] by (simp add: plx_alm_check_def)
qed

text \<open>
  C26. The reference counter has 16 bits and \<open>plx_alm_add_entry\<close> increments it without a
  test. From a table in which nothing is mapped, 65535 requests for the same range all
  succeed, and the last one wraps the counter to 0 and leaves a table that the driver's own
  consistency check rejects with \<open>BUG\<close>; up to 65534 requests the table stays well formed.
\<close>

theorem plx_alm_counter_wraps:
  assumes free: "entries m = replicate (nsegs m) zero_entry" and "geometry_ok m" and "fits m sz"
    and "unat (alm_segments m addr sz) \<le> nsegs m"
  shows "(\<forall>k \<le> 65534. \<exists>m'. add_times k m addr sz = Some m' \<and> plx_alm_check m' = Inr ())
    \<and> (\<exists>m'. add_times 65535 m addr sz = Some m' \<and> plx_alm_check m' = Inl BUG)"
proof -
  let ?am = "addr AND NOT (alm_mask m)" and ?s = "unat (alm_segments m addr sz)"
  have rel: "alm_rel m (replicate (nsegs m) FreeSeg)"
    using assms(1,2) by (simp add: alm_rel_def)
  have s: "0 < ?s" using alm_segments_pos assms(2,3) by (simp add: fits_def)
  have "counters_below_max m" using free by (simp add: counters_below_max_def list_all_iff)
  moreover have "bsearch m ?am ?s 0 0 None (replicate (nsegs m) FreeSeg) = (Some 0, 0)"
    using bsearch_all_free [OF s s, of "nsegs m" m ?am 0] assms(4) by simp
  ultimately obtain m1 where m1: "plx_alm_add_entry 2 m addr sz =
      Some (Inr (EOK, Some (0, alm_segments m addr sz), m1))" "same_geometry m m1"
    "alm_rel m1 (Mapped ?am 2 ?s # replicate (nsegs m - ?s) FreeSeg)"
    using add_found [OF rel _ assms(3), of addr 0 0 1] placed_all_free [OF _ s]
    by (fastforce simp: numeral_2_eq_2)
  note g = same_geometry_simps [OF m1(2)]
  have step: "\<exists>m'. add_times (Suc k) m addr sz = Some m' \<and> same_geometry m m' \<and>
     alm_rel m' (Mapped ?am (2 + of_nat k) ?s # replicate (nsegs m - ?s) FreeSeg)" if "k \<le> 65533" for k
    using add_times_counts [of m1 addr 2 sz _ k] m1 g assms(3) that by (auto simp: same_geometry_def)
  have "\<exists>m'. add_times k m addr sz = Some m' \<and> plx_alm_check m' = Inr ()" if "k \<le> 65534" for k
  proof (cases k)
    case 0
    then show ?thesis using check_ok [OF rel] by simp
  next
    case (Suc k')
    then have "k' \<le> 65533" using that by simp
    then show ?thesis using step [of k'] check_ok Suc by blast
  qed
  moreover obtain m2 where m2: "add_times (Suc 65533) m addr sz = Some m2" "same_geometry m m2"
    "alm_rel m2 (Mapped ?am 0xFFFF ?s # replicate (nsegs m - ?s) FreeSeg)"
    using step [of 65533] by auto
  have "\<exists>m'. add_times 1 m2 addr sz = Some m' \<and> plx_alm_check m' = Inl BUG"
    using add_at_max [of m2 addr sz] m2(2,3) same_geometry_simps [OF m2(2)] assms(3) by simp
  then have "\<exists>m'. add_times (Suc 65533 + 1) m addr sz = Some m' \<and> plx_alm_check m' = Inl BUG"
    using m2(1) by (simp only: add_times_add bind.simps)
  ultimately show ?thesis by simp
qed

theorem plx_alm_counter_wraps_witness:
  "\<exists>m'. add_times 65535 alm_fresh 0x77010 0x1800 = Some m' \<and> plx_alm_check m' = Inl BUG"
proof -
  have "\<exists>k<64. (4096 :: u64) = 2 ^ k" by (intro exI [of _ 12]) simp
  then have "geometry_ok alm_fresh" by (simp add: alm_fresh_def geometry_ok_def)
  moreover have "entries alm_fresh = replicate (nsegs alm_fresh) zero_entry" "fits alm_fresh 0x1800"
    "unat (alm_segments alm_fresh 0x77010 0x1800) \<le> nsegs alm_fresh"
    by (simp_all add: alm_fresh_def fits_def alm_segments_def DIV_ROUND_UP_def alm_mask_def)
  ultimately show ?thesis using plx_alm_counter_wraps [of alm_fresh "0x1800" "0x77010"] by blast
qed

section \<open>The manager as a provider of segments\<close>

text \<open>The laws of the interface \<open>lut_manager\<close>, from the description by blocks.\<close>

lemma contract_cases:
  assumes "alm_inv m" and "counters_below_max m"
  obtains (bad) "plx_alm_add_entry (nsegs m + 2) m addr sz = Some (Inr (ENOMEM, None, m))"
  | (nomem) bs m' where "alm_rel m bs" "alm_rel m' (clean bs)" "same_geometry m m'"
      "plx_alm_add_entry (nsegs m + 2) m addr sz = Some (Inr (ENOMEM, None, m'))"
  | (ok) bs cs mc bs' m' rc i where "alm_rel m bs" "alm_rel m' bs'" "same_geometry m m'"
      "cs = bs \<or> cs = clean bs" "alm_rel mc cs" "fits m sz" "0 < unat (alm_segments m addr sz)"
      "placed m (addr AND NOT (alm_mask m)) (unat (alm_segments m addr sz)) rc i cs bs'"
      "unat (of_nat i :: u32) = i"
      "plx_alm_add_entry (nsegs m + 2) m addr sz =
         Some (Inr (rc, Some (of_nat i, alm_segments m addr sz), m'))"
proof -
  obtain bs where rel: "alm_rel m bs" using assms(1) by (auto simp: alm_inv_def)
  have "2 \<le> nsegs m + 2" by simp
  from add_post_cases [OF rel assms(2) this, of sz addr] show thesis
  proof (elim disjE conjE)
    assume "plx_alm_add_entry (nsegs m + 2) m addr sz = Some (Inr (ENOMEM, None, m))"
    then show thesis by (rule bad)
  next
    assume fit: "fits m sz"
      and "add_post m addr sz bs (plx_alm_add_entry (nsegs m + 2) m addr sz)"
    from this(2) show thesis
    proof cases
      case (add_placed m' bs' cs mc rc i)
      have s: "0 < unat (alm_segments m addr sz)"
        using rel fit alm_segments_pos by (simp add: alm_rel_def fits_def)
      show thesis
        using ok [OF rel add_placed(2,3,4,5) fit s add_placed(6)
            placed_index [OF add_placed(6,5,2,3) request_aligned s] add_placed(1)] .
    next
      case (add_nomem m')
      then show thesis using nomem [OF rel add_nomem(2,3,1)] by blast
    qed
  qed
qed

lemma placed_other:
  assumes "placed m am s rc i cs bs'" and "blookup bs' j = Some (v, c', k)"
    and "rc = EEXIST \<or> j < i \<or> i + s \<le> j"
  shows "\<exists>c. blookup cs j = Some (v, c, k)"
  using assms unfolding placed_def
  by (elim disjE conjE exE) (auto split: if_splits simp: diff_diff_eq)

lemma clean_lookup_sub:
  assumes "blookup cs j = Some (v, c, k)" and "cs = bs \<or> cs = clean bs"
  shows "blookup bs j = Some (v, c, k)"
  using assms by (auto simp: blookup_clean split: option.splits if_splits)

lemma alm_add_returns:
  assumes "alm_inv m" and "counters_below_max m"
  shows "\<exists>rc out m'. plx_alm_add_entry (nsegs m + 2) m addr sz = Some (Inr (rc, out, m'))
    \<and> alm_inv m' \<and> nsegs m' = nsegs m \<and> segment_size m' = segment_size m
    \<and> (out = None \<longrightarrow> rc = ENOMEM)"
  by (rule contract_cases [OF assms, of addr sz])
    (use assms(1) in \<open>auto simp: alm_inv_def same_geometry_def\<close>)

lemma alm_add_fails:
  assumes "alm_inv m" and "counters_below_max m"
    and add: "plx_alm_add_entry (nsegs m + 2) m addr sz = Some (Inr (rc, None, m'))"
    and j: "j < nsegs m" and l: "alm_lookup m' j = Some (a, c)"
  shows "alm_lookup m j = Some (a, c)"
proof (cases rule: contract_cases [OF assms(1,2), of addr sz, case_names bad nomem ok])
  case bad
  then show ?thesis using add l by simp
next
  case (nomem bs m1)
  then have m1: "m1 = m'" using add by simp
  note g = same_geometry_simps [OF nomem(3)]
  show ?thesis
    using l alm_lookup_blocks [OF nomem(1) j] alm_lookup_blocks [OF nomem(2), of j] j g m1
    by (auto simp: blookup_clean split: option.splits if_splits)
next
  case (ok bs cs mc bs' m1 rc1 i)
  then show ?thesis using add by simp
qed

lemma alm_add_maps:
  assumes "alm_inv m" and "counters_below_max m"
    and add: "plx_alm_add_entry (nsegs m + 2) m addr sz = Some (Inr (rc, Some (sid, n), m'))"
  shows "rc \<in> {EOK, EEXIST} \<and> 0 < unat n \<and> unat sid + unat n \<le> nsegs m \<and>
    (\<forall>k < unat n. \<exists>c. alm_lookup m' (unat sid + k) =
       Some ((addr AND NOT (alm_mask m)) + of_nat k * segment_size m, c))"
proof (cases rule: contract_cases [OF assms(1,2), of addr sz, case_names bad nomem ok])
  case (ok bs cs mc bs' m1 rc1 i)
  then have e: "m1 = m'" "rc1 = rc" "sid = of_nat i" "n = alm_segments m addr sz" using add by auto
  note look = placed_lookup [OF ok(8,5,2,3) request_aligned]
  have "unat n - 1 < unat n" using ok(7) e by simp
  then have "i + (unat n - 1) < nsegs m" using look [of "unat n - 1"] e by simp
  then have "i + unat n \<le> nsegs m" using ok(7) e by linarith
  moreover have "rc \<in> {EOK, EEXIST}" using ok(8) e by (auto simp: placed_def)
  ultimately show ?thesis using look e ok(7,9) by fastforce
qed (use add in simp_all)

lemma alm_add_keeps:
  assumes "alm_inv m" and "counters_below_max m"
    and add: "plx_alm_add_entry (nsegs m + 2) m addr sz = Some (Inr (rc, Some (sid, n), m'))"
    and j: "j < nsegs m" and l: "alm_lookup m' j = Some (a, c')"
    and other: "rc = EEXIST \<or> j < unat sid \<or> unat sid + unat n \<le> j"
  shows "\<exists>c. alm_lookup m j = Some (a, c)"
proof (cases rule: contract_cases [OF assms(1,2), of addr sz, case_names bad nomem ok])
  case (ok bs cs mc bs' m1 rc1 i)
  then have e: "m1 = m'" "rc1 = rc" "unat sid = i" "n = alm_segments m addr sz" using add by auto
  note g = same_geometry_simps [OF ok(3)]
  obtain v k where v: "blookup bs' j = Some (v, c', k)" "a = v + of_nat k * segment_size m"
    using l alm_lookup_blocks [OF ok(2), of j] j g e by (auto simp: map_option_case split: option.splits)
  obtain c where "blookup cs j = Some (v, c, k)"
    using placed_other [OF ok(8) v(1)] other e by auto
  then have "blookup bs j = Some (v, c, k)" using clean_lookup_sub ok(4) by blast
  then show ?thesis using alm_lookup_blocks [OF ok(1) j] v(2) by simp
qed (use add in simp_all)

lemma alm_del_cases:
  assumes "alm_inv m" and i: "i < nsegs m" and "alm_lookup m i \<noteq> None"
  obtains p v c n q m' where "alm_rel m (p @ Mapped v c n # q)"
    "alm_rel m' (p @ (if c = 1 then replicate n FreeSeg else [Mapped v (c - 1) n]) @ q)"
    "same_geometry m m'"
    "plx_alm_del_entry m i = Inr (if c = 1 then Some (blocks_len p, n) else None, m')"
proof -
  obtain bs where rel: "alm_rel m bs" using assms(1) by (auto simp: alm_inv_def)
  obtain v c k where "blookup bs i = Some (v, c, k)"
    using assms(3) by (auto simp: alm_lookup_blocks [OF rel i])
  then obtain p n q where b: "bs = p @ Mapped v c n # q" "i = blocks_len p + k" "k < n"
    using blookup_SomeD by blast
  obtain m' where "alm_rel m' (p @ (if c = 1 then replicate n FreeSeg else [Mapped v (c - 1) n]) @ q)"
    "same_geometry m m'"
    "plx_alm_del_entry m i = Inr (if c = 1 then Some (blocks_len p, n) else None, m')"
    using del_mapped [OF rel [unfolded b(1)] b(3)] b(2) by (auto simp: same_geometry_def)
  then show thesis using that rel b(1) by blast
qed

lemma alm_del_returns:
  assumes "alm_inv m" and "i < nsegs m" and "alm_lookup m i \<noteq> None"
  shows "\<exists>out m'. plx_alm_del_entry m i = Inr (out, m') \<and> alm_inv m' \<and> nsegs m' = nsegs m
    \<and> segment_size m' = segment_size m"
  by (rule alm_del_cases [OF assms]) (unfold alm_inv_def same_geometry_def, auto)

lemma alm_del_keeps:
  assumes "alm_inv m" and "i < nsegs m" and "alm_lookup m i \<noteq> None"
    and del: "plx_alm_del_entry m i = Inr (out, m')" and j: "j < nsegs m"
    and l: "alm_lookup m' j = Some (a, c')"
  shows "(\<exists>c. alm_lookup m j = Some (a, c)) \<and> (\<forall>s n. out = Some (s, n) \<longrightarrow> j < s \<or> s + n \<le> j)"
proof (rule alm_del_cases [OF assms(1-3)])
  fix p v c n q m1
  let ?q = "p @ (if c = 1 then replicate n FreeSeg else [Mapped v (c - 1) n]) @ q"
  assume rel: "alm_rel m (p @ Mapped v c n # q)" "alm_rel m1 ?q" and geo: "same_geometry m m1"
    and d: "plx_alm_del_entry m i = Inr (if c = 1 then Some (blocks_len p, n) else None, m1)"
  have m1: "m1 = m'" "out = (if c = 1 then Some (blocks_len p, n) else None)" using d del by auto
  note g = same_geometry_simps [OF geo]
  obtain w k where w: "blookup ?q j = Some (w, c', k)" "a = w + of_nat k * segment_size m"
    using l alm_lookup_blocks [OF rel(2), of j] j g m1(1)
    by (auto simp: map_option_case split: option.splits)
  have "(\<exists>c. blookup (p @ Mapped v c n # q) j = Some (w, c, k))
      \<and> (c = 1 \<longrightarrow> j < blocks_len p \<or> blocks_len p + n \<le> j)"
    using w(1) by (auto split: if_splits simp: diff_diff_eq)
  then show ?thesis
    using alm_lookup_blocks [OF rel(1) j] w m1(2)
    by (auto split: if_splits simp: diff_diff_eq)
qed

interpretation alm: lut_manager alm_inv counters_below_max nsegs segment_size
  "\<lambda>m addr. addr AND NOT (alm_mask m)" alm_lookup
  "\<lambda>m. plx_alm_add_entry (nsegs m + 2) m" plx_alm_del_entry
  by unfold_locales
    (erule (1) alm_add_returns | erule (4) alm_add_fails | erule (2) alm_add_maps
      | erule (5) alm_add_keeps | erule (2) alm_del_returns | erule (5) alm_del_keeps)+

text \<open>A request and the release of its segment leave the counters as far from their end.\<close>

fun row_below_max :: "alm_block \<Rightarrow> bool" where
  "row_below_max FreeSeg = True"
| "row_below_max (Mapped v c n) = (c \<noteq> 0xFFFF)"

lemma counters_below_max_rows:
  assumes "alm_rel m bs"
  shows "counters_below_max m = list_all row_below_max bs"
proof -
  have "list_all (\<lambda>e. e_counter e \<noteq> 0xFFFF) (layout i bs) = list_all row_below_max bs" for i
    by (induction i bs rule: layout.induct) (auto simp: list_all_iff first_entry_def inner_entry_def zero_entry_def)
  then show ?thesis using assms by (simp add: alm_rel_def counters_below_max_def)
qed

lemma alm_add_del_room:
  assumes inv: "alm_inv m" and room: "counters_below_max m"
    and add: "plx_alm_add_entry (nsegs m + 2) m addr sz = Some (Inr (rc, Some (sid, n), m1))"
    and del: "plx_alm_del_entry m1 (unat sid) = Inr (out, m2)"
  shows "counters_below_max m2"
proof (cases rule: contract_cases [OF inv room, of addr sz, case_names bad nomem ok])
  case (ok bs cs mc bs' m' rc' i)
  then have e: "m' = m1" "rc' = rc" "unat sid = i" using add by auto
  have "list_all row_below_max bs" using room counters_below_max_rows ok(1) by simp
  then have cs: "list_all row_below_max cs"
    using ok(4) counters_below_max_clean [OF ok(1) _ room] counters_below_max_rows ok(5) by auto
  let ?s = "unat (alm_segments m addr sz)"
  from ok(8) consider
    (new) p q where "cs = p @ replicate ?s FreeSeg @ q" "bs' = p @ Mapped (addr AND NOT (alm_mask m)) 2 ?s # q"
      "i = blocks_len p"
  | (old) p v c k q where "cs = p @ Mapped v c k # q" "bs' = p @ Mapped v (c + 1) k # q"
      "covers m (addr AND NOT (alm_mask m)) ?s v k"
      "i = blocks_len p + unat (((addr AND NOT (alm_mask m)) - v) div segment_size m)"
    unfolding placed_def by blast
  then show ?thesis
  proof cases
    case new
    have "alm_rel m2 (p @ [Mapped (addr AND NOT (alm_mask m)) 1 ?s] @ q)"
      using del_mapped [of m1 p _ 2 ?s q 0] ok(2,7) new e del by auto
    then show ?thesis using cs new(1) by (simp add: counters_below_max_rows)
  next
    case old
    have "c \<noteq> 0" using alm_rel_bounds [of mc p v c k q] ok(5) old(1) by simp
    moreover have "unat (((addr AND NOT (alm_mask m)) - v) div segment_size m) < k"
      using old(3) ok(7) by (simp add: covers_def)
    ultimately have "alm_rel m2 (p @ [Mapped v c k] @ q)"
      using del_mapped [of m1 p v "c + 1" k q "unat (((addr AND NOT (alm_mask m)) - v) div segment_size m)"] ok(2) old(2,4) e del by auto
    then show ?thesis using cs old(1) by (simp add: counters_below_max_rows)
  qed
qed (use add in auto)

end
