(* ===== verification/Plx_Device.thy ===== *)
theory Plx_Device
  imports Vca_Common Plx_Alm "HOL-Library.State_Monad"
begin

text \<open>
  The device structure of \<open>plx87xx/plx_device.h\<close> and access to the registers of the bridge.
  What the bridge, the other side of it and the clock do between two accesses is not part of
  the sources: it is a function on the register file and a hidden state of its own, a
  parameter of every operation that touches a register. It runs before each read and after
  each write, so that it sees every value written and may change every value read.
\<close>

unbundle bit_operations_syntax

section \<open>Registers\<close>

record 'h bridge =
  regs :: "u32 \<Rightarrow> u32"
  peer :: 'h
  jiffies :: u64

type_synonym 'h hw = "'h bridge \<Rightarrow> 'h bridge"

section \<open>The device\<close>

text \<open>
  The PCI device: its ids, the number of its bus, the bridges above it from the nearest one
  to the root, and the result of reading the port id from the configuration space.
\<close>

record pci_bridge =
  br_root_port :: bool
  br_bus :: u8
  br_devfn :: u8

record pci_dev =
  pci_device_id :: u16
  pci_devfn :: u8
  pci_bus :: u8
  pci_upstream :: "pci_bridge list"
  pci_port_id :: "errno + u32"

record plx_lbp =
  i7_irq_timeout_ms :: u32
  i7_alloc_timeout_ms :: u32
  i7_cmd_timeout_ms :: u32
  i7_mac_write_timeout_ms :: u32
  i7_ddr_size_mb :: u32
  card_wait :: bool

record 'h plx_device =
  mmio :: "'h bridge"
  aper_va :: u64
  aper_pa :: u64
  aper_len :: u64
  pdev :: pci_dev
  port_id :: u16
  link_side :: bool
  num_ntbs :: nat
  reg_base :: u32
  reg_base_peer :: u32
  bios_information_date :: u64
  bios_information_version :: u64
  bios_cfg_sgx :: u64
  bios_cfg_gpu_aperture :: u64
  bios_cfg_tdp :: u64
  a_lut :: bool
  a_lut_peer :: bool
  a_lut_array_base :: u32
  intr_reg_base :: u32
  peer_intr_reg_base :: u32
  dma_ch :: bool
  vca_csm_dev :: "u32 option"
  a_lut_manager :: plx_alm
  card_id :: u8
  card_type :: u32
  mmio_link_offset :: u32
  lbp :: plx_lbp
  lbp_resetting :: bool
  power_ts :: "u64 list"
  reset_ts :: u64
  dp_blockio_dp :: u64
  dp_blockio_ftb_db :: u32

text \<open>
  A new device structure is filled with zeros; the probe function then sets the PCI device
  and the two memory windows.
\<close>

definition new_dev :: "pci_dev \<Rightarrow> 'h bridge \<Rightarrow> u64 \<Rightarrow> u64 \<Rightarrow> u64 \<Rightarrow> 'h plx_device" where
  "new_dev dev b va pa len =
     \<lparr>mmio = b, aper_va = va, aper_pa = pa, aper_len = len, pdev = dev, port_id = 0,
      link_side = False, num_ntbs = 0, reg_base = 0, reg_base_peer = 0,
      bios_information_date = 0, bios_information_version = 0, bios_cfg_sgx = 0,
      bios_cfg_gpu_aperture = 0, bios_cfg_tdp = 0, a_lut = False, a_lut_peer = False,
      a_lut_array_base = 0, intr_reg_base = 0, peer_intr_reg_base = 0, dma_ch = False,
      vca_csm_dev = None,
      a_lut_manager = \<lparr>segments_num = 0, segment_size = 0, entries = []\<rparr>,
      card_id = 0, card_type = 0, mmio_link_offset = 0,
      lbp = \<lparr>i7_irq_timeout_ms = 0, i7_alloc_timeout_ms = 0, i7_cmd_timeout_ms = 0,
             i7_mac_write_timeout_ms = 0, i7_ddr_size_mb = 0, card_wait = False\<rparr>,
      lbp_resetting = False, power_ts = [0, 0, 0, 0], reset_ts = 0, dp_blockio_dp = 0,
      dp_blockio_ftb_db = 0\<rparr>"

text \<open>Operations of the driver are steps on the device with a result.\<close>

type_synonym ('h, 'a) op = "('h plx_device, 'a) state"

definition get_dev :: "('h plx_device \<Rightarrow> 'a) \<Rightarrow> ('h, 'a) op" where
  "get_dev f = State (\<lambda>x. (f x, x))"

definition put_dev :: "('h plx_device \<Rightarrow> 'h plx_device) \<Rightarrow> ('h, unit) op" where
  "put_dev f = State (\<lambda>x. ((), f x))"

section \<open>Register access\<close>

definition plx_mmio_read :: "'h hw \<Rightarrow> u32 \<Rightarrow> ('h, u32) op" where
  "plx_mmio_read hw offset =
     State (\<lambda>x. let m = hw (mmio x) in (regs m offset, x\<lparr>mmio := m\<rparr>))"

definition plx_mmio_write :: "'h hw \<Rightarrow> u32 \<Rightarrow> u32 \<Rightarrow> ('h, unit) op" where
  "plx_mmio_write hw val offset =
     State (\<lambda>x. ((), x\<lparr>mmio := hw ((mmio x)\<lparr>regs := (regs (mmio x))(offset := val)\<rparr>)\<rparr>))"

definition plx_link_mmio_read :: "'h hw \<Rightarrow> u32 \<Rightarrow> ('h, u32) op" where
  "plx_link_mmio_read hw offset =
     do { base \<leftarrow> get_dev mmio_link_offset; plx_mmio_read hw (base + offset) }"

definition plx_link_mmio_write :: "'h hw \<Rightarrow> u32 \<Rightarrow> u32 \<Rightarrow> ('h, unit) op" where
  "plx_link_mmio_write hw val offset =
     do { base \<leftarrow> get_dev mmio_link_offset; plx_mmio_write hw val (base + offset) }"

text \<open>\<open>get_jiffies_64\<close>, and sleeping: time passes on the other side only.\<close>

definition get_jiffies_64 :: "'h hw \<Rightarrow> ('h, u64) op" where
  "get_jiffies_64 hw = State (\<lambda>x. let m = hw (mmio x) in (jiffies m, x\<lparr>mmio := m\<rparr>))"

definition msleep :: "'h hw \<Rightarrow> ('h, unit) op" where
  "msleep hw = State (\<lambda>x. ((), x\<lparr>mmio := hw (mmio x)\<rparr>))"

section \<open>Library\<close>

lemmas op_simps = State_Monad.run_state_bind

lemma run_get_dev [simp]: "run_state (get_dev f) x = (f x, x)"
  by (simp add: get_dev_def)

lemma run_put_dev [simp]: "run_state (put_dev f) x = ((), f x)"
  by (simp add: put_dev_def)

lemma run_mmio_read [simp]:
  "run_state (plx_mmio_read hw off) x = (regs (hw (mmio x)) off, x\<lparr>mmio := hw (mmio x)\<rparr>)"
  by (simp add: plx_mmio_read_def Let_def)

lemma run_mmio_write [simp]:
  "run_state (plx_mmio_write hw v off) x =
     ((), x\<lparr>mmio := hw ((mmio x)\<lparr>regs := (regs (mmio x))(off := v)\<rparr>)\<rparr>)"
  by (simp add: plx_mmio_write_def)

lemma run_jiffies [simp]:
  "run_state (get_jiffies_64 hw) x = (jiffies (hw (mmio x)), x\<lparr>mmio := hw (mmio x)\<rparr>)"
  by (simp add: get_jiffies_64_def Let_def)

lemma run_msleep [simp]: "run_state (msleep hw) x = ((), x\<lparr>mmio := hw (mmio x)\<rparr>)"
  by (simp add: msleep_def)

text \<open>The bridge leaves a set of registers to the driver.\<close>

definition keeps_regs :: "u32 set \<Rightarrow> 'h hw \<Rightarrow> bool" where
  "keeps_regs R hw = (\<forall>m. \<forall>r \<in> R. regs (hw m) r = regs m r)"

lemma keeps_regsD: "keeps_regs R hw \<Longrightarrow> r \<in> R \<Longrightarrow> regs (hw m) r = regs m r"
  by (simp add: keeps_regs_def)

section \<open>Invariants of operations\<close>

text \<open>A property of the device that an operation keeps, and the rules to show it.\<close>

named_theorems op_inv_rules

definition op_inv :: "('h plx_device \<Rightarrow> bool) \<Rightarrow> ('h, 'a) op \<Rightarrow> bool" where
  "op_inv Q p = (\<forall>x. Q x \<longrightarrow> Q (snd (run_state p x)))"

lemma op_invD: "op_inv Q p \<Longrightarrow> run_state p x = (r, x') \<Longrightarrow> Q x \<Longrightarrow> Q x'"
  by (metis op_inv_def snd_conv)

lemma op_inv_bind [op_inv_rules]:
  "op_inv Q p \<Longrightarrow> (\<And>v. op_inv Q (f v)) \<Longrightarrow> op_inv Q (p \<bind> f)"
  by (auto simp: op_inv_def split: prod.splits)

lemma op_inv_return [op_inv_rules]: "op_inv Q (State_Monad.return v)"
  by (simp add: op_inv_def)

lemma op_inv_get [op_inv_rules]: "op_inv Q (get_dev f)"
  by (simp add: op_inv_def)

lemma op_inv_put: "(\<And>x. Q x \<Longrightarrow> Q (f x)) \<Longrightarrow> op_inv Q (put_dev f)"
  by (simp add: op_inv_def)

lemma op_inv_if [op_inv_rules]:
  "(b \<Longrightarrow> op_inv Q p) \<Longrightarrow> (\<not> b \<Longrightarrow> op_inv Q q) \<Longrightarrow> op_inv Q (if b then p else q)"
  by simp

lemma op_inv_let [op_inv_rules]: "op_inv Q (f v) \<Longrightarrow> op_inv Q (let x = v in f x)"
  by simp

lemma op_inv_option [op_inv_rules]:
  "(v = None \<Longrightarrow> op_inv Q p) \<Longrightarrow> (\<And>y. v = Some y \<Longrightarrow> op_inv Q (f y)) \<Longrightarrow>
   op_inv Q (case v of None \<Rightarrow> p | Some y \<Rightarrow> f y)"
  by (cases v) simp_all

lemma op_inv_sum [op_inv_rules]:
  "(\<And>e. v = Inl e \<Longrightarrow> op_inv Q (f e)) \<Longrightarrow> (\<And>y. v = Inr y \<Longrightarrow> op_inv Q (g y)) \<Longrightarrow>
   op_inv Q (case v of Inl e \<Rightarrow> f e | Inr y \<Rightarrow> g y)"
  by (cases v) simp_all

lemma op_inv_prod [op_inv_rules]: "(\<And>a b. v = (a, b) \<Longrightarrow> op_inv Q (f a b)) \<Longrightarrow> op_inv Q (case v of (a, b) \<Rightarrow> f a b)"
  by (cases v) simp

text \<open>
  What the hardware does between two accesses keeps the property; so do reads, sleeping, and
  writes to registers the property does not look at.
\<close>

definition hw_inv :: "'h hw \<Rightarrow> ('h plx_device \<Rightarrow> bool) \<Rightarrow> bool" where
  "hw_inv hw Q = (\<forall>x. Q x \<longrightarrow> Q (x\<lparr>mmio := hw (mmio x)\<rparr>))"

definition write_inv :: "u32 \<Rightarrow> ('h plx_device \<Rightarrow> bool) \<Rightarrow> bool" where
  "write_inv off Q =
     (\<forall>x v. Q x \<longrightarrow> Q (x\<lparr>mmio := (mmio x)\<lparr>regs := (regs (mmio x))(off := v)\<rparr>\<rparr>))"

lemma op_inv_mmio_read [op_inv_rules]: "hw_inv hw Q \<Longrightarrow> op_inv Q (plx_mmio_read hw off)"
  by (simp add: op_inv_def hw_inv_def)

lemma op_inv_msleep [op_inv_rules]: "hw_inv hw Q \<Longrightarrow> op_inv Q (msleep hw)"
  by (simp add: op_inv_def hw_inv_def)

lemma op_inv_mmio_write:
  assumes "hw_inv hw Q" "write_inv off Q"
  shows "op_inv Q (plx_mmio_write hw v off)"
  unfolding op_inv_def
proof (intro allI impI)
  fix x assume "Q x"
  then have "Q (x\<lparr>mmio := (mmio x)\<lparr>regs := (regs (mmio x))(off := v)\<rparr>\<rparr>)" using assms(2) by (auto simp: write_inv_def)
  then have "Q (x\<lparr>mmio := (mmio x)\<lparr>regs := (regs (mmio x))(off := v)\<rparr>\<rparr>
      \<lparr>mmio := hw (mmio (x\<lparr>mmio := (mmio x)\<lparr>regs := (regs (mmio x))(off := v)\<rparr>\<rparr>))\<rparr>)"
    using assms(1) unfolding hw_inv_def by blast
  then show "Q (snd (run_state (plx_mmio_write hw v off) x))" by simp
qed

end
