(* ===== verification/Plx_Hw.thy ===== *)
theory Plx_Hw
  imports Plx_Device
begin

text \<open>
  The operations of \<open>plx87xx/plx_hw.c\<close> on the bridge: requester id tables, the address lookup
  table (A-LUT) in the registers behind the manager of \<open>Plx_Alm\<close>, bring-up, scratchpads,
  doorbells, address windows, and the pins of the card. The second part shows that the
  registers follow the manager, so that the window the driver hands out leads to the memory
  that was asked for.
\<close>

unbundle bit_operations_syntax

section \<open>Requester id tables\<close>

definition plx_a_lut_disable :: "'h hw \<Rightarrow> ('h, unit) op" where
  "plx_a_lut_disable hw = do { base \<leftarrow> get_dev reg_base; plx_mmio_write hw 0 (base + 0xc94) }"

text \<open>
  The walks up the PCI tree. The first bridge above the device is \<open>bus->self\<close>; the buses are
  the device's own one and those the bridges sit on.
\<close>

definition plx_find_root_port :: "pci_dev \<Rightarrow> pci_bridge option" where
  "plx_find_root_port dev = find br_root_port (pci_upstream dev)"

definition pci_buses :: "pci_dev \<Rightarrow> u8 list" where
  "pci_buses dev = pci_bus dev # map br_bus (pci_upstream dev)"

definition plx_find_root_complex_bus_num :: "pci_dev \<Rightarrow> u8" where
  "plx_find_root_complex_bus_num dev = last (pci_buses dev)"

definition PCI_SLOT :: "u8 \<Rightarrow> u8" where
  "PCI_SLOT devfn = drop_bit 3 devfn AND 0x1f"

definition plx_rid_lut :: "u8 \<Rightarrow> u8 \<Rightarrow> u8 \<Rightarrow> u8 \<Rightarrow> u32" where
  "plx_rid_lut root_port_bus root_port_dev root_complex_bus root_complex_dev =
     push_bit 24 (ucast root_port_bus) OR push_bit 19 (ucast (root_port_dev AND 0x0f)) OR
     push_bit 8 (ucast root_complex_bus) OR push_bit 3 (ucast (root_complex_dev AND 0x0f)) OR
     0x00010001"

definition plx_rid_lut_dma :: "u8 \<Rightarrow> u8 \<Rightarrow> u32" where
  "plx_rid_lut_dma dma_bus dma_dev =
     push_bit 8 (ucast dma_bus) OR push_bit 3 (ucast (dma_dev AND 0x0f)) OR 0x1"

text \<open>
  The bus of the DMA engine on the host is two levels above the device; a shorter tree means
  a null pointer.
\<close>

definition plx_program_rid_lut_dma :: "'h hw \<Rightarrow> ('h, crash + errno) op" where
  "plx_program_rid_lut_dma hw =
     do {
       port \<leftarrow> get_dev port_id; link \<leftarrow> get_dev link_side; buses \<leftarrow> get_dev (pci_buses \<circ> pdev);
       let virtual_rid_offset = (if port = 0 then 0x3edb8 else 0x3cdb8);
       let link_rid_offset = (if port = 0 then 0x3fdb8 else 0x3ddb8);
       if link then
         do { plx_mmio_write hw (plx_rid_lut_dma (hd buses) 0) link_rid_offset;
              State_Monad.return (Inr EOK) }
       else if length buses < 3 then State_Monad.return (Inl NULL_DEREF)
       else
         do { plx_mmio_write hw (plx_rid_lut_dma (buses ! 2) 0) virtual_rid_offset;
              State_Monad.return (Inr EOK) }
     }"

definition plx_program_rid_lut :: "'h hw \<Rightarrow> ('h, errno) op" where
  "plx_program_rid_lut hw =
     do {
       port \<leftarrow> get_dev port_id; link \<leftarrow> get_dev link_side; dev \<leftarrow> get_dev pdev;
       let virtual_rid_offset = (if port = 0 then 0x3edb4 else 0x3cdb4);
       let link_rid_offset = (if port = 0 then 0x3fdb4 else 0x3ddb4);
       case plx_find_root_port dev of
         None \<Rightarrow> State_Monad.return ENXIO
       | Some root_port \<Rightarrow>
           do { plx_mmio_write hw
                  (plx_rid_lut (br_bus root_port) (PCI_SLOT (br_devfn root_port))
                     (plx_find_root_complex_bus_num dev) 0)
                  (if link then link_rid_offset else virtual_rid_offset);
                State_Monad.return EOK }
     }"

section \<open>The A-LUT registers\<close>

definition plx_get_a_lut_entry_offset :: "u32 \<Rightarrow> u32" where
  "plx_get_a_lut_entry_offset idx = (if idx \<ge> 128 then 0x1000 else 0) + (idx mod 128) * 4"

fun a_lut_clear_loop :: "'h hw \<Rightarrow> u32 \<Rightarrow> nat list \<Rightarrow> ('h, unit) op" where
  "a_lut_clear_loop hw offset [] = State_Monad.return ()"
| "a_lut_clear_loop hw offset (i # is) =
     do {
       let entry_offset = plx_get_a_lut_entry_offset (of_nat i) + offset;
       plx_mmio_write hw 0 (entry_offset + 0x800);
       plx_mmio_write hw 0 (entry_offset + 0x400);
       plx_mmio_write hw 0 (entry_offset + 0);
       a_lut_clear_loop hw offset is
     }"

definition plx_a_lut_clear :: "'h hw \<Rightarrow> u32 \<Rightarrow> ('h, crash + unit) op" where
  "plx_a_lut_clear hw offset =
     do {
       mngr \<leftarrow> get_dev a_lut_manager;
       case plx_alm_reset mngr of
         Inl e \<Rightarrow> State_Monad.return (Inl e)
       | Inr mngr' \<Rightarrow>
           do {
             put_dev (\<lambda>x. x\<lparr>a_lut_manager := mngr'\<rparr>);
             a_lut_clear_loop hw offset [0..<nsegs mngr'];
             State_Monad.return (Inr ())
           }
     }"

definition PLX_A_LUT_ENABLE :: u32 where
  "PLX_A_LUT_ENABLE = 0x90000000"

definition plx_a_lut_enable :: "'h hw \<Rightarrow> ('h, crash + errno) op" where
  "plx_a_lut_enable hw =
     do {
       plx_a_lut_disable hw;
       array_base \<leftarrow> get_dev a_lut_array_base;
       r \<leftarrow> plx_a_lut_clear hw array_base;
       case r of
         Inl e \<Rightarrow> State_Monad.return (Inl e)
       | Inr _ \<Rightarrow>
           do {
             enable \<leftarrow> get_dev a_lut_peer; base \<leftarrow> get_dev reg_base;
             (if enable then plx_mmio_write hw PLX_A_LUT_ENABLE (base + 0xc94)
              else State_Monad.return ());
             State_Monad.return (Inr EOK)
           }
     }"

definition plx_a_lut_peer_enable :: "'h hw \<Rightarrow> ('h, unit) op" where
  "plx_a_lut_peer_enable hw =
     do { base \<leftarrow> get_dev reg_base_peer; plx_mmio_write hw PLX_A_LUT_ENABLE (base + 0xc94) }"

text \<open>
  The loop of \<open>plx_add_a_lut_entry\<close> over the segments of a new mapping; the result is the
  last permission register written.
\<close>

fun a_lut_program :: "'h hw \<Rightarrow> u64 \<Rightarrow> nat list \<Rightarrow> u32 \<Rightarrow> ('h, u32) op" where
  "a_lut_program hw addr_masked [] last_permission_reg = State_Monad.return last_permission_reg"
| "a_lut_program hw addr_masked (i # is) last_permission_reg =
     do {
       base \<leftarrow> get_dev a_lut_array_base; ss \<leftarrow> get_dev (segment_size \<circ> a_lut_manager);
       let entry_offset = base + plx_get_a_lut_entry_offset (of_nat i);
       plx_mmio_write hw (ucast (drop_bit 32 addr_masked)) (entry_offset + 0x400);
       plx_mmio_write hw (ucast addr_masked) (entry_offset + 0);
       plx_mmio_write hw 3 (entry_offset + 0x800);
       a_lut_program hw (addr_masked + ss) is (entry_offset + 0x800)
     }"

text \<open>
  \<open>plx_add_a_lut_entry\<close>: the return value and the address in the window. The manager may
  call itself; a depth of two more than the number of segments is more than it ever needs on
  a well formed table. \<open>None\<close> would be a call that does not return.
\<close>

definition plx_add_a_lut_entry ::
  "'h hw \<Rightarrow> u64 \<Rightarrow> u64 \<Rightarrow> ('h, (crash + (errno \<times> u64 option)) option) op" where
  "plx_add_a_lut_entry hw addr sz =
     do {
       mngr \<leftarrow> get_dev a_lut_manager;
       case plx_alm_add_entry (nsegs mngr + 2) mngr addr sz of
         None \<Rightarrow> State_Monad.return None
       | Some (Inl e) \<Rightarrow> State_Monad.return (Some (Inl e))
       | Some (Inr (err, out, mngr')) \<Rightarrow>
           do {
             put_dev (\<lambda>x. x\<lparr>a_lut_manager := mngr'\<rparr>);
             case out of
               None \<Rightarrow> State_Monad.return (Some (Inr (ENOMEM, None)))
             | Some (segment_id, segments) \<Rightarrow>
                 do {
                   (if err = EOK then
                      do {
                        reg \<leftarrow> a_lut_program hw (addr AND NOT (alm_mask mngr))
                                [unat segment_id..<unat (segment_id + segments)] 0;
                        (if reg \<noteq> 0 then do { plx_mmio_read hw reg; State_Monad.return () }
                         else State_Monad.return ())
                      }
                    else State_Monad.return ());
                   State_Monad.return (Some (Inr (EOK,
                     Some (ucast segment_id * segment_size mngr' + (addr AND alm_mask mngr)))))
                 }
           }
     }"

fun a_lut_revoke :: "'h hw \<Rightarrow> nat list \<Rightarrow> ('h, unit) op" where
  "a_lut_revoke hw [] = State_Monad.return ()"
| "a_lut_revoke hw (i # is) =
     do {
       base \<leftarrow> get_dev a_lut_array_base;
       plx_mmio_write hw 0 (base + (plx_get_a_lut_entry_offset (of_nat i) + 0x800));
       a_lut_revoke hw is
     }"

text \<open>
  \<open>plx_del_a_lut_entry\<close>: the segment is computed before the address is tested, so a released
  manager (segment size 0) makes it divide by zero.
\<close>

definition plx_del_a_lut_entry :: "'h hw \<Rightarrow> u64 \<Rightarrow> ('h, crash + unit) op" where
  "plx_del_a_lut_entry hw addr =
     do {
       mngr \<leftarrow> get_dev a_lut_manager;
       let segment_id = (ucast (addr div segment_size mngr) :: u32);
       if segment_size mngr = 0 then State_Monad.return (Inl DIV_ZERO)
       else if addr \<ge> ucast (segments_num mngr) * segment_size mngr
       then State_Monad.return (Inr ())
       else
         (case plx_alm_del_entry mngr (unat segment_id) of
            Inl e \<Rightarrow> State_Monad.return (Inl e)
          | Inr (out, mngr') \<Rightarrow>
              do {
                put_dev (\<lambda>x. x\<lparr>a_lut_manager := mngr'\<rparr>);
                (case out of
                   None \<Rightarrow> State_Monad.return ()
                 | Some (start_segment, segments) \<Rightarrow>
                     a_lut_revoke hw [start_segment..<start_segment + segments]);
                State_Monad.return (Inr ())
              })
     }"

section \<open>Address windows\<close>

text \<open>\<open>plx_ioremap\<close>: \<open>None\<close> inside the sum is the null pointer.\<close>

definition plx_ioremap ::
  "'h hw \<Rightarrow> u64 \<Rightarrow> u64 \<Rightarrow> ('h, (crash + u64 option) option) op" where
  "plx_ioremap hw pa len =
     do {
       lut \<leftarrow> get_dev a_lut; va \<leftarrow> get_dev aper_va;
       if lut then
         do {
           r \<leftarrow> plx_add_a_lut_entry hw pa len;
           State_Monad.return
             (case r of
                None \<Rightarrow> None
              | Some (Inl e) \<Rightarrow> Some (Inl e)
              | Some (Inr (rc, None)) \<Rightarrow> Some (Inr None)
              | Some (Inr (rc, Some pa_out)) \<Rightarrow>
                  Some (Inr (if rc = EOK then Some (va + pa_out) else None)))
         }
       else State_Monad.return (Some (Inr (Some (va + pa))))
     }"

definition plx_iounmap :: "'h hw \<Rightarrow> u64 \<Rightarrow> ('h, crash + unit) op" where
  "plx_iounmap hw va =
     do {
       lut \<leftarrow> get_dev a_lut; base \<leftarrow> get_dev aper_va;
       if lut then plx_del_a_lut_entry hw (va - base) else State_Monad.return (Inr ())
     }"

section \<open>Bring-up\<close>

definition plx_get_reg_base :: "u32 \<Rightarrow> u32 \<Rightarrow> u32" where
  "plx_get_reg_base link port = 0x3E000 - port * 0x2000 + link * 0x1000"

definition plx_check_eeprom :: "'h hw \<Rightarrow> ('h, errno) op" where
  "plx_check_eeprom hw =
     do {
       val \<leftarrow> plx_mmio_read hw 0x260;
       if drop_bit 16 (val AND 0x30000) \<noteq> 1 then State_Monad.return EIO
       else
         do {
           crc \<leftarrow> plx_mmio_read hw 0x270;
           State_Monad.return (if val AND 0x80000 \<noteq> 0 then EIO else EOK)
         }
     }"

text \<open>The number of NTBs by PCI device id, and the place of the A-LUT array.\<close>

definition ntbs_of_device :: "u16 \<Rightarrow> nat" where
  "ntbs_of_device device_id = (if device_id = 0x295A \<or> device_id = 0x2956 then 1 else 2)"

definition a_lut_base_of :: "nat \<Rightarrow> bool \<Rightarrow> u16 \<Rightarrow> u32" where
  "a_lut_base_of ntbs link port =
     (if ntbs = 2 then
        (if \<not> link then (if port = 0 then 0x38000 else 0x3a000)
         else (if port = 0 then 0x39000 else 0x3b000))
      else if \<not> link then 0x38000 else 0x3a000)"

text \<open>
  \<open>plx_hw_init\<close>, up to and with the table of segments. Both sides use the A-LUT
  (\<open>VCA_ALUT_CARD_SIDE\<close> and \<open>VCA_ALUT_HOST_SIDE\<close> are defined). The first step copies what the
  configuration space says about the port.
\<close>

definition hw_init_port :: "u32 \<Rightarrow> 'h plx_device \<Rightarrow> 'h plx_device" where
  "hw_init_port val x =
     (let link = (val AND push_bit 31 1 \<noteq> 0); port = val AND 1
      in x\<lparr>link_side := link, port_id := ucast port,
           reg_base := plx_get_reg_base (if link then 1 else 0) port,
           reg_base_peer := plx_get_reg_base (if link then 0 else 1) port,
           a_lut := True, a_lut_peer := True\<rparr>)"

definition hw_init_bases :: "'h plx_device \<Rightarrow> 'h plx_device" where
  "hw_init_bases x =
     (let x1 = (if link_side x then x\<lparr>intr_reg_base := 0x10\<rparr> else x\<lparr>peer_intr_reg_base := 0x10\<rparr>);
          ntbs = ntbs_of_device (pci_device_id (pdev x))
      in x1\<lparr>num_ntbs := ntbs, a_lut_array_base := a_lut_base_of ntbs (link_side x) (port_id x)\<rparr>)"

definition plx_hw_init :: "'h hw \<Rightarrow> bool \<Rightarrow> ('h, crash + errno) op" where
  "plx_hw_init hw kzalloc =
     do {
       port \<leftarrow> get_dev (pci_port_id \<circ> pdev);
       case port of
         Inl rc \<Rightarrow> State_Monad.return (Inr rc)
       | Inr val \<Rightarrow>
           do {
             put_dev (hw_init_port val);
             link \<leftarrow> get_dev link_side;
             rc \<leftarrow> (if \<not> link then plx_check_eeprom hw else State_Monad.return EOK);
             if rc \<noteq> EOK then State_Monad.return (Inr rc)
             else
               do {
                 put_dev hw_init_bases;
                 rc \<leftarrow> plx_program_rid_lut hw;
                 if rc \<noteq> EOK then State_Monad.return (Inr rc)
                 else
                   do {
                     r \<leftarrow> plx_program_rid_lut_dma hw;
                     case r of
                       Inl e \<Rightarrow> State_Monad.return (Inl e)
                     | Inr _ \<Rightarrow>
                         do {
                           r \<leftarrow> plx_a_lut_enable hw;
                           case r of
                             Inl e \<Rightarrow> State_Monad.return (Inl e)
                           | Inr _ \<Rightarrow>
                               do {
                                 ntbs \<leftarrow> get_dev num_ntbs; len \<leftarrow> get_dev aper_len;
                                 case plx_alm_init kzalloc ntbs len of
                                   Inl e \<Rightarrow> State_Monad.return (Inl e)
                                 | Inr (rc, mngr) \<Rightarrow>
                                     do {
                                       put_dev (\<lambda>x. x\<lparr>a_lut_manager := mngr\<rparr>);
                                       State_Monad.return (Inr rc)
                                     }
                               }
                         }
                   }
               }
           }
     }"

definition plx_hw_deinit :: "('h, crash + unit) op" where
  "plx_hw_deinit =
     do {
       mngr \<leftarrow> get_dev a_lut_manager;
       case plx_alm_release mngr of
         Inl e \<Rightarrow> State_Monad.return (Inl e)
       | Inr mngr' \<Rightarrow>
           do { put_dev (\<lambda>x. x\<lparr>a_lut_manager := mngr'\<rparr>); State_Monad.return (Inr ()) }
     }"

section \<open>Scratchpads, doorbells and address registers\<close>

definition plx_write_spad :: "'h hw \<Rightarrow> u32 \<Rightarrow> u32 \<Rightarrow> ('h, unit) op" where
  "plx_write_spad hw idx val =
     do { base \<leftarrow> get_dev reg_base; plx_mmio_write hw val (base + 0xC6C + idx * 4) }"

definition plx_read_spad :: "'h hw \<Rightarrow> u32 \<Rightarrow> ('h, u32) op" where
  "plx_read_spad hw idx =
     do { base \<leftarrow> get_dev reg_base; plx_mmio_read hw (base + 0xC6C + idx * 4) }"

definition plx_enable_interrupts :: "'h hw \<Rightarrow> ('h, unit) op" where
  "plx_enable_interrupts hw =
     do { base \<leftarrow> get_dev reg_base; ibase \<leftarrow> get_dev intr_reg_base;
          plx_mmio_write hw 0xFFFF (base + ibase + 0xC58) }"

definition plx_disable_interrupts :: "'h hw \<Rightarrow> ('h, unit) op" where
  "plx_disable_interrupts hw =
     do { base \<leftarrow> get_dev reg_base; ibase \<leftarrow> get_dev intr_reg_base;
          plx_mmio_write hw 0xFFFF (base + ibase + 0xC54) }"

definition DB_TO_MASK :: "nat \<Rightarrow> u32" where
  "DB_TO_MASK n = push_bit n 1"

definition plx_send_intr :: "'h hw \<Rightarrow> nat \<Rightarrow> ('h, unit) op" where
  "plx_send_intr hw doorbell =
     do { base \<leftarrow> get_dev reg_base; pbase \<leftarrow> get_dev peer_intr_reg_base;
          plx_mmio_write hw (DB_TO_MASK doorbell) (base + pbase + 0xC4C) }"

definition plx_ack_interrupt :: "'h hw \<Rightarrow> ('h, u32) op" where
  "plx_ack_interrupt hw =
     do { base \<leftarrow> get_dev reg_base; ibase \<leftarrow> get_dev intr_reg_base;
          reg \<leftarrow> plx_mmio_read hw (base + ibase + 0xC50);
          plx_mmio_write hw reg (base + ibase + 0xC50);
          State_Monad.return reg }"

text \<open>
  \<open>plx_dma_filter\<close> accepts a DMA channel for the device: any channel on the card, and on the
  host the one two buses above.
\<close>

definition plx_dma_filter :: "pci_dev \<Rightarrow> u8 \<Rightarrow> crash + bool" where
  "plx_dma_filter dev dma_bus =
     (case pci_port_id dev of
        Inl rc \<Rightarrow> Inr False
      | Inr val \<Rightarrow>
          if val AND push_bit 31 1 \<noteq> 0 then Inr True
          else if length (pci_buses dev) < 3 then Inl NULL_DEREF
          else Inr (pci_buses dev ! 2 = dma_bus))"

definition plx_program_bar23_at :: "'h hw \<Rightarrow> u64 \<Rightarrow> ('h, unit) op" where
  "plx_program_bar23_at hw val =
     do {
       base \<leftarrow> get_dev reg_base;
       plx_mmio_write hw (ucast val) (base + 0xC3C);
       plx_mmio_write hw (ucast (drop_bit 32 val)) (base + 0xC40)
     }"

definition plx_set_dp_addr :: "'h hw \<Rightarrow> u64 \<Rightarrow> ('h, unit) op" where
  "plx_set_dp_addr hw dp_addr =
     do { plx_write_spad hw 0 (ucast dp_addr); plx_write_spad hw 1 (ucast (drop_bit 32 dp_addr)) }"

definition plx_get_dp_addr :: "'h hw \<Rightarrow> ('h, u64) op" where
  "plx_get_dp_addr hw =
     do {
       lo \<leftarrow> plx_read_spad hw 0;
       hi \<leftarrow> plx_read_spad hw 1;
       State_Monad.return (ucast lo OR push_bit 32 (ucast hi))
     }"

definition plx_read_straps :: "'h hw \<Rightarrow> ('h, u32) op" where
  "plx_read_straps hw = do { v \<leftarrow> plx_mmio_read hw 0x61c; State_Monad.return (v AND 0xF) }"

definition plx_link_width :: "'h hw \<Rightarrow> ('h, u32) op" where
  "plx_link_width hw =
     do {
       data \<leftarrow> plx_link_mmio_read hw 0x78;
       State_Monad.return
         (if drop_bit 16 (data AND 0xF0000) \<noteq> 3 then 0 else drop_bit 20 (data AND 0x1F00000))
     }"

section \<open>The pins of the card\<close>

definition GPIO_REG :: u32 where
  "GPIO_REG = 0x624"

definition plx_get_cpu_num :: "'h plx_device \<Rightarrow> int" where
  "plx_get_cpu_num x =
     (if card_type x AND VCA_VV \<noteq> 0 then 3 else if card_type x AND VCA_MV \<noteq> 0 then 3 else 0)"

text \<open>
  \<open>signal_bit\<close> pulls a pin low, waits, and releases it; the time of the release goes to the
  power button of the given CPU. Waiting lets time pass for the card.
\<close>

definition signal_bit :: "'h hw \<Rightarrow> u32 \<Rightarrow> u32 \<Rightarrow> nat option \<Rightarrow> ('h, bool) op" where
  "signal_bit hw pin offset release_ts =
     do {
       data \<leftarrow> plx_mmio_read hw offset;
       plx_mmio_write hw (data AND NOT pin) offset;
       msleep hw;
       (case release_ts of
          None \<Rightarrow> State_Monad.return ()
        | Some cpu \<Rightarrow>
            do { now \<leftarrow> get_jiffies_64 hw;
                 put_dev (\<lambda>x. x\<lparr>power_ts := (power_ts x)[cpu := now]\<rparr>) });
       data \<leftarrow> plx_mmio_read hw offset;
       plx_mmio_write hw (data OR pin) offset;
       State_Monad.return (data AND pin \<noteq> 0)
     }"

definition set_bit_reg :: "'h hw \<Rightarrow> u32 \<Rightarrow> u32 \<Rightarrow> ('h, unit) op" where
  "set_bit_reg hw pin offset =
     do { data \<leftarrow> plx_mmio_read hw offset; plx_mmio_write hw (data OR pin) offset }"

definition clear_bit_reg :: "'h hw \<Rightarrow> u32 \<Rightarrow> u32 \<Rightarrow> ('h, unit) op" where
  "clear_bit_reg hw pin offset =
     do { data \<leftarrow> plx_mmio_read hw offset; plx_mmio_write hw (data AND NOT pin) offset }"

definition PLX_MV_DEF_GPIO_VAL :: u32 where
  "PLX_MV_DEF_GPIO_VAL = 0x4 OR 0x2 OR 0x8 OR 0x200 OR 0x400 OR 0x100 OR 0x10 OR 0x40 OR 0x20 OR 0x1 OR 0x80"

definition plx_init_vca_g2_gpios :: "'h hw \<Rightarrow> ('h, unit) op" where
  "plx_init_vca_g2_gpios hw =
     do {
       data \<leftarrow> plx_mmio_read hw GPIO_REG;
       if data AND 0x80 = 0 then
         do { plx_mmio_write hw PLX_MV_DEF_GPIO_VAL GPIO_REG; msleep hw }
       else State_Monad.return ()
     }"

definition plx_power_button_bits :: "u32 list" where
  "plx_power_button_bits = [0x200, 0x400, 0x100]"

definition plx_bios_rcv_bits :: "u32 list" where
  "plx_bios_rcv_bits = [0x10, 0x40, 0x20]"

definition plx_reset_bits :: "u32 list list" where
  "plx_reset_bits = [[0x2, 0x4, 0x8], [0x4, 0x2, 0x8]]"

text \<open>Comparison of 64 bit times as in the kernel, by the sign of the difference.\<close>

definition time_after_eq64 :: "u64 \<Rightarrow> u64 \<Rightarrow> bool" where
  "time_after_eq64 a b = (0 \<le> sint (a - b))"

definition time_before64 :: "u64 \<Rightarrow> u64 \<Rightarrow> bool" where
  "time_before64 a b = (sint (a - b) < 0)"

definition in_grace :: "u64 \<Rightarrow> u64 \<Rightarrow> u64 \<Rightarrow> bool" where
  "in_grace now ts period = (time_after_eq64 now ts \<and> time_before64 now (ts + period))"

definition plx_card_check_power_button_state ::
  "'h hw \<Rightarrow> (u32 \<Rightarrow> u64) \<Rightarrow> int \<Rightarrow> ('h, errno + nat) op" where
  "plx_card_check_power_button_state hw msecs_to_jiffies cpu_id =
     do {
       x \<leftarrow> get_dev (\<lambda>x. x);
       if card_type x AND VCA_MV \<noteq> 0 then
         (if cpu_id < 0 \<or> cpu_id \<ge> plx_get_cpu_num x then State_Monad.return (Inl EINVAL)
          else
            do {
              data \<leftarrow> plx_mmio_read hw GPIO_REG;
              if data AND plx_power_button_bits ! nat cpu_id = 0 then State_Monad.return (Inr 1)
              else
                do {
                  now \<leftarrow> get_jiffies_64 hw;
                  ts \<leftarrow> get_dev power_ts;
                  State_Monad.return
                    (Inr (if in_grace now (ts ! nat cpu_id) (msecs_to_jiffies 1500) then 2 else 0))
                }
            })
       else if card_type x AND VCA_VV = 0 then State_Monad.return (Inl EINVAL)
       else State_Monad.return (Inr 0)
     }"

definition plx_card_press_power_button :: "'h hw \<Rightarrow> int \<Rightarrow> ('h, unit) op" where
  "plx_card_press_power_button hw cpu_id =
     do {
       x \<leftarrow> get_dev (\<lambda>x. x);
       if card_type x AND VCA_MV \<noteq> 0 then
         (if cpu_id < 0 \<or> cpu_id \<ge> plx_get_cpu_num x then State_Monad.return ()
          else
            do {
              signal_bit hw (plx_power_button_bits ! nat cpu_id) GPIO_REG (Some (nat cpu_id));
              State_Monad.return ()
            })
       else State_Monad.return ()
     }"

definition plx_turn_rcv_mode :: "'h hw \<Rightarrow> nat \<Rightarrow> bool \<Rightarrow> ('h, crash + unit) op" where
  "plx_turn_rcv_mode hw cpu_id turn_on =
     do {
       x \<leftarrow> get_dev (\<lambda>x. x);
       if card_type x AND VCA_MV \<noteq> 0 then
         (if length plx_bios_rcv_bits \<le> cpu_id then State_Monad.return (Inl WILD_ACCESS)
          else
            do {
              (if turn_on then clear_bit_reg hw (plx_bios_rcv_bits ! cpu_id) GPIO_REG
               else set_bit_reg hw (plx_bios_rcv_bits ! cpu_id) GPIO_REG);
              State_Monad.return (Inr ())
            })
       else State_Monad.return (Inr ())
     }"

definition plx_enable_bios_recovery_mode :: "'h hw \<Rightarrow> nat \<Rightarrow> ('h, crash + unit) op" where
  "plx_enable_bios_recovery_mode hw cpu_id =
     do {
       x \<leftarrow> get_dev (\<lambda>x. x);
       if card_type x AND VCA_MV \<noteq> 0 then plx_turn_rcv_mode hw cpu_id True
       else State_Monad.return (Inr ())
     }"

definition plx_disable_bios_recovery_mode :: "'h hw \<Rightarrow> nat \<Rightarrow> ('h, crash + unit) op" where
  "plx_disable_bios_recovery_mode hw cpu_id =
     do {
       x \<leftarrow> get_dev (\<lambda>x. x);
       if card_type x AND VCA_MV \<noteq> 0 then plx_turn_rcv_mode hw cpu_id False
       else State_Monad.return (Inr ())
     }"

definition plx_identify_cpu_id :: "pci_dev \<Rightarrow> int" where
  "plx_identify_cpu_id dev =
     (if pci_device_id dev = 0x2954 then 0
      else if pci_device_id dev = 0x2955 then 1
      else if pci_device_id dev = 0x2956 then 2 else -1)"

definition plx_set_SMB_id :: "'h hw \<Rightarrow> u8 \<Rightarrow> ('h, unit) op" where
  "plx_set_SMB_id hw smb =
     do {
       x \<leftarrow> get_dev (\<lambda>x. x);
       if card_type x AND VCA_VV \<noteq> 0 then
         do {
           data \<leftarrow> plx_mmio_read hw GPIO_REG;
           plx_mmio_write hw ((data AND NOT 0x70) + (push_bit 4 (ucast smb) AND 0x70)) GPIO_REG
         }
       else State_Monad.return ()
     }"

section \<open>Library: the registers of a segment\<close>

definition lut_reg :: "u32 \<Rightarrow> nat \<Rightarrow> u32 \<Rightarrow> u32" where
  "lut_reg base i sub = base + (plx_get_a_lut_entry_offset (of_nat i) + sub)"

definition lut_regs :: "u32 \<Rightarrow> u32 set" where
  "lut_regs base = {lut_reg base i sub | i sub. i < 256 \<and> sub \<in> {0, 0x400, 0x800}}"

text \<open>
  The registers of different segments, and the three registers of one, are different:
  the offset is \<open>4096 * (i div 128) + 4 * (i mod 128)\<close> and the three arrays are 1024 apart.
\<close>

lemma entry_offset_value:
  assumes "i < 256" and "sub \<in> {0, 0x400, 0x800 :: u32}"
  shows "unat (plx_get_a_lut_entry_offset (of_nat i) + sub) =
    4096 * (i div 128) + 4 * (i mod 128) + unat sub"
proof -
  have u: "unat (of_nat i :: u32) = i" using assms(1) by (intro unat_of_nat_small) simp
  have "unat ((of_nat i :: u32) mod 128 * 4) = 4 * (i mod 128)"
  proof -
    have "unat ((of_nat i :: u32) mod 128) = i mod 128" by (simp add: unat_mod u)
    then show ?thesis using mod_less_divisor [of 128 i] by (simp add: unat_word_ariths)
  qed
  moreover have "((of_nat i :: u32) \<ge> 128) = (128 \<le> i)" by (simp add: word_le_nat_alt u)
  moreover have "i div 128 = (if 128 \<le> i then 1 else 0)" using assms(1) by auto
  moreover have "i mod 128 < 128" by simp
  ultimately show ?thesis
    using assms(2) unfolding plx_get_a_lut_entry_offset_def
    by (auto simp: unat_word_ariths)
qed

lemma lut_reg_inj:
  assumes "i < 256" "j < 256" "sub \<in> {0, 0x400, 0x800}" "sub' \<in> {0, 0x400, 0x800}"
  shows "(lut_reg base i sub = lut_reg base j sub') = (i = j \<and> sub = sub')"
proof
  assume "lut_reg base i sub = lut_reg base j sub'"
  then have "plx_get_a_lut_entry_offset (of_nat i) + sub = plx_get_a_lut_entry_offset (of_nat j) + sub'"
    by (simp add: lut_reg_def)
  then have e: "4096 * (i div 128) + 4 * (i mod 128) + unat sub =
      4096 * (j div 128) + 4 * (j mod 128) + unat sub'"
    using entry_offset_value [OF assms(1,3)] entry_offset_value [OF assms(2,4)] by simp
  have "i mod 128 < 128" "j mod 128 < 128" by simp_all
  moreover have "unat sub \<in> {0, 1024, 2048}" "unat sub' \<in> {0, 1024, 2048}" using assms(3,4) by auto
  moreover have "i div 128 \<in> {0, 1}" "j div 128 \<in> {0, 1}" using assms(1,2) by auto
  ultimately have "i div 128 = j div 128 \<and> i mod 128 = j mod 128 \<and> unat sub = unat sub'"
    using e by auto
  then show "i = j \<and> sub = sub'" by (metis div_mult_mod_eq word_unat_eq_iff)
qed simp

lemma lut_regs_mem: "i < 256 \<Longrightarrow> sub \<in> {0, 0x400, 0x800} \<Longrightarrow> lut_reg base i sub \<in> lut_regs base"
  by (auto simp: lut_regs_def)

text \<open>The view of the registers: the address behind a segment that is let through.\<close>

definition seg_view :: "u32 \<Rightarrow> (u32 \<Rightarrow> u32) \<Rightarrow> lut_view" where
  "seg_view base r j =
     (if r (lut_reg base j 0x800) = 3
      then Some (push_bit 32 (ucast (r (lut_reg base j 0x400))) OR ucast (r (lut_reg base j 0)))
      else None)"

lemma word_halves: "push_bit 32 (ucast (ucast (drop_bit 32 a) :: u32)) OR ucast (ucast a :: u32) = (a :: u64)"
  by (rule bit_word_eqI) (auto simp: bit_simps)

lemma seg_view_cong:
  assumes "\<And>i sub. i < 256 \<Longrightarrow> sub \<in> {0, 0x400, 0x800} \<Longrightarrow> r (lut_reg base i sub) = r' (lut_reg base i sub)"
    and "j < 256"
  shows "seg_view base r j = seg_view base r' j"
  using assms by (simp add: seg_view_def)

lemma keeps_view:
  assumes "keeps_regs (lut_regs base) hw" and "j < 256"
  shows "seg_view base (regs (hw m)) j = seg_view base (regs m) j"
  using assms by (intro seg_view_cong) (auto intro!: keeps_regsD lut_regs_mem)

lemma keeps_write:
  assumes "keeps_regs (lut_regs base) hw" and "i < 256" "sub \<in> {0, 0x400, 0x800}"
    "j < 256" "sub' \<in> {0, 0x400, 0x800}"
  shows "regs (hw (m\<lparr>regs := (regs m)(lut_reg base i sub := v)\<rparr>)) (lut_reg base j sub') =
    (if i = j \<and> sub = sub' then v else regs m (lut_reg base j sub'))"
  using keeps_regsD [OF assms(1) lut_regs_mem [OF assms(4,5)]] lut_reg_inj [OF assms(2,4,3,5), of base]
  by auto

text \<open>The two register loops.\<close>

lemma a_lut_program_run:
  assumes k: "keeps_regs (lut_regs base) hw" and "i + n \<le> 256"
    and "a_lut_array_base x = base"
  shows "\<exists>reg b. run_state (a_lut_program hw am [i..<i + n] reg0) x = (reg, x\<lparr>mmio := b\<rparr>)
    \<and> (\<forall>j < 256. seg_view base (regs b) j =
        set_view (seg_view base (regs (mmio x))) i n am (segment_size (a_lut_manager x)) j)"
  using assms(2,3)
proof (induction n arbitrary: i am reg0 x)
  case 0
  show ?case by (intro exI [of _ reg0] exI [of _ "mmio x"]) (auto simp: set_view_def)
next
  case (Suc n)
  have i: "i < 256" using Suc.prems(1) by simp
  let ?ss = "segment_size (a_lut_manager x)"
  let ?w = "\<lambda>m sub v. hw (m\<lparr>regs := (regs m)(lut_reg base i sub := v)\<rparr>)"
  let ?b = "?w (?w (?w (mmio x) 0x400 (ucast (drop_bit 32 am))) 0 (ucast am)) 0x800 3"
  let ?x = "x\<lparr>mmio := ?b\<rparr>"
  have up: "[i..<i + Suc n] = i # [Suc i..<Suc i + n]" by (simp add: upt_conv_Cons)
  have run: "run_state (a_lut_program hw am [i..<i + Suc n] reg0) x =
      run_state (a_lut_program hw (am + ?ss) [Suc i..<Suc i + n] (lut_reg base i 0x800)) ?x"
    unfolding up using Suc.prems(2) by (simp add: Let_def lut_reg_def add.assoc)
  obtain reg b where IH: "run_state (a_lut_program hw (am + ?ss) [Suc i..<Suc i + n] (lut_reg base i 0x800)) ?x
      = (reg, ?x\<lparr>mmio := b\<rparr>)"
    "\<forall>j < 256. seg_view base (regs b) j =
        set_view (seg_view base (regs ?b)) (Suc i) n (am + ?ss) ?ss j"
    using Suc.IH [of "Suc i" ?x "am + ?ss" "lut_reg base i 0x800"] Suc.prems by auto
  have "seg_view base (regs ?b) j = (if i = j then Some am else seg_view base (regs (mmio x)) j)"
    if "j < 256" for j
    using that i word_halves by (auto simp: seg_view_def keeps_write [OF k])
  then have "\<forall>j < 256. seg_view base (regs b) j =
      set_view (seg_view base (regs (mmio x))) i (Suc n) am ?ss j"
    using IH(2) by (auto simp: set_view_def not_less_eq_eq le_Suc_eq algebra_simps Suc_diff_le
        dest!: Suc_leD)
  then show ?case using run IH(1) by auto
qed

lemma a_lut_revoke_run:
  assumes k: "keeps_regs (lut_regs base) hw" and "i + n \<le> 256"
    and "a_lut_array_base x = base"
  shows "\<exists>b. run_state (a_lut_revoke hw [i..<i + n]) x = ((), x\<lparr>mmio := b\<rparr>)
    \<and> (\<forall>j < 256. seg_view base (regs b) j = clear_view (seg_view base (regs (mmio x))) i n j)"
  using assms(2,3)
proof (induction n arbitrary: i x)
  case 0
  show ?case by (intro exI [of _ "mmio x"]) (auto simp: clear_view_def)
next
  case (Suc n)
  have i: "i < 256" using Suc.prems(1) by simp
  let ?b = "hw ((mmio x)\<lparr>regs := (regs (mmio x))(lut_reg base i 0x800 := 0)\<rparr>)"
  let ?x = "x\<lparr>mmio := ?b\<rparr>"
  have up: "[i..<i + Suc n] = i # [Suc i..<Suc i + n]" by (simp add: upt_conv_Cons)
  have run: "run_state (a_lut_revoke hw [i..<i + Suc n]) x = run_state (a_lut_revoke hw [Suc i..<Suc i + n]) ?x"
    unfolding up using Suc.prems(2) by (simp add: lut_reg_def)
  obtain b where IH: "run_state (a_lut_revoke hw [Suc i..<Suc i + n]) ?x = ((), ?x\<lparr>mmio := b\<rparr>)"
    "\<forall>j < 256. seg_view base (regs b) j = clear_view (seg_view base (regs ?b)) (Suc i) n j"
    using Suc.IH [of "Suc i" ?x] Suc.prems by auto
  have "seg_view base (regs ?b) j = (if i = j then None else seg_view base (regs (mmio x)) j)"
    if "j < 256" for j
    using that i by (auto simp: seg_view_def keeps_write [OF k])
  then have "\<forall>j < 256. seg_view base (regs b) j =
      clear_view (seg_view base (regs (mmio x))) i (Suc n) j"
    using IH(2) by (auto simp: clear_view_def)
  then show ?case using run IH(1) by auto
qed

section \<open>Properties of the A-LUT registers\<close>

text \<open>
  The registers follow the manager, and the address the bridge sends for a byte of the
  window.
\<close>

definition lut_agrees :: "'h plx_device \<Rightarrow> bool" where
  "lut_agrees x =
     (\<forall>j < nsegs (a_lut_manager x). \<forall>a c. alm_lookup (a_lut_manager x) j = Some (a, c) \<longrightarrow>
        seg_view (a_lut_array_base x) (regs (mmio x)) j = Some a)"

definition bridge_translate :: "'h plx_device \<Rightarrow> nat \<Rightarrow> u64 option" where
  "bridge_translate x off =
     (let ss = unat (segment_size (a_lut_manager x))
      in map_option (\<lambda>a. a + of_nat (off mod ss))
           (seg_view (a_lut_array_base x) (regs (mmio x)) (off div ss)))"

definition lut_ok :: "'h plx_device \<Rightarrow> bool" where
  "lut_ok x = (alm_inv (a_lut_manager x) \<and> lut_agrees x)"

lemma lut_agrees_iff:
  "lut_agrees x = alm.agrees (a_lut_manager x) (seg_view (a_lut_array_base x) (regs (mmio x)))"
  by (simp add: lut_agrees_def alm.agrees_def)

lemma alm_inv_segs: "alm_inv m \<Longrightarrow> 0 < nsegs m \<and> nsegs m \<le> 256"
  by (auto simp: alm_inv_def alm_rel_def geometry_ok_def)

lemma alm_inv_geometry: "alm_inv m \<Longrightarrow> geometry_ok m"
  by (auto simp: alm_inv_def alm_rel_def)

lemma lut_agrees_cong:
  assumes "\<And>j. j < 256 \<Longrightarrow> seg_view base (regs b) j = v j" and "nsegs m \<le> 256"
  shows "alm.agrees m (seg_view base (regs b)) = alm.agrees m v"
  using assms by (auto simp: alm.agrees_def)

text \<open>The state of the device after a request, with the view of its registers.\<close>

lemma add_a_lut_run:
  assumes inv: "alm_inv (a_lut_manager x)" and room: "counters_below_max (a_lut_manager x)"
    and k: "keeps_regs (lut_regs (a_lut_array_base x)) hw"
    and add: "plx_alm_add_entry (nsegs (a_lut_manager x) + 2) (a_lut_manager x) addr sz =
        Some (Inr (rc, out, m'))"
  defines "m \<equiv> a_lut_manager x" and "base \<equiv> a_lut_array_base x"
  shows "\<exists>b. run_state (plx_add_a_lut_entry hw addr sz) x =
      (Some (Inr (case out of
         None \<Rightarrow> (ENOMEM, None)
       | Some (sid, n) \<Rightarrow> (EOK, Some (ucast sid * segment_size m + (addr AND alm_mask m))))),
       x\<lparr>a_lut_manager := m', mmio := b\<rparr>)
    \<and> (\<forall>j < 256. seg_view base (regs b) j =
         alm.view_after_add m addr rc out (seg_view base (regs (mmio x))) j)"
proof (cases out)
  case None
  have "x\<lparr>a_lut_manager := m'\<rparr> = x\<lparr>a_lut_manager := m', mmio := mmio x\<rparr>" by simp
  then show ?thesis using add None
    by (intro exI [of _ "mmio x"]) (simp add: plx_add_a_lut_entry_def alm.view_after_add_def)
next
  case (Some p)
  obtain sid n where p: "p = (sid, n)" by (cases p)
  note maps = alm.add_maps [OF inv room add [unfolded Some p]]
  have g: "segment_size m' = segment_size m"
    using alm.add_returns [OF inv room, of addr sz] add unfolding m_def by auto
  have le: "unat sid + unat n \<le> 256" using maps alm_inv_segs [OF inv] by linarith
  then have sum: "unat (sid + n) = unat sid + unat n" by (intro unat_plus_small) simp
  show ?thesis
  proof (cases "rc = EOK")
    case True
    obtain reg b where prog: "run_state (a_lut_program hw (addr AND NOT (alm_mask m))
        [unat sid..<unat sid + unat n] 0) (x\<lparr>a_lut_manager := m'\<rparr>)
        = (reg, x\<lparr>a_lut_manager := m', mmio := b\<rparr>)"
      "\<forall>j < 256. seg_view base (regs b) j = set_view (seg_view base (regs (mmio x)))
          (unat sid) (unat n) (addr AND NOT (alm_mask m)) (segment_size m') j"
      using a_lut_program_run [OF k le, of "x\<lparr>a_lut_manager := m'\<rparr>" "addr AND NOT (alm_mask m)" 0]
      unfolding base_def by auto
    have "\<forall>j < 256. seg_view base (regs (hw b)) j = seg_view base (regs b) j"
      using keeps_view [OF k] unfolding base_def by blast
    then show ?thesis
      using add prog Some p True g sum
      by (cases "reg = 0")
        (force simp: plx_add_a_lut_entry_def alm.view_after_add_def m_def)+
  next
    case False
    then show ?thesis using add Some p g
      by (intro exI [of _ "mmio x"])
        (simp add: plx_add_a_lut_entry_def alm.view_after_add_def m_def)
  qed
qed

lemma window_offset:
  assumes "geometry_ok m" and "unat sid < nsegs m"
  shows "unat (ucast (sid :: u32) * segment_size m + (addr AND alm_mask m)) =
    unat sid * unat (segment_size m) + unat (addr AND alm_mask m)"
proof -
  let ?ss = "unat (segment_size m)"
  have off: "unat (addr AND alm_mask m) < ?ss"
    using alm_off [OF assms(1)] geometry_pos [OF assms(1)] by simp
  have "unat sid * ?ss + ?ss \<le> ?ss * nsegs m"
    using assms(2) mult_le_mono2 [of "unat sid + 1" "nsegs m" ?ss] by (simp add: algebra_simps)
  moreover have "?ss * (nsegs m + 2) < 2 ^ 64" using assms(1) by (simp add: geometry_ok_def)
  ultimately have lt: "unat sid * ?ss + ?ss < 2 ^ 64" by simp
  have u: "unat (ucast sid :: u64) = unat sid"
    using assms by (simp add: unsigned_ucast_eq take_bit_eq_mod geometry_ok_def)
  have "unat (ucast sid * segment_size m) = unat sid * ?ss"
    using lt by (simp add: unat_word_ariths u)
  then show ?thesis using off lt by (subst unat_plus_small) simp_all
qed

lemma window_below:
  assumes g: "geometry_ok m" and "unat sid < nsegs m"
  shows "ucast (sid :: u32) * segment_size m + (addr AND alm_mask m) < ucast (segments_num m) * segment_size m"
proof -
  let ?ss = "unat (segment_size m)"
  have lim: "?ss * (nsegs m + 2) < 2 ^ 64" and n: "nsegs m \<le> 256" using g by (auto simp: geometry_ok_def)
  have "unat (ucast (segments_num m) * segment_size m) = nsegs m * ?ss"
    using lim n by (simp add: unat_word_ariths unsigned_ucast_eq take_bit_eq_mod mult.commute)
  moreover have "unat (addr AND alm_mask m) < ?ss" using alm_off [OF g] geometry_pos [OF g] by simp
  moreover have "unat sid * ?ss + ?ss \<le> nsegs m * ?ss"
    using assms(2) mult_le_mono1 [of "unat sid + 1" "nsegs m" ?ss] by (simp add: algebra_simps)
  ultimately show ?thesis by (simp add: word_less_nat_alt window_offset [OF assms])
qed

text \<open>
  A successful request in full: the window is mapped, reaches the range, and its release
  leaves no counter at its end.
\<close>

lemma add_a_lut_window:
  assumes ok: "lut_ok x" and room: "counters_below_max (a_lut_manager x)"
    and k: "keeps_regs (lut_regs (a_lut_array_base x)) hw"
  shows "\<exists>rc out m' b. run_state (plx_add_a_lut_entry hw addr sz) x =
      (Some (Inr (rc, out)), x\<lparr>a_lut_manager := m', mmio := b\<rparr>)
    \<and> lut_ok (x\<lparr>a_lut_manager := m', mmio := b\<rparr>)
    \<and> (case out of
         None \<Rightarrow> rc = ENOMEM
       | Some pa \<Rightarrow> rc = EOK \<and>
           pa < ucast (segments_num m') * segment_size m' \<and>
           alm_lookup m' (unat pa div unat (segment_size m')) \<noteq> None \<and>
           (\<forall>i < unat sz. bridge_translate (x\<lparr>a_lut_manager := m', mmio := b\<rparr>) (unat pa + i)
              = Some (addr + of_nat i)) \<and>
           (\<forall>r m2. plx_alm_del_entry m' (unat pa div unat (segment_size m')) = Inr (r, m2) \<longrightarrow>
              counters_below_max m2))"
proof -
  let ?m = "a_lut_manager x" and ?base = "a_lut_array_base x"
  have inv: "alm_inv ?m" and ag: "alm.agrees ?m (seg_view ?base (regs (mmio x)))"
    using ok by (auto simp: lut_ok_def lut_agrees_iff)
  obtain rc out m' where add: "plx_alm_add_entry (nsegs ?m + 2) ?m addr sz = Some (Inr (rc, out, m'))"
    and m': "alm_inv m'" "nsegs m' = nsegs ?m" "segment_size m' = segment_size ?m"
    using alm.add_returns [OF inv room, of addr sz] by blast
  let ?v = "alm.view_after_add ?m addr rc out (seg_view ?base (regs (mmio x)))"
  obtain b where run: "run_state (plx_add_a_lut_entry hw addr sz) x =
      (Some (Inr (case out of
         None \<Rightarrow> (ENOMEM, None)
       | Some (sid, n) \<Rightarrow> (EOK, Some (ucast sid * segment_size ?m + (addr AND alm_mask ?m))))),
       x\<lparr>a_lut_manager := m', mmio := b\<rparr>)"
    and view: "\<forall>j < 256. seg_view ?base (regs b) j = ?v j"
    using add_a_lut_run [OF inv room k add] by blast
  let ?x = "x\<lparr>a_lut_manager := m', mmio := b\<rparr>"
  have "alm.agrees m' ?v" using alm.add_agrees [OF inv room ag add] .
  then have ok': "lut_ok ?x"
    using m'(1) view alm_inv_segs [OF m'(1)] lut_agrees_cong [of ?base b ?v m']
    by (simp add: lut_ok_def lut_agrees_iff)
  show ?thesis
  proof (cases out)
    case None
    then show ?thesis
      using run ok' by (intro exI [of _ ENOMEM] exI [of _ None] exI [of _ m'] exI [of _ b]) auto
  next
    case (Some p)
    obtain sid n where p: "p = (sid, n)" by (cases p)
    note add' = add [unfolded Some p]
    note maps = alm.add_maps [OF inv room add']
    have fit: "fits ?m sz" and n: "n = alm_segments ?m addr sz"
      by (rule contract_cases [OF inv room, of addr sz]; use add' in simp)+
    have lt: "unat sid < nsegs ?m" using maps by linarith
    have "bridge_translate ?x (unat (ucast sid * segment_size ?m + (addr AND alm_mask ?m)) + i)
        = Some (addr + of_nat i)" if "i < unat sz" for i
    proof -
      have "seg_view ?base (regs b) (unat sid + q) =
          Some ((addr AND NOT (alm_mask ?m)) + of_nat q * segment_size ?m)" if "q < unat n" for q
      proof -
        have "unat sid + q < 256" using maps that alm_inv_segs [OF inv] by linarith
        then show ?thesis using view alm.add_reaches [OF inv room ag add' that] Some p by simp
      qed
      then show ?thesis
        using request_bytes [OF alm_inv_geometry [OF inv] fit that, of addr
            "seg_view ?base (regs b)" "unat sid"] n m'(3)
        by (simp add: bridge_translate_def Let_def window_offset [OF alm_inv_geometry [OF inv] lt])
    qed
    moreover have idx: "unat (ucast sid * segment_size ?m + (addr AND alm_mask ?m)) div unat (segment_size m') = unat sid"
      using alm_off [OF alm_inv_geometry [OF inv]] geometry_pos [OF alm_inv_geometry [OF inv]] m'(3)
      by (simp add: window_offset [OF alm_inv_geometry [OF inv] lt])
    moreover have "ucast sid * segment_size ?m + (addr AND alm_mask ?m) < ucast (segments_num m') * segment_size m'"
      using window_below [OF alm_inv_geometry [OF inv] lt, of addr] m'(2,3)
      by (simp flip: word_unat_eq_iff)
    moreover have "alm_lookup m' (unat sid) \<noteq> None" using maps by (metis add_0_right option.distinct(1))
    moreover have "counters_below_max m2" if "plx_alm_del_entry m' (unat sid) = Inr (r, m2)" for r m2
      using alm_add_del_room [OF inv room add' that] .
    ultimately show ?thesis
      using run ok' Some p
      by (intro exI [of _ EOK] exI [of _ "Some (ucast sid * segment_size ?m + (addr AND alm_mask ?m))"]
          exI [of _ m'] exI [of _ b]) auto
  qed
qed

text \<open>
  C8. End to end: a request for a range of peer memory returns, the registers of the bridge
  agree with the manager afterwards, and on success the bridge sends every access to the
  window at the returned address plus \<open>b\<close> to the peer address \<open>addr + b\<close>, for all bytes of
  the range. The bridge is assumed to leave the A-LUT registers as the driver wrote them.
\<close>

theorem plx_add_a_lut_entry_reaches:
  assumes ok: "lut_ok x" and room: "counters_below_max (a_lut_manager x)"
    and k: "keeps_regs (lut_regs (a_lut_array_base x)) hw"
  shows "\<exists>rc out x'. run_state (plx_add_a_lut_entry hw addr sz) x = (Some (Inr (rc, out)), x')
    \<and> lut_ok x'
    \<and> (case out of
         None \<Rightarrow> rc = ENOMEM
       | Some pa \<Rightarrow> rc = EOK \<and>
           (\<forall>b < unat sz. bridge_translate x' (unat pa + b) = Some (addr + of_nat b)))"
proof -
  obtain rc out m' b where "run_state (plx_add_a_lut_entry hw addr sz) x =
      (Some (Inr (rc, out)), x\<lparr>a_lut_manager := m', mmio := b\<rparr>)"
    "lut_ok (x\<lparr>a_lut_manager := m', mmio := b\<rparr>)"
    "case out of None \<Rightarrow> rc = ENOMEM | Some pa \<Rightarrow> rc = EOK \<and>
       (\<forall>i < unat sz. bridge_translate (x\<lparr>a_lut_manager := m', mmio := b\<rparr>) (unat pa + i) = Some (addr + of_nat i))"
    using add_a_lut_window [OF assms, of addr sz] by (auto split: option.splits)
  then show ?thesis by blast
qed

text \<open>A device with a small window of four segments, behind a bridge that only stores.\<close>

definition hw_example :: "unit plx_device" where
  "hw_example =
     (new_dev \<lparr>pci_device_id = 0x2954, pci_devfn = 0, pci_bus = 3,
               pci_upstream = [\<lparr>br_root_port = False, br_bus = 2, br_devfn = 0\<rparr>,
                 \<lparr>br_root_port = False, br_bus = 1, br_devfn = 0\<rparr>,
                 \<lparr>br_root_port = True, br_bus = 0, br_devfn = 0x10\<rparr>],
               pci_port_id = Inr 0\<rparr>
       \<lparr>regs = \<lambda>_. 0, peer = (), jiffies = 0\<rparr> 0x100000 0x200000 0x4000)
     \<lparr>a_lut := True, a_lut_array_base := 0x38000, a_lut_manager := alm_fresh\<rparr>"

lemma keeps_id: "keeps_regs R (\<lambda>m. m)"
  by (simp add: keeps_regs_def)

lemma hw_example_ok: "lut_ok hw_example" "counters_below_max (a_lut_manager hw_example)"
proof -
  have "alm_lookup alm_fresh j = None" if "j < 4" for j
  proof -
    have "j = 0 \<or> j = 1 \<or> j = 2 \<or> j = 3" using that by auto
    then show ?thesis by (auto simp: alm_lookup_def alm_fresh_def)
  qed
  then show "lut_ok hw_example"
    using alm_fresh_ok(1) by (auto simp: lut_ok_def lut_agrees_def hw_example_def alm_fresh_def)
  show "counters_below_max (a_lut_manager hw_example)"
    using alm_fresh_ok(2) by (simp add: hw_example_def)
qed

theorem plx_add_a_lut_entry_reaches_witness:
  "\<exists>rc out x'. run_state (plx_add_a_lut_entry (\<lambda>m. m) 0x77010 0x1800) hw_example
     = (Some (Inr (rc, out)), x') \<and> lut_ok x'"
  using plx_add_a_lut_entry_reaches [OF hw_example_ok keeps_id, of "0x77010" "0x1800"] by auto

lemma del_a_lut_run:
  assumes ok: "lut_ok x" and k: "keeps_regs (lut_regs (a_lut_array_base x)) hw"
    and addr: "addr < ucast (segments_num (a_lut_manager x)) * segment_size (a_lut_manager x)"
    and mapped: "alm_lookup (a_lut_manager x) (unat addr div unat (segment_size (a_lut_manager x))) \<noteq> None"
  shows "\<exists>x' out m'. run_state (plx_del_a_lut_entry hw addr) x = (Inr (), x') \<and> lut_ok x'
    \<and> plx_alm_del_entry (a_lut_manager x) (unat addr div unat (segment_size (a_lut_manager x))) = Inr (out, m')
    \<and> (\<exists>b. x' = x\<lparr>a_lut_manager := m', mmio := b\<rparr>)
    \<and> (\<forall>j < 256. seg_view (a_lut_array_base x) (regs (mmio x')) j =
        alm.view_after_del out (seg_view (a_lut_array_base x) (regs (mmio x))) j)"
proof -
  let ?m = "a_lut_manager x" and ?base = "a_lut_array_base x"
  let ?i = "unat addr div unat (segment_size ?m)"
  have inv: "alm_inv ?m" and ag: "alm.agrees ?m (seg_view ?base (regs (mmio x)))"
    using ok by (auto simp: lut_ok_def lut_agrees_iff)
  note geo = alm_inv_geometry [OF inv]
  have pos: "0 < unat (segment_size ?m)" by (rule geometry_pos [OF geo])
  have lim: "unat (segment_size ?m) * (nsegs ?m + 2) < 2 ^ 64" and n: "nsegs ?m \<le> 256"
    using geo by (auto simp: geometry_ok_def)
  have "unat (ucast (segments_num ?m) * segment_size ?m) = nsegs ?m * unat (segment_size ?m)"
    using lim n by (simp add: unat_word_ariths unsigned_ucast_eq take_bit_eq_mod mult.commute)
  then have "unat addr < nsegs ?m * unat (segment_size ?m)" using addr by (simp add: word_less_nat_alt)
  then have i: "?i < nsegs ?m" using pos by (simp add: less_mult_imp_div_less)
  have id32: "unat (ucast (addr div segment_size ?m) :: u32) = ?i"
    using i n by (simp add: unsigned_ucast_eq take_bit_eq_mod unat_div)
  obtain out m' where del: "plx_alm_del_entry ?m ?i = Inr (out, m')" and m': "alm_inv m'"
    "nsegs m' = nsegs ?m"
    using alm.del_returns [OF inv i mapped] by blast
  let ?v = "alm.view_after_del out (seg_view ?base (regs (mmio x)))"
  have ag': "alm.agrees m' ?v" using alm.del_agrees [OF inv i mapped ag del] .
  have ss: "segment_size ?m \<noteq> 0" using pos by auto
  have "\<exists>b. run_state (plx_del_a_lut_entry hw addr) x = (Inr (), x\<lparr>a_lut_manager := m', mmio := b\<rparr>)
      \<and> (\<forall>j < 256. seg_view ?base (regs b) j = ?v j)"
  proof (cases out)
    case None
    then show ?thesis using del id32 addr ss
      by (intro exI [of _ "mmio x"])
        (simp add: plx_del_a_lut_entry_def Let_def alm.view_after_del_def not_le)
  next
    case (Some p)
    obtain s c where p: "p = (s, c)" by (cases p)
    have "s + c \<le> 256"
    proof (rule alm_del_cases [OF inv i mapped])
      fix bs v c1 n1 q m1
      assume "alm_rel ?m (bs @ Mapped v c1 n1 # q)"
        "plx_alm_del_entry ?m ?i = Inr (if c1 = 1 then Some (blocks_len bs, n1) else None, m1)"
      then show ?thesis
        using del Some p alm_rel_bounds [of ?m bs v c1 n1 q] n by (auto split: if_splits)
    qed
    from a_lut_revoke_run [OF k this, of "x\<lparr>a_lut_manager := m'\<rparr>"]
    obtain b where "run_state (a_lut_revoke hw [s..<s + c]) (x\<lparr>a_lut_manager := m'\<rparr>)
        = ((), x\<lparr>a_lut_manager := m', mmio := b\<rparr>)"
      "\<forall>j < 256. seg_view ?base (regs b) j = clear_view (seg_view ?base (regs (mmio x))) s c j"
      by auto
    then show ?thesis using del id32 addr ss Some p
      by (auto simp: plx_del_a_lut_entry_def Let_def alm.view_after_del_def not_le)
  qed
  then obtain b where b: "run_state (plx_del_a_lut_entry hw addr) x = (Inr (), x\<lparr>a_lut_manager := m', mmio := b\<rparr>)"
    "\<forall>j < 256. seg_view ?base (regs b) j = ?v j" by blast
  have "lut_ok (x\<lparr>a_lut_manager := m', mmio := b\<rparr>)"
    using m' ag' b(2) n lut_agrees_cong [of ?base b ?v m'] by (simp add: lut_ok_def lut_agrees_iff)
  then show ?thesis using b del by auto
qed

text \<open>
  The life of the window as a step relation: mapping requests, releases of addresses that are
  mapped, and steps of the bridge on its own.
\<close>

definition window_mapped :: "'h plx_device \<Rightarrow> u64 \<Rightarrow> bool" where
  "window_mapped x va =
     (let m = a_lut_manager x; pa = va - aper_va x
      in pa < ucast (segments_num m) * segment_size m \<and>
         alm_lookup m (unat pa div unat (segment_size m)) \<noteq> None)"

inductive lut_step :: "'h hw \<Rightarrow> 'h plx_device \<Rightarrow> 'h plx_device \<Rightarrow> bool" for hw where
  step_map: "lut_step hw x x'"
    if "counters_below_max (a_lut_manager x)" "run_state (plx_ioremap hw pa len) x = (r, x')"
| step_unmap: "lut_step hw x x'"
    if "window_mapped x va" "run_state (plx_iounmap hw va) x = (r, x')"
| step_bridge: "lut_step hw x (x\<lparr>mmio := hw (mmio x)\<rparr>)"

lemma lut_step_inv:
  assumes "lut_step hw x x'" and ok: "lut_ok x"
    and k: "keeps_regs (lut_regs (a_lut_array_base x)) hw"
  shows "lut_ok x' \<and> a_lut_array_base x' = a_lut_array_base x"
  using assms(1)
proof cases
  case (step_map pa len r)
  then show ?thesis
    using add_a_lut_window [OF ok step_map(1) k, of pa len] ok
    by (auto simp: plx_ioremap_def split: if_splits)
next
  case (step_unmap va r)
  then show ?thesis
    using del_a_lut_run [OF ok k, of "va - aper_va x"] ok
    by (auto simp: plx_iounmap_def window_mapped_def Let_def split: if_splits)
next
  case step_bridge
  have "lut_agrees x'"
    using ok keeps_view [OF k] alm_inv_segs [of "a_lut_manager x"] step_bridge
    by (auto simp: lut_ok_def lut_agrees_def)
  then show ?thesis using ok step_bridge by (simp add: lut_ok_def)
qed

text \<open>
  C14. Whatever the order of mapping requests, releases and steps of the bridge, the table stays
  well formed and the registers of the bridge agree with it: every mapped segment is let
  through to its peer address.
\<close>

theorem lut_always_agrees:
  assumes "(lut_step hw)\<^sup>*\<^sup>* x x'" and "lut_ok x"
    and "keeps_regs (lut_regs (a_lut_array_base x)) hw"
  shows "alm_inv (a_lut_manager x') \<and> lut_agrees x'"
proof -
  have "lut_ok x' \<and> a_lut_array_base x' = a_lut_array_base x"
    using assms(1)
  proof (induction rule: rtranclp_induct)
    case base
    then show ?case using assms(2) by simp
  next
    case (step y z)
    then show ?case using lut_step_inv [OF step(2)] assms(3) by simp
  qed
  then show ?thesis by (simp add: lut_ok_def)
qed

theorem lut_always_agrees_witness:
  "\<exists>x. (lut_step (\<lambda>m. m))\<^sup>*\<^sup>* hw_example x \<and> x \<noteq> hw_example \<and> lut_agrees x"
proof -
  let ?x = "snd (run_state (plx_ioremap (\<lambda>m. m) 0x77000 0x1000) hw_example)"
  have "lut_step (\<lambda>m. m) hw_example ?x"
    by (rule step_map [OF hw_example_ok(2), where pa = "0x77000" and len = "0x1000"])
      (rule surjective_pairing)
  then have r: "(lut_step (\<lambda>m. m))\<^sup>*\<^sup>* hw_example ?x" by blast
  have "alm_lookup (a_lut_manager ?x) 0 \<noteq> alm_lookup (a_lut_manager hw_example) 0" by code_simp
  then have "?x \<noteq> hw_example" by auto
  then show ?thesis using r lut_always_agrees [OF r hw_example_ok(1) keeps_id] by blast
qed

text \<open>
  A run in which a mapping is released and later dropped by the clean-up of a request that
  fails: map a page, map another one, release the first, ask for more than is left.
\<close>

definition stale1 :: "unit plx_device" where
  "stale1 = snd (run_state (plx_ioremap (\<lambda>m. m) 0x77000 0x1000) hw_example)"

definition stale2 :: "unit plx_device" where
  "stale2 = snd (run_state (plx_ioremap (\<lambda>m. m) 0x90000 0x1000) stale1)"

definition stale3 :: "unit plx_device" where
  "stale3 = snd (run_state (plx_iounmap (\<lambda>m. m) 0x100000) stale2)"

definition stale4 :: "unit plx_device" where
  "stale4 = snd (run_state (plx_ioremap (\<lambda>m. m) 0x200000 0x3000) stale3)"


section \<open>Properties of the bring-up\<close>

lemma lut_reg_value:
  assumes "i < 256" "sub \<in> {0, 0x400, 0x800}" "unat base < 0x40000"
  shows "unat (lut_reg base i sub) = unat base + 4096 * (i div 128) + 4 * (i mod 128) + unat sub"
proof -
  have "i div 128 \<le> 1" "i mod 128 < 128" "unat sub \<le> 2048" using assms(1,2) by auto
  then show ?thesis
    unfolding lut_reg_def
    using entry_offset_value [OF assms(1,2)] assms(3) by (subst unat_plus_small) simp_all
qed

text \<open>
  The four A-LUT arrays of a bridge with two NTBs (two ports, two sides of each) do not
  share a register, nor do the two arrays of a bridge with one NTB, so no device overwrites
  the table of another one.
\<close>

theorem a_lut_arrays_disjoint:
  assumes "ntbs \<in> {1, 2}" and "i < 256 div ntbs" and "j < 256 div ntbs"
    and "sub \<in> {0, 0x400, 0x800}" and "sub' \<in> {0, 0x400, 0x800}"
    and "port \<in> {0, 1}" and "port' \<in> {0, 1}"
    and "(link, if ntbs = 2 then port else 0) \<noteq> (link', if ntbs = 2 then port' else 0)"
  shows "lut_reg (a_lut_base_of ntbs link port) i sub \<noteq> lut_reg (a_lut_base_of ntbs link' port') j sub'"
proof
  assume e: "lut_reg (a_lut_base_of ntbs link port) i sub = lut_reg (a_lut_base_of ntbs link' port') j sub'"
  have ij: "i < 256" "j < 256" using assms(1-3) by auto
  have b: "unat (a_lut_base_of ntbs link port) < 0x40000" "unat (a_lut_base_of ntbs link' port') < 0x40000"
    by (simp_all add: a_lut_base_of_def)
  have "unat (a_lut_base_of ntbs link port) + 4096 * (i div 128) + 4 * (i mod 128) + unat sub =
    unat (a_lut_base_of ntbs link' port') + 4096 * (j div 128) + 4 * (j mod 128) + unat sub'"
    using e lut_reg_value [OF ij(1) assms(4) b(1)] lut_reg_value [OF ij(2) assms(5) b(2)] by simp
  moreover have "4096 * (k div 128) + 4 * (k mod 128) \<le> (if ntbs = 2 then 508 else 4604)"
    if "k < 256 div ntbs" for k using that assms(1) by (auto simp: div_if mod_if)
  note this [OF assms(2)] this [OF assms(3)]
  moreover have "unat sub \<le> 2048" "unat sub' \<le> 2048" using assms(4,5) by auto
  ultimately show False
    using assms(1,6,7,8) assms(2,3)
    by (auto simp: a_lut_base_of_def split: if_splits)
qed

theorem a_lut_arrays_disjoint_witness:
  "lut_reg (a_lut_base_of 2 False 0) 127 0x800 \<noteq> lut_reg (a_lut_base_of 2 True 0) 0 0"
  using a_lut_arrays_disjoint [of 2 127 0 "0x800" 0 0 0 False True] by simp

text \<open>
  The address of the boot parameters that one side leaves in the two scratchpads is the
  address read from them, as long as the scratchpads are left alone in between.
\<close>

theorem dp_addr_roundtrip:
  assumes "keeps_regs {reg_base x + 0xC6C, reg_base x + 0xC70} hw"
  shows "fst (run_state (do { plx_set_dp_addr hw dp_addr; plx_get_dp_addr hw }) x) = dp_addr"
proof -
  have k: "regs (hw m) (reg_base x + 0xC6C) = regs m (reg_base x + 0xC6C)"
    "regs (hw m) (reg_base x + 0xC70) = regs m (reg_base x + 0xC70)" for m
    using keeps_regsD [OF assms] by auto
  show ?thesis
    using word_halves [of dp_addr]
    by (simp add: plx_set_dp_addr_def plx_get_dp_addr_def plx_write_spad_def plx_read_spad_def
        k or.commute add.assoc)
qed

theorem dp_addr_roundtrip_witness:
  "fst (run_state (do { plx_set_dp_addr (\<lambda>m. m) 0x123456789A; plx_get_dp_addr (\<lambda>m. m) }) hw_example)
     = 0x123456789A"
  by (rule dp_addr_roundtrip [OF keeps_id])

text \<open>The A-LUT block of the register file, and steps that leave it as it was.\<close>

definition a_lut_block :: "u32 set" where
  "a_lut_block = {0x38000 ..< 0x3c000}"

lemma a_lut_block_reg:
  assumes "ntbs \<in> {1, 2}" and "j < 256 div ntbs" and "sub \<in> {0, 0x400, 0x800}"
  shows "lut_reg (a_lut_base_of ntbs link port) j sub \<in> a_lut_block"
proof -
  have j: "j < 256" using assms(1,2) by auto
  have b: "unat (a_lut_base_of ntbs link port) < 0x40000" by (simp add: a_lut_base_of_def)
  have "4096 * (j div 128) + 4 * (j mod 128) \<le> (if ntbs = 2 then 508 else 4604)"
    using assms(1,2) by (auto simp: div_if mod_if)
  moreover have "unat sub \<le> 2048" using assms(3) by auto
  moreover have "unat (a_lut_base_of ntbs link port) \<ge> 0x38000"
    "unat (a_lut_base_of ntbs link port) \<le> (if ntbs = 2 then 0x3b000 else 0x3a000)"
    by (simp_all add: a_lut_base_of_def)
  ultimately show ?thesis
    using lut_reg_value [OF j assms(3) b] assms(1)
    by (auto simp: a_lut_block_def word_le_nat_alt word_less_nat_alt)
qed

definition same_block :: "'h bridge \<Rightarrow> 'h bridge \<Rightarrow> bool" where
  "same_block b m = (\<forall>r \<in> a_lut_block. regs m r = regs b r)"

lemma same_block_refl: "same_block b b"
  by (simp add: same_block_def)

lemma same_block_hw: "keeps_regs a_lut_block hw \<Longrightarrow> same_block b m \<Longrightarrow> same_block b (hw m)"
  by (simp add: same_block_def keeps_regs_def)

lemma same_block_write:
  "same_block b m \<Longrightarrow> off \<notin> a_lut_block \<Longrightarrow> same_block b (m\<lparr>regs := (regs m)(off := v)\<rparr>)"
  by (auto simp: same_block_def)

lemma same_block_view:
  assumes "same_block b m" "ntbs \<in> {1, 2}" "j < 256 div ntbs"
  shows "seg_view (a_lut_base_of ntbs link port) (regs m) j =
    seg_view (a_lut_base_of ntbs link port) (regs b) j"
  using assms(1) a_lut_block_reg [OF assms(2,3), of _ link port]
  by (simp add: seg_view_def same_block_def)

lemma reg_base_off_block:
  "plx_get_reg_base (if link then 1 else 0) (val AND 1) + 0xc94 \<notin> a_lut_block"
proof -
  have "val AND 1 = 0 \<or> val AND 1 = (1 :: u32)" by (simp add: and_one_eq mod2_eq_if)
  then show ?thesis by (auto simp: plx_get_reg_base_def a_lut_block_def)
qed

lemma ntbs_cases: "ntbs_of_device d \<in> {1, 2}"
  by (simp add: ntbs_of_device_def)

lemma alm_reset_zero:
  "plx_alm_reset \<lparr>segments_num = 0, segment_size = 0, entries = []\<rparr> =
     Inr \<lparr>segments_num = 0, segment_size = 0, entries = []\<rparr>"
  by code_simp


text \<open>A bridge on which an earlier owner left the first segment open.\<close>

definition init_example_dev :: pci_dev where
  "init_example_dev =
     \<lparr>pci_device_id = 0x2953, pci_devfn = 0, pci_bus = 5,
      pci_upstream = [\<lparr>br_root_port = False, br_bus = 4, br_devfn = 8\<rparr>,
        \<lparr>br_root_port = False, br_bus = 3, br_devfn = 0\<rparr>,
        \<lparr>br_root_port = True, br_bus = 0, br_devfn = 16\<rparr>],
      pci_port_id = Inr 0\<rparr>"

definition init_example_bridge :: "unit bridge" where
  "init_example_bridge =
     \<lparr>regs = (\<lambda>_. 0)(0x260 := 0x10000, 0x38000 := 0x77000, 0x38800 := 3), peer = (), jiffies = 0\<rparr>"


section \<open>Windows and the memory behind them\<close>

lemma op_inv_peer:
  assumes "\<And>m. P (peer m) \<Longrightarrow> P (peer (hw m))"
  defines "Q \<equiv> \<lambda>x. P (peer (mmio x))"
  shows "op_inv Q (plx_ioremap hw pa len)" "op_inv Q (plx_iounmap hw va)"
proof -
  have hw: "hw_inv hw Q" using assms(1) by (simp add: hw_inv_def Q_def)
  have wr: "op_inv Q (plx_mmio_write hw v off)" for v off
    using hw by (intro op_inv_mmio_write) (simp_all add: write_inv_def Q_def)
  have put: "op_inv Q (put_dev (a_lut_manager_update f))" for f by (intro op_inv_put) (simp add: Q_def)
  have prog: "op_inv Q (a_lut_program hw am is reg)" for am "is" reg
    by (induction "is" arbitrary: am reg) (auto intro!: op_inv_rules wr)
  have rev: "op_inv Q (a_lut_revoke hw is)" for "is"
    by (induction "is") (auto intro!: op_inv_rules wr)
  have "op_inv Q (plx_add_a_lut_entry hw pa len)"
    unfolding plx_add_a_lut_entry_def by (auto intro!: op_inv_rules hw prog put)
  then show "op_inv Q (plx_ioremap hw pa len)"
    unfolding plx_ioremap_def by (auto intro!: op_inv_rules)
  show "op_inv Q (plx_iounmap hw va)"
    unfolding plx_iounmap_def plx_del_a_lut_entry_def by (auto intro!: op_inv_rules rev put)
qed

text \<open>A window that can be used and released.\<close>

definition window_ready :: "'h plx_device \<Rightarrow> u64 \<Rightarrow> u64 \<Rightarrow> nat \<Rightarrow> bool" where
  "window_ready x va pa n =
     (window_mapped x va \<and>
      (\<forall>i < n. bridge_translate x (unat (va - aper_va x) + i) = Some (pa + of_nat i)) \<and>
      (\<forall>r m2. plx_alm_del_entry (a_lut_manager x)
          (unat (va - aper_va x) div unat (segment_size (a_lut_manager x))) = Inr (r, m2) \<longrightarrow>
        counters_below_max m2))"

lemma ioremap_run:
  assumes "a_lut x" and "lut_ok x" and "counters_below_max (a_lut_manager x)"
    and "keeps_regs (lut_regs (a_lut_array_base x)) hw"
  shows "\<exists>r m b. run_state (plx_ioremap hw pa len) x = (Some (Inr r), x\<lparr>a_lut_manager := m, mmio := b\<rparr>)
    \<and> lut_ok (x\<lparr>a_lut_manager := m, mmio := b\<rparr>)
    \<and> (\<forall>va. r = Some va \<longrightarrow> window_ready (x\<lparr>a_lut_manager := m, mmio := b\<rparr>) va pa (unat len))"
proof -
  obtain rc out m b where a: "run_state (plx_add_a_lut_entry hw pa len) x =
      (Some (Inr (rc, out)), x\<lparr>a_lut_manager := m, mmio := b\<rparr>)"
    "lut_ok (x\<lparr>a_lut_manager := m, mmio := b\<rparr>)"
    "case out of None \<Rightarrow> rc = ENOMEM
     | Some po \<Rightarrow> rc = EOK \<and> window_ready (x\<lparr>a_lut_manager := m, mmio := b\<rparr>) (aper_va x + po) pa (unat len)"
    using add_a_lut_window [OF assms(2-4), of pa len]
    by (auto simp: window_ready_def window_mapped_def Let_def split: option.splits)
  show ?thesis
  proof (cases out)
    case None
    then show ?thesis using a assms(1)
      by (intro exI [of _ None] exI [of _ m] exI [of _ b]) (simp add: plx_ioremap_def)
  next
    case (Some po)
    then show ?thesis using a assms(1)
      by (intro exI [of _ "Some (aper_va x + po)"] exI [of _ m] exI [of _ b]) (simp add: plx_ioremap_def)
  qed
qed

lemma iounmap_run:
  assumes "a_lut x" and "lut_ok x" and "keeps_regs (lut_regs (a_lut_array_base x)) hw"
    and "window_mapped x va"
    and "\<forall>r m2. plx_alm_del_entry (a_lut_manager x)
          (unat (va - aper_va x) div unat (segment_size (a_lut_manager x))) = Inr (r, m2) \<longrightarrow>
        counters_below_max m2"
  shows "\<exists>m b. run_state (plx_iounmap hw va) x = (Inr (), x\<lparr>a_lut_manager := m, mmio := b\<rparr>)
    \<and> lut_ok (x\<lparr>a_lut_manager := m, mmio := b\<rparr>) \<and> counters_below_max m"
  using del_a_lut_run [OF assms(2,3), of "va - aper_va x"] assms
  by (auto simp: plx_iounmap_def window_mapped_def Let_def)

lemma lut_ok_regs:
  assumes "lut_ok x" and "\<And>r. r \<in> lut_regs (a_lut_array_base x) \<Longrightarrow> regs m r = regs (mmio x) r"
  shows "lut_ok (x\<lparr>mmio := m\<rparr>)"
proof -
  have "seg_view (a_lut_array_base x) (regs m) j = seg_view (a_lut_array_base x) (regs (mmio x)) j" if "j < 256" for j
    using assms(2) that by (intro seg_view_cong) (auto intro: lut_regs_mem)
  then show ?thesis
    using assms(1) alm_inv_segs [of "a_lut_manager x"] by (auto simp: lut_ok_def lut_agrees_def)
qed

end
