(* ===== verification/Plx_Eeprom.thy ===== *)
theory Plx_Eeprom
  imports Plx_Hw
begin

text \<open>
  The EEPROM of the bridge (\<open>plx87xx/plx_hw.c\<close>): the command protocol on the status register,
  reads and writes of 32 and 16 bits, the check of an image and the update. The lemmas show
  what the checksum detects, what a successful update leaves in the chip, and when the
  update ends.
\<close>

unbundle bit_operations_syntax

section \<open>Status register\<close>

text \<open>
  The bit fields of \<open>struct plx_eep_status_register\<close>.
\<close>

abbreviation eep_blk_addr :: "u32 \<Rightarrow> u32" where "eep_blk_addr \<equiv> bit_field 0 13"
abbreviation eep_cmd :: "u32 \<Rightarrow> u32" where "eep_cmd \<equiv> bit_field 13 3"
abbreviation eep_cmd_status :: "u32 \<Rightarrow> u32" where "eep_cmd_status \<equiv> bit_field 18 1"
abbreviation eep_blk_addr_upper_bit :: "u32 \<Rightarrow> u32" where "eep_blk_addr_upper_bit \<equiv> bit_field 20 1"
abbreviation eep_ready :: "u32 \<Rightarrow> u32" where "eep_ready \<equiv> bit_field 24 1"
abbreviation eep_write_status :: "u32 \<Rightarrow> u32" where "eep_write_status \<equiv> bit_field 28 3"

definition PLX_EEP_STATUS_CONTROL :: u32 where "PLX_EEP_STATUS_CONTROL = 0x260"
definition PLX_EEP_BUFFER :: u32 where "PLX_EEP_BUFFER = 0x264"
definition PLX_EEP_ADDRESS_BYTE :: u32 where "PLX_EEP_ADDRESS_BYTE = 0x26C"

definition PLX_EEP_CMD_WRITE :: u32 where "PLX_EEP_CMD_WRITE = 2"
definition PLX_EEP_CMD_READ :: u32 where "PLX_EEP_CMD_READ = 3"
definition PLX_EEP_CMD_READ_STATUS :: u32 where "PLX_EEP_CMD_READ_STATUS = 5"
definition PLX_EEP_CMD_WRITE_ENABLE :: u32 where "PLX_EEP_CMD_WRITE_ENABLE = 6"

definition PLX_EEP_WAIT_TRIES :: nat where "PLX_EEP_WAIT_TRIES = 1000"

text \<open>
  The word a command consists of: block address, command and upper address bit are stored
  into a status word that was read.
\<close>

definition eep_command :: "u32 \<Rightarrow> u32 \<Rightarrow> u32 \<Rightarrow> u32" where
  "eep_command blk cmd status =
     set_bit_field 20 1 0 (set_bit_field 13 3 cmd (set_bit_field 0 13 blk status))"

section \<open>Commands\<close>

fun eeprom_wait_loop :: "'h hw \<Rightarrow> nat \<Rightarrow> ('h, plx_eep_retval) op" where
  "eeprom_wait_loop hw 0 = State_Monad.return PLX_EEP_TIMEOUT"
| "eeprom_wait_loop hw (Suc tries_left) =
     do {
       status \<leftarrow> plx_mmio_read hw PLX_EEP_STATUS_CONTROL;
       if eep_cmd_status status = 0 then State_Monad.return PLX_EEP_STATUS_OK
       else do { msleep hw; eeprom_wait_loop hw tries_left }
     }"

definition eeprom_wait_for_cmd_complete :: "'h hw \<Rightarrow> ('h, plx_eep_retval) op" where
  "eeprom_wait_for_cmd_complete hw = eeprom_wait_loop hw PLX_EEP_WAIT_TRIES"

definition eeprom_send_cmd :: "'h hw \<Rightarrow> u32 \<Rightarrow> u16 \<Rightarrow> ('h, plx_eep_retval) op" where
  "eeprom_send_cmd hw cmd offset =
     do {
       plx_mmio_write hw cmd (ucast offset);
       ret \<leftarrow> eeprom_wait_for_cmd_complete hw;
       if ret \<noteq> PLX_EEP_STATUS_OK then State_Monad.return ret
       else State_Monad.return PLX_EEP_STATUS_OK
     }"

fun eeprom_ready_loop :: "'h hw \<Rightarrow> nat \<Rightarrow> u32 \<Rightarrow> ('h, plx_eep_retval) op" where
  "eeprom_ready_loop hw 0 status = State_Monad.return PLX_EEP_TIMEOUT"
| "eeprom_ready_loop hw (Suc tries_left) status =
     do {
       ret \<leftarrow> eeprom_send_cmd hw status (ucast PLX_EEP_STATUS_CONTROL);
       if ret \<noteq> PLX_EEP_STATUS_OK then State_Monad.return ret
       else
         do {
           status \<leftarrow> plx_mmio_read hw PLX_EEP_STATUS_CONTROL;
           if eep_ready status = 0 \<and> eep_write_status status = 0
           then State_Monad.return PLX_EEP_STATUS_OK
           else do { msleep hw; eeprom_ready_loop hw tries_left status }
         }
     }"

definition eeprom_wait_for_access_ready :: "'h hw \<Rightarrow> ('h, plx_eep_retval) op" where
  "eeprom_wait_for_access_ready hw =
     do {
       status \<leftarrow> plx_mmio_read hw PLX_EEP_STATUS_CONTROL;
       eeprom_ready_loop hw PLX_EEP_WAIT_TRIES
         (set_bit_field 28 3 0 (set_bit_field 24 1 0
            (set_bit_field 13 3 PLX_EEP_CMD_READ_STATUS status)))
     }"

definition eeprom_read32 :: "'h hw \<Rightarrow> u32 \<Rightarrow> ('h, plx_eep_retval \<times> u32) op" where
  "eeprom_read32 hw offset =
     do {
       ret \<leftarrow> eeprom_wait_for_access_ready hw;
       if ret \<noteq> PLX_EEP_STATUS_OK then State_Monad.return (ret, 0)
       else
         do {
           status \<leftarrow> plx_mmio_read hw PLX_EEP_STATUS_CONTROL;
           ret \<leftarrow> eeprom_send_cmd hw (eep_command (offset div 4) PLX_EEP_CMD_READ status)
             (ucast PLX_EEP_STATUS_CONTROL);
           if ret \<noteq> PLX_EEP_STATUS_OK then State_Monad.return (ret, 0)
           else do { v \<leftarrow> plx_mmio_read hw PLX_EEP_BUFFER; State_Monad.return (PLX_EEP_STATUS_OK, v) }
         }
     }"

definition eeprom_read16 :: "'h hw \<Rightarrow> u32 \<Rightarrow> ('h, plx_eep_retval \<times> u16) op" where
  "eeprom_read16 hw offset =
     do {
       (ret, value_32) \<leftarrow> eeprom_read32 hw (offset AND NOT 3);
       if ret \<noteq> PLX_EEP_STATUS_OK then State_Monad.return (ret, 0)
       else State_Monad.return
         (PLX_EEP_STATUS_OK, if offset AND 3 \<noteq> 0 then ucast (drop_bit 16 value_32) else ucast value_32)
     }"

definition eeprom_write32 :: "'h hw \<Rightarrow> u16 \<Rightarrow> u32 \<Rightarrow> ('h, plx_eep_retval) op" where
  "eeprom_write32 hw offset value_32 =
     do {
       ret \<leftarrow> eeprom_wait_for_access_ready hw;
       if ret \<noteq> PLX_EEP_STATUS_OK then State_Monad.return ret
       else
         do {
           status \<leftarrow> plx_mmio_read hw PLX_EEP_STATUS_CONTROL;
           let enable = eep_command 0 PLX_EEP_CMD_WRITE_ENABLE status;
           ret \<leftarrow> eeprom_send_cmd hw enable (ucast PLX_EEP_STATUS_CONTROL);
           if ret \<noteq> PLX_EEP_STATUS_OK then State_Monad.return ret
           else
             do {
               plx_mmio_write hw value_32 PLX_EEP_BUFFER;
               ret \<leftarrow> eeprom_send_cmd hw (eep_command (ucast (offset div 4)) PLX_EEP_CMD_WRITE enable)
                 (ucast PLX_EEP_STATUS_CONTROL);
               if ret \<noteq> PLX_EEP_STATUS_OK then State_Monad.return ret
               else State_Monad.return PLX_EEP_STATUS_OK
             }
         }
     }"

definition eeprom_write16 :: "'h hw \<Rightarrow> u16 \<Rightarrow> u16 \<Rightarrow> ('h, plx_eep_retval) op" where
  "eeprom_write16 hw offset value_16 =
     do {
       (ret, value_32) \<leftarrow> eeprom_read32 hw (ucast (offset AND NOT 3));
       if ret \<noteq> PLX_EEP_STATUS_OK then State_Monad.return ret
       else
         do {
           let value_32 =
             (if offset AND 3 \<noteq> 0 then push_bit 16 (ucast value_16) OR (value_32 AND 0xFFFF)
              else ucast value_16 OR (value_32 AND 0xFFFF0000));
           ret \<leftarrow> eeprom_write32 hw (offset AND NOT 3) value_32;
           if ret \<noteq> PLX_EEP_STATUS_OK then State_Monad.return ret
           else State_Monad.return PLX_EEP_STATUS_OK
         }
     }"

section \<open>Images\<close>

text \<open>
  An image is the list of bytes the caller passes; its length is \<open>eeprom_size\<close>. The machine
  reads 16 and 32 bits in little endian order.
\<close>

definition le16 :: "u8 list \<Rightarrow> nat \<Rightarrow> u16" where
  "le16 data off = ucast (data ! off) OR push_bit 8 (ucast (data ! (off + 1)))"

definition le32 :: "u8 list \<Rightarrow> nat \<Rightarrow> u32" where
  "le32 data off = ucast (le16 data off) OR push_bit 16 (ucast (le16 data (off + 2)))"

definition crc_step :: "u32 \<Rightarrow> nat \<Rightarrow> u32 \<Rightarrow> u32" where
  "crc_step next_crc_value i crc_calculated =
     (let xor_value = (crc_calculated XOR push_bit i next_crc_value) AND push_bit 31 1
      in push_bit 1 crc_calculated XOR (if xor_value \<noteq> 0 then 0xDB710641 else 0))"

definition crc_word :: "u32 \<Rightarrow> u32 \<Rightarrow> u32" where
  "crc_word next_crc_value crc_calculated = fold (crc_step next_crc_value) [0..<32] crc_calculated"

function crc_from :: "u8 list \<Rightarrow> nat \<Rightarrow> nat \<Rightarrow> u32 \<Rightarrow> u32" where
  "crc_from data crc_end_offset crc_offset crc_calculated =
     (if crc_offset < crc_end_offset then
        let next_crc_value =
              (if crc_end_offset - crc_offset = 2 then ucast (le16 data crc_offset)
               else le32 data crc_offset)
        in crc_from data crc_end_offset (crc_offset + 4) (crc_word next_crc_value crc_calculated)
      else crc_calculated)"
  by pat_completeness auto
termination
  by (relation "measure (\<lambda>(data, e, off, crc). e - off)") auto

declare crc_from.simps [simp del]

definition eeprom_check_crc :: "u8 list \<Rightarrow> plx_eep_retval" where
  "eeprom_check_crc eeprom_data =
     (let crc_end_offset = length eeprom_data - 4
      in if crc_from eeprom_data crc_end_offset 2 0xFFFFFFFF \<noteq> le32 eeprom_data crc_end_offset
         then PLX_EEP_INTERNAL_ERROR else PLX_EEP_STATUS_OK)"

definition eeprom_validate :: "u8 list \<Rightarrow> plx_eep_retval" where
  "eeprom_validate eeprom_data =
     (if length eeprom_data \<le> 4 + 4 then PLX_EEP_INTERNAL_ERROR
      else
        let validation_signature = eeprom_data ! 0;
            configuration_size = unat (le16 eeprom_data 2)
        in if configuration_size mod 6 \<noteq> 0 then PLX_EEP_INTERNAL_ERROR
           else if length eeprom_data - 4 - 4 \<noteq> configuration_size then PLX_EEP_INTERNAL_ERROR
           else if validation_signature \<noteq> 0x5A then PLX_EEP_INTERNAL_ERROR
           else eeprom_check_crc eeprom_data)"

section \<open>Update\<close>

text \<open>
  The loop over the image. Its offset has 16 bits; \<open>None\<close> means that the fuel ran out before
  the loop did.
\<close>

fun eeprom_program :: "'h hw \<Rightarrow> nat \<Rightarrow> u8 list \<Rightarrow> u16 \<Rightarrow> ('h, plx_eep_retval option) op" where
  "eeprom_program hw 0 eeprom_data offset = State_Monad.return None"
| "eeprom_program hw (Suc fuel) eeprom_data offset =
     (if unat offset < length eeprom_data then
        if length eeprom_data - unat offset = 2 then
          do {
            let value_16 = le16 eeprom_data (unat offset);
            ret \<leftarrow> eeprom_write16 hw offset value_16;
            if ret \<noteq> PLX_EEP_STATUS_OK then State_Monad.return (Some ret)
            else
              do {
                (ret, verify_value_16) \<leftarrow> eeprom_read16 hw (ucast offset);
                if ret \<noteq> PLX_EEP_STATUS_OK then State_Monad.return (Some ret)
                else if value_16 \<noteq> verify_value_16
                then State_Monad.return (Some PLX_EEP_INTERNAL_ERROR)
                else State_Monad.return (Some PLX_EEP_STATUS_OK)
              }
          }
        else
          do {
            let value_32 = le32 eeprom_data (unat offset);
            ret \<leftarrow> eeprom_write32 hw offset value_32;
            if ret \<noteq> PLX_EEP_STATUS_OK then State_Monad.return (Some ret)
            else
              do {
                (ret, verify_value_32) \<leftarrow> eeprom_read32 hw (ucast offset);
                if ret \<noteq> PLX_EEP_STATUS_OK then State_Monad.return (Some ret)
                else if value_32 \<noteq> verify_value_32
                then State_Monad.return (Some PLX_EEP_INTERNAL_ERROR)
                else eeprom_program hw fuel eeprom_data (offset + 4)
              }
          }
      else State_Monad.return (Some PLX_EEP_STATUS_OK))"

definition plx_update_eeprom :: "'h hw \<Rightarrow> nat \<Rightarrow> u8 list \<Rightarrow> ('h, plx_eep_retval option) op" where
  "plx_update_eeprom hw fuel eeprom_data =
     (let ret = eeprom_validate eeprom_data
      in if ret \<noteq> PLX_EEP_STATUS_OK then State_Monad.return (Some ret)
         else
           do {
             eep_3rd_addr_byte_reg \<leftarrow> plx_mmio_read hw PLX_EEP_ADDRESS_BYTE;
             (if eep_3rd_addr_byte_reg AND 3 \<noteq> 0 then
                plx_mmio_write hw (eep_3rd_addr_byte_reg AND (0xFF00 OR 0xFFFF0000)) PLX_EEP_ADDRESS_BYTE
              else State_Monad.return ());
             eeprom_program hw fuel eeprom_data 0
           })"

section \<open>The checksum\<close>

text \<open>One step of the shift register, and the dwords of a byte string.\<close>

definition lfsr :: "u32 \<Rightarrow> u32" where
  "lfsr t = push_bit 1 t XOR (if bit t 31 then 0xDB710641 else 0)"

fun le_words :: "u8 list \<Rightarrow> u32 list" where
  "le_words (a # b # c # d # xs) =
     (ucast a OR push_bit 8 (ucast b) OR push_bit 16 (ucast c) OR push_bit 24 (ucast d)) # le_words xs"
| "le_words _ = []"

definition crc_area :: "u8 list \<Rightarrow> u8 list" where
  "crc_area data =
     (let area = drop 2 (take (length data - 4) data)
      in area @ replicate (length area mod 4) 0)"

definition lfsr32 :: "u32 \<Rightarrow> u32" where
  "lfsr32 s = (lfsr ^^ 32) s"

definition crc_ref :: "u32 list \<Rightarrow> u32 \<Rightarrow> u32" where
  "crc_ref ws s = fold (\<lambda>w s. lfsr32 (s XOR w)) ws s"

lemma xor_cancel:
  fixes a b c :: u32
  assumes "a XOR c = b XOR c"
  shows "a = b"
  using arg_cong [OF assms, of "\<lambda>u. u XOR c"] by (simp add: xor.assoc)

lemma lfsr_inj: "inj lfsr"
proof (rule injI)
  fix s t :: u32
  assume e: "lfsr s = lfsr t"
  have lsb: "bit (lfsr u) 0 = bit u 31" for u
    by (simp add: lfsr_def bit_xor_iff bit_push_bit_iff bit_numeral_rec del: push_bit_of_1 push_bit_Suc push_bit_numeral)
  have top: "bit s 31 = bit t 31" using arg_cong [OF e, of "\<lambda>u. bit u 0"] by (simp add: lsb)
  then have "push_bit 1 s = push_bit 1 t"
    using e xor_cancel by (auto simp: lfsr_def simp del: push_bit_Suc push_bit_numeral split: if_splits)
  then have *: "bit (push_bit 1 s) (Suc n) = bit (push_bit 1 t) (Suc n)" for n by simp
  have "bit s n = bit t n" if "n < 31" for n
    using * [of n] that by (simp add: bit_push_bit_iff del: push_bit_Suc)
  then have "bit s n = bit t n" if "n < 32" for n using top that by (cases "n = 31") auto
  then show "s = t" by (intro bit_word_eqI) simp
qed

lemma lfsr_funpow_inj: "(lfsr ^^ n) s = (lfsr ^^ n) t \<Longrightarrow> s = t"
  using lfsr_inj by (induction n) (auto dest: injD)

lemma lfsr32_inj: "lfsr32 s = lfsr32 t \<Longrightarrow> s = t"
  unfolding lfsr32_def by (rule lfsr_funpow_inj)

lemma crc_step_lfsr: "crc_step w i s XOR push_bit (Suc i) w = lfsr (s XOR push_bit i w)"
proof -
  have "((s XOR push_bit i w) AND push_bit 31 1 \<noteq> 0) = bit (s XOR push_bit i w) 31"
    by (simp add: bit_iff_and_push_bit_not_eq_0)
  moreover have "push_bit (Suc i) w = push_bit 1 (push_bit i w)" by simp
  ultimately show ?thesis
    unfolding crc_step_def lfsr_def Let_def
    by (simp add: push_bit_xor ac_simps del: push_bit_Suc push_bit_push_bit)
qed

lemma crc_steps_lfsr: "fold (crc_step w) [0..<n] s XOR push_bit n w = (lfsr ^^ n) (s XOR w)"
proof (induction n)
  case 0
  then show ?case by simp
next
  case (Suc n)
  then show ?case using crc_step_lfsr [of w n "fold (crc_step w) [0..<n] s"] by simp
qed

lemma crc_word_lfsr: "crc_word w s = lfsr32 (s XOR w)"
proof -
  have "push_bit 32 w = 0" by (rule bit_word_eqI) (simp add: bit_simps)
  then show ?thesis using crc_steps_lfsr [of w 32 s] by (simp add: crc_word_def lfsr32_def)
qed

lemma le32_bytes:
  "le32 data off = ucast (data ! off) OR push_bit 8 (ucast (data ! (off + 1))) OR
     push_bit 16 (ucast (data ! (off + 2))) OR push_bit 24 (ucast (data ! (off + 3)))"
  unfolding le32_def le16_def
  by (rule bit_word_eqI) (auto simp: bit_simps numeral_3_eq_3 dest: bit_imp_le_length)

lemma drop_4:
  assumes "off + 4 \<le> length xs"
  shows "drop off xs = xs ! off # xs ! (off + 1) # xs ! (off + 2) # xs ! (off + 3) # drop (off + 4) xs"
proof -
  have "drop k xs = xs ! k # drop (Suc k) xs" if "k < length xs" for k
    using that by (rule Cons_nth_drop_Suc [symmetric])
  then show ?thesis using assms by (simp add: numeral_2_eq_2 numeral_3_eq_3 eval_nat_numeral)
qed

lemma drop_2:
  assumes "off + 2 = length xs"
  shows "drop off xs = [xs ! off, xs ! (off + 1)]"
proof -
  have "drop k xs = xs ! k # drop (Suc k) xs" if "k < length xs" for k
    using that by (rule Cons_nth_drop_Suc [symmetric])
  then show ?thesis using assms by simp
qed

lemma crc_from_ref:
  assumes "e \<le> length data" and "even (e - off)"
  shows "crc_from data e off s =
    crc_ref (le_words (drop off (take e data) @ replicate ((e - off) mod 4) 0)) s"
  using assms
proof (induction data e off s rule: crc_from.induct)
  case (1 data e off s)
  obtain k where "e - off = 2 * k" using 1(3) by (elim evenE)
  then consider "e \<le> off" | "e - off = 2" | "off + 4 \<le> e" by (cases "k \<le> 1"; cases "k = 1") auto
  then show ?case
  proof cases
    case 1
    then show ?thesis by (subst crc_from.simps) (simp add: crc_ref_def)
  next
    case 2
    then have "drop off (take e data) = [data ! off, data ! (off + 1)]"
      using 1(2) by (subst drop_2) auto
    moreover have "ucast (le16 data off) = (ucast (data ! off) OR push_bit 8 (ucast (data ! Suc off)) :: u32)"
      unfolding le16_def by (rule bit_word_eqI) (auto simp: bit_simps dest: bit_imp_le_length)
    moreover have "off < e" "\<not> off + 4 < e" using 2 by auto
    ultimately show ?thesis
      using 2 by (subst crc_from.simps, subst crc_from.simps)
        (simp add: crc_ref_def crc_word_lfsr numeral_2_eq_2 Let_def)
  next
    case 3
    then have d: "drop off (take e data) = data ! off # data ! (off + 1) # data ! (off + 2) # data ! (off + 3)
        # drop (off + 4) (take e data)"
      using 1(2) by (subst drop_4) auto
    have n: "e - off \<noteq> 2" using 3 by simp
    have m: "(e - off) mod 4 = (e - (off + 4)) mod 4" using 3 by (simp add: le_mod_geq)
    show ?thesis
      using 1(1) [OF _ refl 1(2)] 1(3) 3 m n
      by (subst crc_from.simps) (simp add: d crc_ref_def crc_word_lfsr le32_bytes)
  qed
qed

lemma check_crc_iff:
  assumes "even (length data)" and "8 \<le> length data"
  shows "eeprom_check_crc data =
    (if crc_ref (le_words (crc_area data)) 0xFFFFFFFF = le32 data (length data - 4)
     then PLX_EEP_STATUS_OK else PLX_EEP_INTERNAL_ERROR)"
proof -
  have "crc_from data (length data - 4) 2 0xFFFFFFFF = crc_ref (le_words (crc_area data)) 0xFFFFFFFF"
    using assms by (subst crc_from_ref) (auto simp: crc_area_def Let_def)
  then show ?thesis by (simp add: eeprom_check_crc_def Let_def)
qed

text \<open>
  C17. The bit loop of \<open>eeprom_check_crc\<close> computes a 32 bit shift register checksum with the
  polynomial \<open>0xDB710641\<close>: an image of even length passes exactly when its last four bytes
  are the register after the little endian dwords from offset 2 on, the last one filled up
  with zeros.
\<close>

theorem eeprom_check_crc_reference:
  assumes "even (length data)" and "8 \<le> length data"
  shows "(eeprom_check_crc data = PLX_EEP_STATUS_OK) =
    (crc_ref (le_words (crc_area data)) 0xFFFFFFFF = le32 data (length data - 4))"
  using check_crc_iff [OF assms] by simp

theorem eeprom_check_crc_reference_witness:
  "(eeprom_check_crc (replicate 14 0x5A) = PLX_EEP_STATUS_OK) =
     (crc_ref (le_words (crc_area (replicate 14 0x5A))) 0xFFFFFFFF
       = le32 (replicate 14 0x5A) (length (replicate 14 (0x5A :: u8)) - 4))"
  by (rule eeprom_check_crc_reference) simp_all

section \<open>What the checksum detects\<close>

lemma crc_ref_inj: "crc_ref ws s = crc_ref ws t \<Longrightarrow> s = t"
proof (induction ws arbitrary: s t)
  case Nil
  then show ?case by (simp add: crc_ref_def)
next
  case (Cons w ws)
  have "crc_ref ws (lfsr32 (s XOR w)) = crc_ref ws (lfsr32 (t XOR w))"
    using Cons.prems by (simp add: crc_ref_def)
  then have "lfsr32 (s XOR w) = lfsr32 (t XOR w)" by (rule Cons.IH)
  then show ?case using lfsr32_inj xor_cancel by blast
qed

lemma crc_ref_update:
  assumes "k < length ws" and "w \<noteq> ws ! k"
  shows "crc_ref (ws[k := w]) s \<noteq> crc_ref ws s"
  using assms
proof (induction ws arbitrary: k s)
  case Nil
  then show ?case by simp
next
  case (Cons v ws)
  show ?case
  proof (cases k)
    case 0
    have "lfsr32 (s XOR w) \<noteq> lfsr32 (s XOR v)"
      using Cons.prems 0 lfsr32_inj xor_cancel [of w s v] by (auto simp: xor.commute)
    then show ?thesis using crc_ref_inj 0 by (auto simp: crc_ref_def)
  next
    case (Suc j)
    then show ?thesis using Cons by (auto simp: crc_ref_def)
  qed
qed

lemma dword_inj:
  fixes a b c d a' b' c' d' :: u8
  assumes "(ucast a OR push_bit 8 (ucast b) OR push_bit 16 (ucast c) OR push_bit 24 (ucast d) :: u32) =
    ucast a' OR push_bit 8 (ucast b') OR push_bit 16 (ucast c') OR push_bit 24 (ucast d')"
  shows "a = a' \<and> b = b' \<and> c = c' \<and> d = d'"
proof -
  let ?w = "\<lambda>a b c d. ucast (a :: u8) OR push_bit 8 (ucast (b :: u8)) OR push_bit 16 (ucast (c :: u8))
    OR push_bit 24 (ucast (d :: u8)) :: u32"
  have "ucast (?w a b c d) = a" for a b c d
    by (rule bit_word_eqI) (auto simp: bit_simps)
  moreover have "ucast (drop_bit 8 (?w a b c d)) = b" for a b c d
    by (rule bit_word_eqI) (auto simp: bit_simps dest: bit_imp_le_length)
  moreover have "ucast (drop_bit 16 (?w a b c d)) = c" for a b c d
    by (rule bit_word_eqI) (auto simp: bit_simps dest: bit_imp_le_length)
  moreover have "ucast (drop_bit 24 (?w a b c d)) = d" for a b c d
    by (rule bit_word_eqI) (auto simp: bit_simps dest: bit_imp_le_length)
  ultimately show ?thesis using assms by metis
qed

lemma le_words_update:
  assumes "length xs mod 4 = 0" and "i < length xs" and "v \<noteq> xs ! i"
  shows "\<exists>k w. k < length (le_words xs) \<and> w \<noteq> le_words xs ! k \<and> le_words (xs[i := v]) = (le_words xs)[k := w]"
  using assms
proof (induction xs arbitrary: i rule: le_words.induct)
  case (1 a b c d xs)
  show ?case
  proof (cases "i < 4")
    case True
    then obtain a' b' c' d' where u: "(a # b # c # d # xs)[i := v] = a' # b' # c' # d' # xs"
      "(a, b, c, d) \<noteq> (a', b', c', d')"
      using 1(4) by (auto simp: less_Suc_eq numeral_eq_Suc)
    let ?w = "\<lambda>a b c d. ucast (a :: u8) OR push_bit 8 (ucast (b :: u8)) OR push_bit 16 (ucast (c :: u8))
      OR push_bit 24 (ucast (d :: u8)) :: u32"
    have "?w a' b' c' d' \<noteq> ?w a b c d" using u(2) dword_inj by blast
    then show ?thesis
      unfolding u(1) by (intro exI [of _ 0] exI [of _ "?w a' b' c' d'"]) simp
  next
    case False
    then obtain j where j: "i = j + 4" using le_iff_add [of 4 i] by (auto simp: add.commute)
    have sh: "(a # b # c # d # xs)[j + 4 := v] = a # b # c # d # xs[j := v]"
      "(a # b # c # d # xs) ! (j + 4) = xs ! j"
      by (simp_all add: numeral_eq_Suc)
    have "j < length xs" "length xs mod 4 = 0" using 1(2,3) j by auto
    then obtain k w where "k < length (le_words xs)" "w \<noteq> le_words xs ! k"
      "le_words (xs[j := v]) = (le_words xs)[k := w]"
      using 1(1) [of j] 1(4) j sh(2) by auto
    then show ?thesis
      unfolding j sh by (intro exI [of _ "Suc k"] exI [of _ w]) simp
  qed
qed auto
lemma crc_area_length: "even (length data) \<Longrightarrow> 8 \<le> length data \<Longrightarrow> length (crc_area data) mod 4 = 0"
proof -
  assume "even (length data)" "8 \<le> length data"
  then obtain k where k: "length data - 6 = 2 * k" by (metis dvd_diff_nat even_numeral evenE)
  have "(2 * k + 2 * k mod 4) mod 4 = 0" by presburger
  then show ?thesis using k by (simp add: crc_area_def Let_def)
qed

text \<open>
  C32. A changed byte is noticed: when an image passes the checksum, no image that differs from
  it in one byte passes, unless the byte is one of the first two, the signature and the flags,
  which the checksum leaves out.
\<close>

theorem eeprom_crc_detects_byte:
  assumes "even (length data)" and "8 \<le> length data" and "eeprom_check_crc data = PLX_EEP_STATUS_OK"
    and "2 \<le> i" and "i < length data" and "v \<noteq> data ! i"
  shows "eeprom_check_crc (data[i := v]) = PLX_EEP_INTERNAL_ERROR"
proof -
  let ?d = "data[i := v]" and ?e = "length data - 4"
  have ok: "crc_ref (le_words (crc_area data)) 0xFFFFFFFF = le32 data ?e"
    using assms(3) check_crc_iff [OF assms(1,2)] by (simp split: if_splits)
  have "crc_ref (le_words (crc_area ?d)) 0xFFFFFFFF \<noteq> le32 ?d ?e"
  proof (cases "i < ?e")
    case True
    have i: "i - 2 < length data - 6" "Suc (Suc (i - 2)) = i" using True assms(4) by auto
    have "i - 2 < length (crc_area data)" "crc_area data ! (i - 2) = data ! i"
      and u: "crc_area ?d = (crc_area data)[i - 2 := v]"
      using True i assms(4) by (simp_all add: crc_area_def Let_def nth_append take_update_swap drop_update_swap
          list_update_append)
    then obtain k w where "k < length (le_words (crc_area data))" "w \<noteq> le_words (crc_area data) ! k"
      "le_words (crc_area ?d) = (le_words (crc_area data))[k := w]"
      using le_words_update [OF crc_area_length [OF assms(1,2)]] assms(6) by metis
    then have "crc_ref (le_words (crc_area ?d)) 0xFFFFFFFF \<noteq> crc_ref (le_words (crc_area data)) 0xFFFFFFFF"
      using crc_ref_update by metis
    moreover have "le32 ?d ?e = le32 data ?e" using True by (simp add: le32_bytes)
    ultimately show ?thesis using ok by simp
  next
    case False
    have "crc_area ?d = crc_area data" using False by (simp add: crc_area_def Let_def)
    moreover have "le32 ?d ?e \<noteq> le32 data ?e"
    proof
      assume "le32 ?d ?e = le32 data ?e"
      then have "?d ! ?e = data ! ?e \<and> ?d ! (?e + 1) = data ! (?e + 1) \<and> ?d ! (?e + 2) = data ! (?e + 2)
        \<and> ?d ! (?e + 3) = data ! (?e + 3)"
        unfolding le32_bytes by (rule dword_inj)
      moreover have "i \<in> {?e, ?e + 1, ?e + 2, ?e + 3}" using False assms(2,5) by auto
      moreover have "?d ! i = v" using assms(5) by simp
      ultimately show False using assms(6) by auto
    qed
    ultimately show ?thesis using ok by simp
  qed
  then show ?thesis using check_crc_iff [of ?d] assms(1,2) by simp
qed

section \<open>Building an image\<close>

definition le_bytes :: "u32 \<Rightarrow> u8 list" where
  "le_bytes w = [ucast w, ucast (drop_bit 8 w), ucast (drop_bit 16 w), ucast (drop_bit 24 w)]"

definition eeprom_image :: "u8 \<Rightarrow> u8 list \<Rightarrow> u8 list" where
  "eeprom_image flags config =
     (let n = of_nat (length config) :: u32;
          d = 0x5A # flags # take 2 (le_bytes n) @ config
      in d @ le_bytes (crc_ref (le_words (crc_area (d @ replicate 4 0))) 0xFFFFFFFF))"

lemma le32_le_bytes: "length d = n \<Longrightarrow> le32 (d @ le_bytes w) n = w"
  unfolding le32_bytes
proof (rule bit_word_eqI, goal_cases)
  case (1 na)
  then show ?case
    by (cases "na < 16"; cases "na < 24") (auto simp: le_bytes_def nth_append bit_simps dest: bit_imp_le_length)
qed

lemma crc_area_append:
  "length x = 4 \<Longrightarrow> crc_area (d @ x) = drop 2 d @ replicate ((length d - 2) mod 4) 0"
  by (simp add: crc_area_def Let_def)

lemma image_parts:
  assumes "length config mod 6 = 0" and "length config < 65536"
  shows "length (eeprom_image flags config) = length config + 8"
    and "unat (le16 (eeprom_image flags config) 2) = length config"
    and "eeprom_check_crc (eeprom_image flags config) = PLX_EEP_STATUS_OK"
proof -
  let ?n = "of_nat (length config) :: u32"
  let ?d = "0x5A # flags # take 2 (le_bytes ?n) @ config"
  let ?w = "crc_ref (le_words (crc_area (?d @ replicate 4 0))) 0xFFFFFFFF"
  have img: "eeprom_image flags config = ?d @ le_bytes ?w" by (simp add: eeprom_image_def Let_def)
  have len: "length (le_bytes u) = 4" for u by (simp add: le_bytes_def)
  have n: "unat (ucast ?n :: u16) = length config"
    using assms(2) by (simp add: unsigned_ucast_eq take_bit_eq_mod unat_of_nat)
  have "le16 (eeprom_image flags config) 2 = ucast ?n"
    unfolding img le16_def
    by (rule bit_word_eqI) (auto simp: le_bytes_def bit_simps numeral_2_eq_2 nth_Cons' dest: bit_imp_le_length)
  then show "unat (le16 (eeprom_image flags config) 2) = length config" using n by simp
  show tot: "length (eeprom_image flags config) = length config + 8" by (simp add: img len)
  have "even (length config)" using assms(1) by presburger
  moreover have "crc_area (eeprom_image flags config) = crc_area (?d @ replicate 4 0)"
    unfolding img by (subst (1 2) crc_area_append) (simp_all add: len)
  moreover have "le32 (eeprom_image flags config) (length config + 4) = ?w"
    unfolding img by (rule le32_le_bytes) (simp add: len)
  ultimately show "eeprom_check_crc (eeprom_image flags config) = PLX_EEP_STATUS_OK"
    by (subst check_crc_iff) (simp_all add: tot add.commute)
qed

lemma image_validate:
  assumes "length config mod 6 = 0" and "config \<noteq> []" and "length config < 65536"
  shows "eeprom_validate (eeprom_image flags config) = PLX_EEP_STATUS_OK"
  using image_parts [OF assms(1,3), of flags] assms
  by (simp add: eeprom_validate_def) (simp add: eeprom_image_def Let_def)

text \<open>
  An image built from a configuration with the header and the checksum of the layout in
  the comment of \<open>plx_update_eeprom\<close> is accepted, for every configuration whose size is a
  multiple of six and fits the 16 bit size field, whatever its flags.
\<close>

theorem eeprom_image_valid:
  assumes "length config mod 6 = 0" and "config \<noteq> []" and "length config < 65536"
  shows "eeprom_validate (eeprom_image flags config) = PLX_EEP_STATUS_OK"
  by (rule image_validate [OF assms])

theorem eeprom_image_valid_witness:
  "eeprom_validate (eeprom_image 7 [1, 2, 3, 4, 5, 6]) = PLX_EEP_STATUS_OK"
  by (rule eeprom_image_valid) simp_all

theorem eeprom_crc_detects_byte_witness:
  "eeprom_check_crc ((eeprom_image 7 [1, 2, 3, 4, 5, 6])[9 := 0]) = PLX_EEP_INTERNAL_ERROR"
  by (rule eeprom_crc_detects_byte [OF _ _ image_parts(3)])
    (simp_all add: eeprom_image_def Let_def le_bytes_def)

section \<open>The chip\<close>

text \<open>
  What the driver relies on. The chip keeps the command fields of the status register; when
  it reports the command as complete, a read has put the addressed block into the buffer and
  a write has put the buffer into the block; until then it may or may not have done so.
  Other commands leave the blocks and the buffer alone.
\<close>

definition eep_block :: "u32 \<Rightarrow> u32" where
  "eep_block s = eep_blk_addr s OR push_bit 13 (eep_blk_addr_upper_bit s)"

definition eeprom_chip :: "('h \<Rightarrow> u32 \<Rightarrow> u32) \<Rightarrow> 'h hw \<Rightarrow> bool" where
  "eeprom_chip contents hw =
     (\<forall>m. let s = regs m PLX_EEP_STATUS_CONTROL; s' = regs (hw m) PLX_EEP_STATUS_CONTROL;
              blk = eep_block s; buf = regs m PLX_EEP_BUFFER; buf' = regs (hw m) PLX_EEP_BUFFER;
              c = contents (peer m); c' = contents (peer (hw m))
          in eep_cmd s' = eep_cmd s \<and> eep_block s' = blk \<and>
             (if eep_cmd s = PLX_EEP_CMD_READ then
                c' = c \<and> (buf' = c blk \<or> buf' = buf \<and> eep_cmd_status s' \<noteq> 0)
              else if eep_cmd s = PLX_EEP_CMD_WRITE then
                buf' = buf \<and> (c' = c(blk := buf) \<or> c' = c \<and> eep_cmd_status s' \<noteq> 0)
              else c' = c \<and> buf' = buf))"

definition eeprom_prompt :: "'h hw \<Rightarrow> bool" where
  "eeprom_prompt hw =
     (\<forall>m. let s = regs (hw m) PLX_EEP_STATUS_CONTROL
          in eep_cmd_status s = 0 \<and> eep_ready s = 0 \<and> eep_write_status s = 0)"

text \<open>A write that is still in the status register has reached its block.\<close>

definition eep_idle :: "('h \<Rightarrow> u32 \<Rightarrow> u32) \<Rightarrow> 'h bridge \<Rightarrow> bool" where
  "eep_idle contents m =
     (let s = regs m PLX_EEP_STATUS_CONTROL
      in eep_cmd s = PLX_EEP_CMD_WRITE \<longrightarrow> contents (peer m) (eep_block s) = regs m PLX_EEP_BUFFER)"

lemma eep_command_fields:
  "eep_cmd (eep_command blk cmd s) = cmd AND mask 3"
  "eep_block (eep_command blk cmd s) = blk AND mask 13"
  unfolding eep_command_def eep_block_def
  by (simp_all add: bit_fields del: mask_numeral)

lemmas eep_regs = PLX_EEP_STATUS_CONTROL_def PLX_EEP_BUFFER_def PLX_EEP_ADDRESS_BYTE_def

lemmas eep_cmds = PLX_EEP_CMD_WRITE_def PLX_EEP_CMD_READ_def PLX_EEP_CMD_READ_STATUS_def
  PLX_EEP_CMD_WRITE_ENABLE_def

lemma eep_cmd_mask:
  "PLX_EEP_CMD_WRITE AND mask 3 = PLX_EEP_CMD_WRITE" "PLX_EEP_CMD_READ AND mask 3 = PLX_EEP_CMD_READ"
  "PLX_EEP_CMD_READ_STATUS AND mask 3 = PLX_EEP_CMD_READ_STATUS"
  "PLX_EEP_CMD_WRITE_ENABLE AND mask 3 = PLX_EEP_CMD_WRITE_ENABLE"
  by code_simp+

lemma chip_fields:
  assumes "eeprom_chip contents hw"
  shows "eep_cmd (regs (hw m) PLX_EEP_STATUS_CONTROL) = eep_cmd (regs m PLX_EEP_STATUS_CONTROL)"
    "eep_block (regs (hw m) PLX_EEP_STATUS_CONTROL) = eep_block (regs m PLX_EEP_STATUS_CONTROL)"
  using assms by (simp_all add: eeprom_chip_def Let_def)

lemma chip_read:
  assumes "eeprom_chip contents hw" "eep_cmd (regs m PLX_EEP_STATUS_CONTROL) = PLX_EEP_CMD_READ"
  shows "contents (peer (hw m)) = contents (peer m)"
    "regs (hw m) PLX_EEP_BUFFER = contents (peer m) (eep_block (regs m PLX_EEP_STATUS_CONTROL)) \<or>
     regs (hw m) PLX_EEP_BUFFER = regs m PLX_EEP_BUFFER \<and>
     eep_cmd_status (regs (hw m) PLX_EEP_STATUS_CONTROL) \<noteq> 0"
  using assms(1) [unfolded eeprom_chip_def Let_def, THEN spec, of m] assms(2) by (simp_all split: if_splits)

lemma chip_write:
  assumes "eeprom_chip contents hw" "eep_cmd (regs m PLX_EEP_STATUS_CONTROL) = PLX_EEP_CMD_WRITE"
  shows "regs (hw m) PLX_EEP_BUFFER = regs m PLX_EEP_BUFFER"
    "contents (peer (hw m)) =
       (contents (peer m))(eep_block (regs m PLX_EEP_STATUS_CONTROL) := regs m PLX_EEP_BUFFER) \<or>
     contents (peer (hw m)) = contents (peer m) \<and>
     eep_cmd_status (regs (hw m) PLX_EEP_STATUS_CONTROL) \<noteq> 0"
  using assms(1) [unfolded eeprom_chip_def Let_def, THEN spec, of m] assms(2) by (simp_all add: eep_cmds)

lemma chip_other:
  assumes "eeprom_chip contents hw"
    "eep_cmd (regs m PLX_EEP_STATUS_CONTROL) \<notin> {PLX_EEP_CMD_READ, PLX_EEP_CMD_WRITE}"
  shows "contents (peer (hw m)) = contents (peer m)" "regs (hw m) PLX_EEP_BUFFER = regs m PLX_EEP_BUFFER"
  using assms(1) [unfolded eeprom_chip_def Let_def, THEN spec, of m] assms(2) by (simp_all split: if_splits)

lemma chip_idle:
  assumes "eeprom_chip contents hw" "eep_idle contents m"
  shows "contents (peer (hw m)) = contents (peer m)" "eep_idle contents (hw m)"
proof -
  let ?s = "regs m PLX_EEP_STATUS_CONTROL"
  consider "eep_cmd ?s = PLX_EEP_CMD_READ" | "eep_cmd ?s = PLX_EEP_CMD_WRITE"
    | "eep_cmd ?s \<notin> {PLX_EEP_CMD_READ, PLX_EEP_CMD_WRITE}" by blast
  then show c: "contents (peer (hw m)) = contents (peer m)"
  proof cases
    case 2
    then show ?thesis using chip_write [OF assms(1) 2] assms(2) by (auto simp: eep_idle_def Let_def fun_eq_iff)
  qed (use chip_read(1) chip_other(1) assms(1) in blast)+
  show "eep_idle contents (hw m)"
    using chip_fields [OF assms(1), of m] chip_write(1) [OF assms(1)] assms(2) c
    by (auto simp: eep_idle_def Let_def)
qed

lemma wait_run:
  assumes "run_state (eeprom_wait_loop hw n) x = (r, x')" and "P (mmio x)" and "\<And>m. P m \<Longrightarrow> P (hw m)"
  shows "P (mmio x') \<and> (r = PLX_EEP_STATUS_OK \<longrightarrow>
    (\<exists>m. P m \<and> mmio x' = hw m \<and> eep_cmd_status (regs (hw m) PLX_EEP_STATUS_CONTROL) = 0))"
  using assms(1,2)
proof (induction n arbitrary: x)
  case 0
  then show ?case by auto
next
  case (Suc n)
  show ?case
  proof (cases "eep_cmd_status (regs (hw (mmio x)) PLX_EEP_STATUS_CONTROL) = 0")
    case True
    then show ?thesis using Suc.prems assms(3) by auto
  next
    case False
    let ?y = "x\<lparr>mmio := hw (hw (mmio x))\<rparr>"
    have "run_state (eeprom_wait_loop hw n) ?y = (r, x')" "P (mmio ?y)"
      using Suc.prems False assms(3) by auto
    then show ?thesis using Suc.IH [of ?y] by auto
  qed
qed

lemma send_run:
  assumes "run_state (eeprom_send_cmd hw cmd (ucast PLX_EEP_STATUS_CONTROL)) x = (r, x')"
    and "P (hw ((mmio x)\<lparr>regs := (regs (mmio x))(PLX_EEP_STATUS_CONTROL := cmd)\<rparr>))"
    and "\<And>m. P m \<Longrightarrow> P (hw m)"
  shows "P (mmio x') \<and> (r = PLX_EEP_STATUS_OK \<longrightarrow>
    (\<exists>m. P m \<and> mmio x' = hw m \<and> eep_cmd_status (regs (hw m) PLX_EEP_STATUS_CONTROL) = 0))"
proof -
  let ?y = "x\<lparr>mmio := hw ((mmio x)\<lparr>regs := (regs (mmio x))(PLX_EEP_STATUS_CONTROL := cmd)\<rparr>)\<rparr>"
  have "run_state (eeprom_wait_loop hw PLX_EEP_WAIT_TRIES) ?y = (r, x')"
    using assms(1)
    by (auto simp: eeprom_send_cmd_def eeprom_wait_for_cmd_complete_def eep_regs split: prod.splits if_splits)
  from wait_run [OF this, of P] assms(2,3) show ?thesis by auto
qed
lemma send_other:
  assumes chip: "eeprom_chip contents hw"
    and run: "run_state (eeprom_send_cmd hw cmd (ucast PLX_EEP_STATUS_CONTROL)) x = (r, x')"
    and cmd: "eep_cmd cmd = k" "k \<notin> {PLX_EEP_CMD_READ, PLX_EEP_CMD_WRITE}"
  shows "eep_cmd (regs (mmio x') PLX_EEP_STATUS_CONTROL) = k
    \<and> contents (peer (mmio x')) = contents (peer (mmio x))"
proof -
  let ?P = "\<lambda>m. eep_cmd (regs m PLX_EEP_STATUS_CONTROL) = k \<and> contents (peer m) = contents (peer (mmio x))"
  have closed: "?P (hw m)" if "?P m" for m
    using that chip_fields(1) [OF chip, of m] chip_other(1) [OF chip, of m] cmd(2) by auto
  have "?P ((mmio x)\<lparr>regs := (regs (mmio x))(PLX_EEP_STATUS_CONTROL := cmd)\<rparr>)" using cmd(1) by simp
  from send_run [OF run, of ?P, OF closed [OF this] closed] show ?thesis by blast
qed

lemma send_read:
  assumes chip: "eeprom_chip contents hw"
    and run: "run_state (eeprom_send_cmd hw cmd (ucast PLX_EEP_STATUS_CONTROL)) x = (PLX_EEP_STATUS_OK, x')"
    and cmd: "eep_cmd cmd = PLX_EEP_CMD_READ" and b: "eep_block cmd = b"
  shows "eep_cmd (regs (mmio x') PLX_EEP_STATUS_CONTROL) = PLX_EEP_CMD_READ
    \<and> contents (peer (mmio x')) = contents (peer (mmio x))
    \<and> regs (hw (mmio x')) PLX_EEP_BUFFER = contents (peer (mmio x)) b"
proof -
  let ?P = "\<lambda>m. eep_cmd (regs m PLX_EEP_STATUS_CONTROL) = PLX_EEP_CMD_READ
    \<and> eep_block (regs m PLX_EEP_STATUS_CONTROL) = b \<and> contents (peer m) = contents (peer (mmio x))"
  have closed: "?P (hw m)" if "?P m" for m
    using that chip_fields [OF chip, of m] chip_read(1) [OF chip, of m] by auto
  have "?P ((mmio x)\<lparr>regs := (regs (mmio x))(PLX_EEP_STATUS_CONTROL := cmd)\<rparr>)" using cmd b by simp
  from send_run [OF run, of ?P, OF closed [OF this] closed]
  obtain m where m: "?P m" "mmio x' = hw m" "eep_cmd_status (regs (hw m) PLX_EEP_STATUS_CONTROL) = 0"
    and x': "?P (mmio x')" by blast
  then have "regs (mmio x') PLX_EEP_BUFFER = contents (peer (mmio x)) b"
    using chip_read(2) [OF chip, of m] by auto
  then have "regs (hw (mmio x')) PLX_EEP_BUFFER = contents (peer (mmio x)) b"
    using x' chip_read(2) [OF chip, of "mmio x'"] by auto
  with x' show ?thesis by blast
qed

lemma send_write:
  assumes chip: "eeprom_chip contents hw"
    and run: "run_state (eeprom_send_cmd hw cmd (ucast PLX_EEP_STATUS_CONTROL)) x = (PLX_EEP_STATUS_OK, x')"
    and cmd: "eep_cmd cmd = PLX_EEP_CMD_WRITE" and b: "eep_block cmd = b"
    and v: "regs (mmio x) PLX_EEP_BUFFER = v"
  shows "eep_idle contents (mmio x')
    \<and> contents (peer (mmio x')) = (contents (peer (mmio x)))(b := v)"
proof -
  let ?c = "contents (peer (mmio x))"
  let ?P = "\<lambda>m. eep_cmd (regs m PLX_EEP_STATUS_CONTROL) = PLX_EEP_CMD_WRITE
    \<and> eep_block (regs m PLX_EEP_STATUS_CONTROL) = b \<and> regs m PLX_EEP_BUFFER = v
    \<and> contents (peer m) \<in> {?c, ?c(b := v)}"
  have closed: "?P (hw m)" if "?P m" for m
    using that chip_fields [OF chip, of m] chip_write [OF chip, of m] by auto
  have "?P ((mmio x)\<lparr>regs := (regs (mmio x))(PLX_EEP_STATUS_CONTROL := cmd)\<rparr>)"
    using cmd b v by (simp add: eep_regs)
  from send_run [OF run, of ?P, OF closed [OF this] closed]
  obtain m where m: "?P m" "mmio x' = hw m" "eep_cmd_status (regs (hw m) PLX_EEP_STATUS_CONTROL) = 0"
    and x': "?P (mmio x')" by blast
  then have "contents (peer (mmio x')) = ?c(b := v)"
    using chip_write(2) [OF chip, of m] by auto
  with x' show ?thesis by (simp add: eep_idle_def Let_def)
qed

lemma ready_loop_run:
  assumes chip: "eeprom_chip contents hw"
    and "run_state (eeprom_ready_loop hw (Suc n) status) x = (r, x')"
    and "eep_cmd status = PLX_EEP_CMD_READ_STATUS"
  shows "eep_cmd (regs (mmio x') PLX_EEP_STATUS_CONTROL) = PLX_EEP_CMD_READ_STATUS
    \<and> contents (peer (mmio x')) = contents (peer (mmio x))"
  using assms(2,3)
proof (induction n arbitrary: x status)
  case (0 x status)
  obtain r1 x1 where s: "run_state (eeprom_send_cmd hw status (ucast PLX_EEP_STATUS_CONTROL)) x = (r1, x1)"
    by fastforce
  note x1 = send_other [OF chip s 0(2)]
  have "PLX_EEP_CMD_READ_STATUS \<notin> {PLX_EEP_CMD_READ, PLX_EEP_CMD_WRITE}" by (simp add: eep_cmds)
  note keep = x1 [OF this] chip_fields(1) [OF chip] chip_other(1) [OF chip]
  show ?case using 0(1) s keep by (auto simp: eep_cmds split: if_splits)
next
  case (Suc n x status)
  obtain r1 x1 where s: "run_state (eeprom_send_cmd hw status (ucast PLX_EEP_STATUS_CONTROL)) x = (r1, x1)"
    by fastforce
  have k: "PLX_EEP_CMD_READ_STATUS \<notin> {PLX_EEP_CMD_READ, PLX_EEP_CMD_WRITE}" by (simp add: eep_cmds)
  note x1 = send_other [OF chip s Suc(3) k]
  have same: "eep_cmd (regs (hw m) PLX_EEP_STATUS_CONTROL) = PLX_EEP_CMD_READ_STATUS
    \<and> contents (peer (hw m)) = contents (peer m)"
    if "eep_cmd (regs m PLX_EEP_STATUS_CONTROL) = PLX_EEP_CMD_READ_STATUS" for m
    using that chip_fields(1) [OF chip] chip_other(1) [OF chip, of m] k by auto
  let ?s = "regs (hw (mmio x1)) PLX_EEP_STATUS_CONTROL"
  show ?case
  proof (cases "r1 = PLX_EEP_STATUS_OK \<and> \<not> (eep_ready ?s = 0 \<and> eep_write_status ?s = 0)")
    case True
    let ?y = "x1\<lparr>mmio := hw (hw (mmio x1))\<rparr>"
    have "run_state (eeprom_ready_loop hw (Suc n) ?s) ?y = (r, x')"
      using Suc(2) s True by (subst (asm) eeprom_ready_loop.simps) (auto split: if_splits)
    from Suc.IH [OF this] same [of "mmio x1"] same [of "hw (mmio x1)"] x1 show ?thesis by auto
  next
    case False
    then show ?thesis
      using Suc(2) s x1 same [of "mmio x1"]
      by (subst (asm) eeprom_ready_loop.simps) (auto split: if_splits)
  qed
qed

lemma ready_run:
  assumes chip: "eeprom_chip contents hw" and idle: "eep_idle contents (mmio x)"
    and run: "run_state (eeprom_wait_for_access_ready hw) x = (r, x')"
  shows "eep_cmd (regs (mmio x') PLX_EEP_STATUS_CONTROL) = PLX_EEP_CMD_READ_STATUS
    \<and> contents (peer (mmio x')) = contents (peer (mmio x))"
proof -
  let ?s = "set_bit_field 28 3 0 (set_bit_field 24 1 0
    (set_bit_field 13 3 PLX_EEP_CMD_READ_STATUS (regs (hw (mmio x)) PLX_EEP_STATUS_CONTROL)))"
  have cmd: "eep_cmd ?s = PLX_EEP_CMD_READ_STATUS"
    by (simp add: bit_fields eep_cmd_mask del: mask_numeral)
  have n: "PLX_EEP_WAIT_TRIES = Suc (PLX_EEP_WAIT_TRIES - 1)" by (simp add: PLX_EEP_WAIT_TRIES_def)
  have "run_state (eeprom_ready_loop hw (Suc (PLX_EEP_WAIT_TRIES - 1)) ?s) (x\<lparr>mmio := hw (mmio x)\<rparr>) = (r, x')"
    using run n by (simp add: eeprom_wait_for_access_ready_def)
  from ready_loop_run [OF chip this cmd] chip_idle(1) [OF chip idle] show ?thesis by simp
qed

section \<open>Access to blocks\<close>

lemma blk_nat:
  "(ucast (off div 4) :: u32) AND mask 13 = of_nat (unat off div 4 mod 8192)"
  "(ucast off :: u32) div 4 AND mask 13 = of_nat (unat off div 4 mod 8192)" for off :: u16
proof -
  have m: "x AND mask 13 = of_nat (unat x mod 8192)" for x :: u32
    unfolding take_bit_eq_mask [symmetric]
    by (simp add: word_unat_eq_iff unsigned_take_bit_eq take_bit_eq_mod unat_of_nat unat_mod)
  have u: "unat (ucast z :: u32) = unat z" for z :: u16
    using unsigned_less [where 'a = nat, of z] by (simp add: unsigned_ucast_eq take_bit_eq_mod)
  show "(ucast (off div 4) :: u32) AND mask 13 = of_nat (unat off div 4 mod 8192)"
    unfolding m by (simp add: unat_div u)
  show "(ucast off :: u32) div 4 AND mask 13 = of_nat (unat off div 4 mod 8192)"
    unfolding m by (simp add: unat_div u)
qed

lemma idle_cmd: "eep_cmd (regs m PLX_EEP_STATUS_CONTROL) \<noteq> PLX_EEP_CMD_WRITE \<Longrightarrow> eep_idle contents m"
  by (simp add: eep_idle_def)

lemma read32_ok:
  assumes chip: "eeprom_chip contents hw" and idle: "eep_idle contents (mmio x)"
    and run: "run_state (eeprom_read32 hw offset) x = ((PLX_EEP_STATUS_OK, v), x')"
  shows "contents (peer (mmio x')) = contents (peer (mmio x)) \<and> eep_idle contents (mmio x')
    \<and> v = contents (peer (mmio x)) (offset div 4 AND mask 13)"
proof -
  let ?c = "contents (peer (mmio x))" and ?b = "offset div 4 AND mask 13"
  obtain r1 x1 where s1: "run_state (eeprom_wait_for_access_ready hw) x = (r1, x1)" by fastforce
  note x1 = ready_run [OF chip idle s1]
  let ?y = "x1\<lparr>mmio := hw (mmio x1)\<rparr>"
  let ?cmd = "eep_command (offset div 4) PLX_EEP_CMD_READ (regs (hw (mmio x1)) PLX_EEP_STATUS_CONTROL)"
  have r1: "r1 = PLX_EEP_STATUS_OK" using run s1 by (auto simp: eeprom_read32_def split: if_splits)
  obtain r2 x2 where s2: "run_state (eeprom_send_cmd hw ?cmd (ucast PLX_EEP_STATUS_CONTROL)) ?y = (r2, x2)"
    by fastforce
  have r2: "r2 = PLX_EEP_STATUS_OK" and x': "x' = x2\<lparr>mmio := hw (mmio x2)\<rparr>"
    and v: "v = regs (hw (mmio x2)) PLX_EEP_BUFFER"
    using run s1 r1 s2 by (auto simp: eeprom_read32_def split: if_splits)
  have y: "contents (peer (mmio ?y)) = ?c"
    using x1 chip_other(1) [OF chip, of "mmio x1"] by (auto simp: eep_cmds)
  note x2 = send_read [OF chip s2 [unfolded r2], of ?b]
  have "eep_cmd ?cmd = PLX_EEP_CMD_READ" "eep_block ?cmd = ?b"
    by (simp_all add: eep_command_fields eep_cmd_mask del: mask_numeral)
  note x2 = x2 [OF this]
  have "contents (peer (hw (mmio x2))) = contents (peer (mmio x2))"
    using x2 chip_read(1) [OF chip] by blast
  moreover have "eep_idle contents (hw (mmio x2))"
    using x2 chip_fields(1) [OF chip] by (intro idle_cmd) (simp add: eep_cmds)
  ultimately show ?thesis using x2 y x' v by simp
qed

lemma write32_ok:
  assumes chip: "eeprom_chip contents hw" and idle: "eep_idle contents (mmio x)"
    and run: "run_state (eeprom_write32 hw offset v) x = (PLX_EEP_STATUS_OK, x')"
  shows "contents (peer (mmio x')) = (contents (peer (mmio x)))(ucast (offset div 4) AND mask 13 := v)
    \<and> eep_idle contents (mmio x')"
proof -
  let ?c = "contents (peer (mmio x))" and ?b = "ucast (offset div 4) AND mask 13"
  obtain r1 x1 where s1: "run_state (eeprom_wait_for_access_ready hw) x = (r1, x1)" by fastforce
  note x1 = ready_run [OF chip idle s1]
  have r1: "r1 = PLX_EEP_STATUS_OK" using run s1 by (auto simp: eeprom_write32_def split: if_splits)
  let ?y = "x1\<lparr>mmio := hw (mmio x1)\<rparr>"
  let ?en = "eep_command 0 PLX_EEP_CMD_WRITE_ENABLE (regs (hw (mmio x1)) PLX_EEP_STATUS_CONTROL)"
  let ?wr = "eep_command (ucast (offset div 4)) PLX_EEP_CMD_WRITE ?en"
  obtain r2 x2 where s2: "run_state (eeprom_send_cmd hw ?en (ucast PLX_EEP_STATUS_CONTROL)) ?y = (r2, x2)"
    by fastforce
  have r2: "r2 = PLX_EEP_STATUS_OK"
    using run s1 r1 s2 by (auto simp: eeprom_write32_def Let_def split: if_splits)
  have en: "eep_cmd ?en = PLX_EEP_CMD_WRITE_ENABLE" "eep_cmd ?wr = PLX_EEP_CMD_WRITE" "eep_block ?wr = ?b"
    by (simp_all add: eep_command_fields eep_cmd_mask del: mask_numeral)
  have k: "PLX_EEP_CMD_WRITE_ENABLE \<notin> {PLX_EEP_CMD_READ, PLX_EEP_CMD_WRITE}" by (simp add: eep_cmds)
  note x2 = send_other [OF chip s2 en(1) k]
  let ?w = "(mmio x2)\<lparr>regs := (regs (mmio x2))(PLX_EEP_BUFFER := v)\<rparr>"
  let ?z = "x2\<lparr>mmio := hw ?w\<rparr>"
  have w: "eep_cmd (regs ?w PLX_EEP_STATUS_CONTROL) = PLX_EEP_CMD_WRITE_ENABLE" "contents (peer ?w) = ?c"
    using x1 x2 chip_other(1) [OF chip, of "mmio x1"] by (auto simp: eep_regs eep_cmds)
  have z: "contents (peer (mmio ?z)) = ?c" "regs (mmio ?z) PLX_EEP_BUFFER = v"
    using chip_other [OF chip, of ?w] w k by auto
  obtain r3 x3 where s3: "run_state (eeprom_send_cmd hw ?wr (ucast PLX_EEP_STATUS_CONTROL)) ?z = (r3, x3)"
    by fastforce
  have r3: "r3 = PLX_EEP_STATUS_OK" and x': "x' = x3"
    using run s1 r1 s2 r2 s3 by (auto simp: eeprom_write32_def Let_def split: if_splits)
  show ?thesis
    using send_write [OF chip s3 [unfolded r3] en(2,3) z(2)] z(1) x' by simp
qed

text \<open>
  A successful write of 32 bits changes one block of the chip. The block address of the
  command has 13 bits and the driver clears the bit above them, so the block is the offset
  divided by four modulo 8192: from offset 32768 on the write lands at the start of the chip.
\<close>

theorem eeprom_write32_block:
  assumes "eeprom_chip contents hw" and "eep_idle contents (mmio x)"
    and "run_state (eeprom_write32 hw offset v) x = (PLX_EEP_STATUS_OK, x')"
  shows "contents (peer (mmio x')) = (contents (peer (mmio x)))(of_nat (unat offset div 4 mod 8192) := v)"
  using write32_ok [OF assms] by (simp add: blk_nat del: mask_numeral)

text \<open>A chip that completes every command at once, with its blocks as the hidden state.\<close>

definition chip_example :: "(u32 \<Rightarrow> u32) hw" where
  "chip_example m =
     (let s = regs m PLX_EEP_STATUS_CONTROL;
          s' = set_bit_field 18 1 0 (set_bit_field 24 1 0 (set_bit_field 28 3 0 s));
          m' = m\<lparr>regs := (regs m)(PLX_EEP_STATUS_CONTROL := s')\<rparr>
      in if eep_cmd s = PLX_EEP_CMD_READ then m'\<lparr>regs := (regs m')(PLX_EEP_BUFFER := peer m (eep_block s))\<rparr>
         else if eep_cmd s = PLX_EEP_CMD_WRITE then m'\<lparr>peer := (peer m)(eep_block s := regs m PLX_EEP_BUFFER)\<rparr>
         else m')"

definition eep_example :: "(u32 \<Rightarrow> u32) plx_device" where
  "eep_example = new_dev init_example_dev \<lparr>regs = (\<lambda>_. 0), peer = (\<lambda>_. 0), jiffies = 0\<rparr> 0 0 0"

lemma chip_example_ok: "eeprom_chip (\<lambda>c. c) chip_example"
proof -
  have "bit_field pos n (set_bit_field 18 1 0 (set_bit_field 24 1 0 (set_bit_field 28 3 0 s))) = bit_field pos n s"
    if "pos + n \<le> 18 \<or> pos = 20 \<and> n = 1" for pos n and s :: u32 using that by (auto simp: bit_fields)
  then show ?thesis
    by (auto simp: eeprom_chip_def chip_example_def Let_def eep_regs eep_block_def)
qed

lemma chip_example_prompt: "eeprom_prompt chip_example"
  by (auto simp: eeprom_prompt_def chip_example_def Let_def eep_regs bit_fields)

lemma eep_example_idle: "eep_idle (\<lambda>c. c) (mmio eep_example)"
  by (intro idle_cmd) (simp add: eep_example_def new_dev_def bit_field_def eep_cmds)

lemma prompt_send:
  assumes "eeprom_prompt hw"
  shows "\<exists>x'. run_state (eeprom_send_cmd hw cmd off) x = (PLX_EEP_STATUS_OK, x')"
proof -
  have n: "PLX_EEP_WAIT_TRIES = Suc (PLX_EEP_WAIT_TRIES - 1)" by (simp add: PLX_EEP_WAIT_TRIES_def)
  have "\<exists>x'. run_state (eeprom_wait_loop hw (Suc n)) y = (PLX_EEP_STATUS_OK, x')" for n y
    using assms by (simp add: eeprom_prompt_def Let_def)
  from this [of "PLX_EEP_WAIT_TRIES - 1", folded n] obtain x' where "run_state (eeprom_wait_loop hw PLX_EEP_WAIT_TRIES)
    (x\<lparr>mmio := hw ((mmio x)\<lparr>regs := (regs (mmio x))(ucast off := cmd)\<rparr>)\<rparr>) = (PLX_EEP_STATUS_OK, x')"
    by blast
  then show ?thesis by (simp add: eeprom_send_cmd_def eeprom_wait_for_cmd_complete_def)
qed

lemma prompt_ready:
  assumes "eeprom_prompt hw"
  shows "\<exists>x'. run_state (eeprom_wait_for_access_ready hw) x = (PLX_EEP_STATUS_OK, x')"
proof -
  have n: "PLX_EEP_WAIT_TRIES = Suc (PLX_EEP_WAIT_TRIES - 1)" by (simp add: PLX_EEP_WAIT_TRIES_def)
  have "\<exists>x'. run_state (eeprom_ready_loop hw (Suc n) s) y = (PLX_EEP_STATUS_OK, x')" for n s y
  proof -
    obtain x1 where "run_state (eeprom_send_cmd hw s (ucast PLX_EEP_STATUS_CONTROL)) y = (PLX_EEP_STATUS_OK, x1)"
      using prompt_send [OF assms] by blast
    then show ?thesis using assms by (simp add: eeprom_prompt_def Let_def)
  qed
  then show ?thesis unfolding eeprom_wait_for_access_ready_def by (subst n) (simp del: eeprom_ready_loop.simps)
qed

lemma prompt_read32:
  assumes "eeprom_prompt hw"
  shows "\<exists>v x'. run_state (eeprom_read32 hw off) x = ((PLX_EEP_STATUS_OK, v), x')"
proof -
  obtain x1 where "run_state (eeprom_wait_for_access_ready hw) x = (PLX_EEP_STATUS_OK, x1)"
    using prompt_ready [OF assms] by blast
  moreover have "\<exists>x2. run_state (eeprom_send_cmd hw cmd o') y = (PLX_EEP_STATUS_OK, x2)" for cmd o' y
    using prompt_send [OF assms] by blast
  then obtain x2 where "run_state (eeprom_send_cmd hw
      (eep_command (off div 4) PLX_EEP_CMD_READ (regs (hw (mmio x1)) PLX_EEP_STATUS_CONTROL))
      (ucast PLX_EEP_STATUS_CONTROL)) (x1\<lparr>mmio := hw (mmio x1)\<rparr>) = (PLX_EEP_STATUS_OK, x2)" by blast
  ultimately show ?thesis by (simp add: eeprom_read32_def)
qed

lemma prompt_write32:
  assumes "eeprom_prompt hw"
  shows "\<exists>x'. run_state (eeprom_write32 hw off v) x = (PLX_EEP_STATUS_OK, x')"
proof -
  obtain x1 where x1: "run_state (eeprom_wait_for_access_ready hw) x = (PLX_EEP_STATUS_OK, x1)"
    using prompt_ready [OF assms] by blast
  have send: "\<exists>x2. run_state (eeprom_send_cmd hw cmd o') y = (PLX_EEP_STATUS_OK, x2)" for cmd o' y
    using prompt_send [OF assms] by blast
  let ?en = "eep_command 0 PLX_EEP_CMD_WRITE_ENABLE (regs (hw (mmio x1)) PLX_EEP_STATUS_CONTROL)"
  obtain x2 where "run_state (eeprom_send_cmd hw ?en (ucast PLX_EEP_STATUS_CONTROL))
      (x1\<lparr>mmio := hw (mmio x1)\<rparr>) = (PLX_EEP_STATUS_OK, x2)" using send by blast
  moreover obtain x3 where "run_state (eeprom_send_cmd hw
      (eep_command (ucast (off div 4)) PLX_EEP_CMD_WRITE ?en) (ucast PLX_EEP_STATUS_CONTROL))
      (x2\<lparr>mmio := hw ((mmio x2)\<lparr>regs := (regs (mmio x2))(PLX_EEP_BUFFER := v)\<rparr>)\<rparr>) = (PLX_EEP_STATUS_OK, x3)"
    using send by blast
  ultimately show ?thesis using x1 by (simp add: eeprom_write32_def Let_def)
qed

theorem eeprom_write32_block_witness:
  "\<exists>x'. run_state (eeprom_write32 chip_example 32768 7) eep_example = (PLX_EEP_STATUS_OK, x')
     \<and> peer (mmio x') 0 = 7"
proof -
  obtain x' where r: "run_state (eeprom_write32 chip_example 32768 7) eep_example = (PLX_EEP_STATUS_OK, x')"
    using prompt_write32 [OF chip_example_prompt] by blast
  show ?thesis
    using eeprom_write32_block [OF chip_example_ok eep_example_idle r] r by (intro exI [of _ x']) auto
qed

section \<open>The update loop\<close>

lemma aligned_offset:
  fixes off :: u16
  assumes "unat off mod 4 = 0"
  shows "off AND NOT 3 = off" "off AND 3 = 0"
proof -
  have "off AND 3 = take_bit 2 off" by (simp add: take_bit_eq_mask mask_eq_exp_minus_1)
  also have "\<dots> = 0" using assms by (simp add: word_unat_eq_iff unsigned_take_bit_eq take_bit_eq_mod unat_mod)
  finally show z: "off AND 3 = 0" .
  have "off = (off AND 3) OR (off AND NOT 3)" by (simp add: bit.conj_disj_distrib [symmetric])
  then show "off AND NOT 3 = off" using z by simp
qed

lemma aligned_offset32: "unat off mod 4 = 0 \<Longrightarrow> (ucast off :: u32) AND NOT 3 = ucast off"
  "unat off mod 4 = 0 \<Longrightarrow> (ucast off :: u32) AND 3 = 0" for off :: u16
proof -
  assume a: "unat off mod 4 = 0"
  have u: "unat (ucast off :: u32) = unat off"
    using unsigned_less [where 'a = nat, of off] by (simp add: unsigned_ucast_eq take_bit_eq_mod)
  have "(ucast off :: u32) AND 3 = take_bit 2 (ucast off)" by (simp add: take_bit_eq_mask mask_eq_exp_minus_1)
  also have "\<dots> = 0" using a u by (simp add: word_unat_eq_iff unsigned_take_bit_eq take_bit_eq_mod unat_mod)
  finally show z: "(ucast off :: u32) AND 3 = 0" .
  have "(ucast off :: u32) = (ucast off AND 3) OR (ucast off AND NOT 3)"
    by (simp add: bit.conj_disj_distrib [symmetric])
  then show "(ucast off :: u32) AND NOT 3 = ucast off" using z by simp
qed

lemma low_half: "ucast (ucast v OR (old AND 0xFFFF0000) :: u32) = (v :: u16)"
proof -
  have h: "(0xFFFF0000 :: u32) = push_bit 16 (mask 16)" by (simp add: mask_eq_exp_minus_1 push_bit_eq_mult)
  show ?thesis unfolding h by (rule bit_word_eqI) (auto simp: bit_simps)
qed

text \<open>One round of the loop on the last two bytes, and on a dword.\<close>

lemma write16_ok:
  assumes chip: "eeprom_chip contents hw" and idle: "eep_idle contents (mmio x)"
    and al: "unat off mod 4 = 0"
    and run: "run_state (eeprom_write16 hw off v) x = (PLX_EEP_STATUS_OK, x')"
  shows "\<exists>w. contents (peer (mmio x')) =
      (contents (peer (mmio x)))(of_nat (unat off div 4 mod 8192) := w) \<and> ucast w = v
    \<and> eep_idle contents (mmio x')"
proof -
  obtain r v1 x1 where s1: "run_state (eeprom_read32 hw (ucast off)) x = ((r, v1), x1)" by (metis prod.collapse)
  have r: "r = PLX_EEP_STATUS_OK"
    using run s1 by (auto simp: eeprom_write16_def aligned_offset [OF al] aligned_offset(1) [OF al, simplified] split: if_splits)
  note x1 = read32_ok [OF chip idle s1 [unfolded r]]
  let ?w = "ucast v OR (v1 AND 0xFFFF0000)"
  have "run_state (eeprom_write32 hw off ?w) x1 = (PLX_EEP_STATUS_OK, x')"
    using run s1 r
    by (auto simp: eeprom_write16_def aligned_offset [OF al] aligned_offset(1) [OF al, simplified] Let_def split: prod.splits if_splits)
  from write32_ok [OF chip _ this] x1 low_half [of v v1] show ?thesis
    by (intro exI [of _ ?w]) (auto simp: blk_nat simp del: mask_numeral)
qed

lemma program_ok:
  assumes chip: "eeprom_chip contents hw" and len: "length data \<le> 32768" "even (length data)"
    and idle: "eep_idle contents (mmio x)" and al: "unat off mod 4 = 0"
    and run: "run_state (eeprom_program hw fuel data off) x = (Some PLX_EEP_STATUS_OK, x')"
  shows "(\<forall>i. unat off \<le> 4 * i \<longrightarrow> 4 * i + 4 \<le> length data \<longrightarrow>
        contents (peer (mmio x')) (of_nat i) = le32 data (4 * i))
    \<and> (length data mod 4 = 2 \<longrightarrow> unat off < length data \<longrightarrow>
        ucast (contents (peer (mmio x')) (of_nat (length data div 4))) = le16 data (length data - 2))
    \<and> (\<forall>b. unat b < unat off div 4 \<or> length data \<le> 4 * unat b \<longrightarrow>
        contents (peer (mmio x')) b = contents (peer (mmio x)) b)"
  using idle al run
proof (induction fuel arbitrary: off x)
  case 0
  then show ?case by simp
next
  case (Suc fuel)
  let ?o = "unat off" and ?c = "contents (peer (mmio x))" and ?b = "of_nat (unat off div 4 mod 8192) :: u32"
  consider (fin) "length data \<le> ?o" | (tail) "length data = ?o + 2" | (dword) "?o + 4 \<le> length data"
  proof -
    have "length data \<noteq> ?o + 1" "length data \<noteq> ?o + 3" using Suc.prems(2) len(2) by presburger+
    then show thesis using that by linarith
  qed
  then show ?case
  proof cases
    case fin
    then show ?thesis using Suc.prems(3) by auto
  next
    case tail
    then have b: "?b = of_nat (length data div 4)" "unat ?b = ?o div 4"
      using len(1) Suc.prems(2) by (auto simp: unat_of_nat intro!: arg_cong [of _ _ of_nat])
    obtain x1 v where s: "run_state (eeprom_write16 hw off (le16 data ?o)) x = (PLX_EEP_STATUS_OK, x1)"
      "run_state (eeprom_read32 hw (ucast off)) x1 = ((PLX_EEP_STATUS_OK, v), x')"
      using Suc.prems(3) tail aligned_offset32(1) [OF Suc.prems(2)] aligned_offset32(1) [OF Suc.prems(2), simplified]
      by (auto simp: Let_def eeprom_read16_def split: prod.splits if_splits)
    obtain w where w: "contents (peer (mmio x1)) = ?c(?b := w)" "ucast w = le16 data ?o" "eep_idle contents (mmio x1)"
      using write16_ok [OF chip Suc.prems(1,2) s(1)] by blast
    then have c: "contents (peer (mmio x')) = ?c(?b := w)" using read32_ok [OF chip w(3) s(2)] by simp
    have "c' \<noteq> ?b" if "unat c' < ?o div 4 \<or> length data \<le> 4 * unat c'" for c' :: u32
      using that tail Suc.prems(2) b(2) by auto
    then show ?thesis using c w(2) b tail by auto
  next
    case dword
    then have b: "unat ?b = ?o div 4" "?o div 4 mod 8192 = ?o div 4" using len(1) by (auto simp: unat_of_nat)
    have nx: "unat (off + 4) = ?o + 4"
      using dword len(1) by (subst unat_plus_small) auto
    obtain x1 x2 where s: "run_state (eeprom_write32 hw off (le32 data ?o)) x = (PLX_EEP_STATUS_OK, x1)"
      "run_state (eeprom_read32 hw (ucast off)) x1 = ((PLX_EEP_STATUS_OK, le32 data ?o), x2)"
      "run_state (eeprom_program hw fuel data (off + 4)) x2 = (Some PLX_EEP_STATUS_OK, x')"
      using Suc.prems(3) dword by (auto simp: Let_def split: prod.splits if_splits)
    have w: "contents (peer (mmio x1)) = ?c(?b := le32 data ?o)" "eep_idle contents (mmio x1)"
      using write32_ok [OF chip Suc.prems(1) s(1)] by (simp_all add: blk_nat del: mask_numeral)
    then have c: "contents (peer (mmio x2)) = ?c(?b := le32 data ?o)" "eep_idle contents (mmio x2)"
      using read32_ok [OF chip w(2) s(2)] by simp_all
    have "unat (off + 4) mod 4 = 0" using nx Suc.prems(2) by simp
    note IH = Suc.IH [OF c(2) this s(3)]
    have frame: "contents (peer (mmio x')) b = ?c b"
      if "unat b < ?o div 4 \<or> length data \<le> 4 * unat b" for b
    proof -
      have "b \<noteq> ?b" using that b dword Suc.prems(2) by auto
      moreover have "unat b < unat (off + 4) div 4 \<or> length data \<le> 4 * unat b" using that nx by auto
      ultimately show ?thesis using IH c(1) by auto
    qed
    have "contents (peer (mmio x')) (of_nat i) = le32 data (4 * i)"
      if i: "?o \<le> 4 * i" "4 * i + 4 \<le> length data" for i
    proof (cases "4 * i = ?o")
      case True
      have "unat (of_nat i :: u32) = i" using i(2) len(1) by (simp add: unat_of_nat)
      then have "contents (peer (mmio x')) (of_nat i) = contents (peer (mmio x2)) (of_nat i)"
        using IH nx True by simp
      moreover have "?b = of_nat i" using b(2) True by (metis nonzero_mult_div_cancel_left zero_neq_numeral)
      ultimately show ?thesis using c(1) True by simp
    next
      case False
      then have "?o + 4 \<le> 4 * i" using i(1) Suc.prems(2) by presburger
      then show ?thesis using IH nx i(2) by simp
    qed
    moreover have "length data mod 4 = 2 \<longrightarrow> ?o + 4 < length data"
      using dword Suc.prems(2) by presburger
    ultimately show ?thesis using IH nx frame by auto
  qed
qed

lemma validate_size:
  assumes "eeprom_validate data = PLX_EEP_STATUS_OK"
  shows "8 < length data" "(length data - 8) mod 6 = 0" "length data \<le> 65540" "even (length data)"
proof -
  have v: "8 < length data" "(length data - 8) mod 6 = 0" "length data - 8 = unat (le16 data 2)"
    using assms by (auto simp: eeprom_validate_def Let_def split: if_splits)
  have "unat (le16 data 2) < 65536" using unsigned_less [where 'a = nat, of "le16 data 2"] by simp
  then have "length data - 8 < 65536" using v(3) by simp
  then have "length data - 8 \<le> 65532" using v(2) by presburger
  then show "length data \<le> 65540" by simp
  show "even (length data)" using v(1,2) by presburger
qed (use assms in \<open>auto simp: eeprom_validate_def Let_def split: if_splits\<close>)

lemma update_start:
  assumes "eeprom_validate data = PLX_EEP_STATUS_OK"
  shows "\<exists>y. run_state (plx_update_eeprom hw fuel data) x = run_state (eeprom_program hw fuel data 0) y
    \<and> (eeprom_chip contents hw \<longrightarrow> eep_idle contents (mmio x) \<longrightarrow>
        eep_idle contents (mmio y) \<and> contents (peer (mmio y)) = contents (peer (mmio x)))"
proof -
  let ?r = "regs (hw (mmio x)) PLX_EEP_ADDRESS_BYTE"
  let ?w = "(hw (mmio x))\<lparr>regs := (regs (hw (mmio x)))(PLX_EEP_ADDRESS_BYTE := ?r AND (0xFF00 OR 0xFFFF0000))\<rparr>"
  let ?y = "if ?r AND 3 \<noteq> 0 then x\<lparr>mmio := hw ?w\<rparr> else x\<lparr>mmio := hw (mmio x)\<rparr>"
  have "run_state (plx_update_eeprom hw fuel data) x = run_state (eeprom_program hw fuel data 0) ?y"
    using assms by (auto simp: plx_update_eeprom_def Let_def)
  moreover have "eep_idle contents (mmio ?y) \<and> contents (peer (mmio ?y)) = contents (peer (mmio x))"
    if chip: "eeprom_chip contents hw" and idle: "eep_idle contents (mmio x)"
  proof -
    note h = chip_idle [OF chip idle]
    have "eep_idle contents ?w" using h(2) by (simp add: eep_idle_def eep_regs Let_def)
    then show ?thesis using h chip_idle [OF chip, of ?w] by simp
  qed
  ultimately show ?thesis by blast
qed


section \<open>When the update ends\<close>

lemma write_read_back:
  assumes chip: "eeprom_chip contents hw" and prompt: "eeprom_prompt hw" and idle: "eep_idle contents (mmio x)"
  shows "\<exists>x1 x2. run_state (eeprom_write32 hw off v) x = (PLX_EEP_STATUS_OK, x1)
    \<and> run_state (eeprom_read32 hw (ucast off)) x1 = ((PLX_EEP_STATUS_OK, v), x2) \<and> eep_idle contents (mmio x2)"
proof -
  obtain x1 where s1: "run_state (eeprom_write32 hw off v) x = (PLX_EEP_STATUS_OK, x1)"
    using prompt_write32 [OF prompt] by blast
  note x1 = write32_ok [OF chip idle s1]
  obtain w x2 where s2: "run_state (eeprom_read32 hw (ucast off)) x1 = ((PLX_EEP_STATUS_OK, w), x2)"
    using prompt_read32 [OF prompt] by blast
  from read32_ok [OF chip _ s2] x1 have "w = v \<and> eep_idle contents (mmio x2)"
    by (simp add: blk_nat del: mask_numeral)
  with s1 s2 show ?thesis by blast
qed

lemma write_read_back16:
  assumes chip: "eeprom_chip contents hw" and prompt: "eeprom_prompt hw" and idle: "eep_idle contents (mmio x)"
    and al: "unat off mod 4 = 0"
  shows "\<exists>x1 x2. run_state (eeprom_write16 hw off v) x = (PLX_EEP_STATUS_OK, x1)
    \<and> run_state (eeprom_read16 hw (ucast off)) x1 = ((PLX_EEP_STATUS_OK, v), x2)"
proof -
  obtain u x0 where s0: "run_state (eeprom_read32 hw (ucast off)) x = ((PLX_EEP_STATUS_OK, u), x0)"
    using prompt_read32 [OF prompt] by blast
  have "eep_idle contents (mmio x0)" using read32_ok [OF chip idle s0] by simp
  then obtain x1 x2 where s: "run_state (eeprom_write32 hw off (ucast v OR (u AND 0xFFFF0000))) x0 = (PLX_EEP_STATUS_OK, x1)"
    "run_state (eeprom_read32 hw (ucast off)) x1 = ((PLX_EEP_STATUS_OK, ucast v OR (u AND 0xFFFF0000)), x2)"
    using write_read_back [OF chip prompt] by blast
  have "run_state (eeprom_write16 hw off v) x = (PLX_EEP_STATUS_OK, x1)"
    using s0 s(1) by (simp add: eeprom_write16_def aligned_offset [OF al] aligned_offset(1) [OF al, simplified])
  moreover have "run_state (eeprom_read16 hw (ucast off)) x1 = ((PLX_EEP_STATUS_OK, v), x2)"
    using s(2) low_half [of v u]
    by (simp add: eeprom_read16_def aligned_offset32 [OF al] aligned_offset32(1) [OF al, simplified])
  ultimately show ?thesis by blast
qed

text \<open>The loop ends before the 16 bit offset can wrap, and with success on a prompt chip.\<close>

lemma program_returns:
  assumes "length data \<le> 65534" and "unat off mod 4 = 0" and "even (length data)"
    and "length data - unat off < fuel"
  shows "\<exists>r. fst (run_state (eeprom_program hw fuel data off) x) = Some r"
  using assms(2,4)
proof (induction fuel arbitrary: off x)
  case 0
  then show ?case by simp
next
  case (Suc fuel)
  show ?case
  proof (cases "unat off + 4 \<le> length data")
    case True
    have "unat (off + 4) = unat off + 4" using True assms(1) by (subst unat_plus_small) auto
    then have "\<exists>r. fst (run_state (eeprom_program hw fuel data (off + 4)) y) = Some r" for y
      using Suc True by (intro Suc.IH) auto
    then show ?thesis using True by (auto simp: Let_def split: prod.splits)
  next
    case False
    then have "length data \<le> unat off \<or> length data - unat off = 2"
      using Suc.prems(1) assms(3) by presburger
    then show ?thesis by (auto simp: Let_def split: prod.splits)
  qed
qed

lemma program_completes:
  assumes chip: "eeprom_chip contents hw" and prompt: "eeprom_prompt hw"
    and len: "length data \<le> 65534" "even (length data)"
    and "eep_idle contents (mmio x)" and "unat off mod 4 = 0" and "length data - unat off < fuel"
  shows "fst (run_state (eeprom_program hw fuel data off) x) = Some PLX_EEP_STATUS_OK"
  using assms(5-)
proof (induction fuel arbitrary: off x)
  case 0
  then show ?case by simp
next
  case (Suc fuel)
  consider "length data \<le> unat off" | "length data - unat off = 2" | "unat off + 4 \<le> length data"
    using Suc.prems(2) len(2) by atomize_elim presburger
  then show ?case
  proof cases
    case 2
    obtain x1 x2 where "run_state (eeprom_write16 hw off (le16 data (unat off))) x = (PLX_EEP_STATUS_OK, x1)"
      "run_state (eeprom_read16 hw (ucast off)) x1 = ((PLX_EEP_STATUS_OK, le16 data (unat off)), x2)"
      using write_read_back16 [OF chip prompt Suc.prems(1,2)] by blast
    then show ?thesis using 2 by (simp add: Let_def)
  next
    case 3
    obtain x1 x2 where "run_state (eeprom_write32 hw off (le32 data (unat off))) x = (PLX_EEP_STATUS_OK, x1)"
      "run_state (eeprom_read32 hw (ucast off)) x1 = ((PLX_EEP_STATUS_OK, le32 data (unat off)), x2)"
      "eep_idle contents (mmio x2)"
      using write_read_back [OF chip prompt Suc.prems(1)] by blast
    moreover have "unat (off + 4) = unat off + 4" using 3 len(1) by (subst unat_plus_small) auto
    moreover have "length data - unat off \<noteq> 2" using 3 by simp
    ultimately show ?thesis using Suc.IH [of x2 "off + 4"] Suc.prems(2,3) 3 by (simp add: Let_def)
  qed simp
qed

lemma program_endless:
  assumes chip: "eeprom_chip contents hw" and prompt: "eeprom_prompt hw" and len: "length data = 65540"
    and "eep_idle contents (mmio x)" and "unat off mod 4 = 0"
  shows "fst (run_state (eeprom_program hw fuel data off) x) = None"
  using assms(4-)
proof (induction fuel arbitrary: off x)
  case 0
  then show ?case by simp
next
  case (Suc fuel)
  obtain x1 x2 where "run_state (eeprom_write32 hw off (le32 data (unat off))) x = (PLX_EEP_STATUS_OK, x1)"
    "run_state (eeprom_read32 hw (ucast off)) x1 = ((PLX_EEP_STATUS_OK, le32 data (unat off)), x2)"
    "eep_idle contents (mmio x2)"
    using write_read_back [OF chip prompt Suc.prems(1)] by blast
  moreover have o: "unat off < 65536" using unsigned_less [where 'a = nat, of off] by simp
  moreover have "length data - unat off \<noteq> 2" using o len Suc.prems(2) by presburger
  moreover have "unat (off + 4) mod 4 = 0"
    using Suc.prems(2) by (simp add: unat_word_ariths mod_mod_cancel)
  ultimately show ?case using Suc.IH [of x2 "off + 4"] len by (simp add: Let_def)
qed

lemma update_completes:
  assumes "eeprom_chip contents hw" and "eeprom_prompt hw" and "eep_idle contents (mmio x)"
    and "eeprom_validate data = PLX_EEP_STATUS_OK" and "length data \<noteq> 65540" and "length data < fuel"
  shows "fst (run_state (plx_update_eeprom hw fuel data) x) = Some PLX_EEP_STATUS_OK"
proof -
  note v = validate_size [OF assms(4)]
  have "length data \<le> 65534" using v(1-3) assms(5) by presburger
  moreover obtain y where "run_state (plx_update_eeprom hw fuel data) x = run_state (eeprom_program hw fuel data 0) y"
    "eep_idle contents (mmio y)"
    using update_start [OF assms(4), of hw fuel x contents] assms by auto
  ultimately show ?thesis using program_completes [OF assms(1,2) _ v(4)] assms(6) by simp
qed

text \<open>
  C19. The update returns, on any hardware and for any image but those of 65540 bytes, after at
  most one round of the loop per byte.
\<close>

theorem plx_update_eeprom_returns:
  assumes "length data \<noteq> 65540" and "length data < fuel"
  shows "\<exists>r. fst (run_state (plx_update_eeprom hw fuel data) x) = Some r"
proof (cases "eeprom_validate data = PLX_EEP_STATUS_OK")
  case True
  note v = validate_size [OF True]
  have "length data \<le> 65534" using v(1-3) assms(1) by presburger
  moreover obtain y where "run_state (plx_update_eeprom hw fuel data) x = run_state (eeprom_program hw fuel data 0) y"
    using update_start [OF True] by blast
  ultimately show ?thesis using program_returns [of data 0 fuel hw y] v(4) assms(2) by simp
next
  case False
  then show ?thesis by (simp add: plx_update_eeprom_def Let_def)
qed

theorem plx_update_eeprom_returns_witness:
  "\<exists>r. fst (run_state (plx_update_eeprom (\<lambda>m. m) 15 (eeprom_image 7 [1, 2, 3, 4, 5, 6])) hw_example) = Some r"
  by (rule plx_update_eeprom_returns) (simp_all add: image_parts(1))




text \<open>
  C31. For a valid image of 65540 bytes, the largest size its header can give, the 16 bit offset
  wraps to 0 before it reaches the size, and the update of a working chip goes on for ever.
\<close>

theorem plx_update_eeprom_endless:
  assumes "eeprom_chip contents hw" and "eeprom_prompt hw" and "eep_idle contents (mmio x)"
    and "eeprom_validate data = PLX_EEP_STATUS_OK" and "length data = 65540"
  shows "fst (run_state (plx_update_eeprom hw fuel data) x) = None"
proof -
  obtain y where "run_state (plx_update_eeprom hw fuel data) x = run_state (eeprom_program hw fuel data 0) y"
    "eep_idle contents (mmio y)"
    using update_start [OF assms(4), of hw fuel x contents] assms by auto
  then show ?thesis using program_endless [OF assms(1,2,5)] by simp
qed

theorem plx_update_eeprom_endless_witness:
  "\<exists>data. eeprom_validate data = PLX_EEP_STATUS_OK
     \<and> (\<forall>fuel. fst (run_state (plx_update_eeprom chip_example fuel data) eep_example) = None)"
proof -
  obtain config :: "u8 list" where c: "length config = 65532" using Ex_list_of_length by blast
  then have "config \<noteq> []" by auto
  then have v: "eeprom_validate (eeprom_image 0 config) = PLX_EEP_STATUS_OK"
    using c by (intro image_validate) simp_all
  moreover have "length (eeprom_image 0 config) = 65540" using c by (simp add: image_parts(1))
  ultimately show ?thesis
    using plx_update_eeprom_endless [OF chip_example_ok chip_example_prompt eep_example_idle] by blast
qed

end
