(* ===== verification/Plx_Lbp.thy ===== *)
theory Plx_Lbp
  imports Plx_Hw
begin

text \<open>
  The leveraged boot protocol between the host and the BIOS of a card
  (\<open>plx87xx/plx_lbp.c\<close>, \<open>plx_lbp_ifc.h\<close>): words in the scratchpads of the bridge, the wait
  loops, the handshake, booting and flashing through a RAM disk, states, BIOS parameters and
  time. What the kernel and the user supply (memory, the clock, completions, the DMA engine)
  is a parameter.
\<close>

unbundle bit_operations_syntax

section \<open>Words of the protocol\<close>

abbreviation (input) SPAD_i7_READY :: u32 where "SPAD_i7_READY \<equiv> 2"
abbreviation (input) SPAD_E5_READY :: u32 where "SPAD_E5_READY \<equiv> 3"
abbreviation (input) SPAD_i7_CMD :: u32 where "SPAD_i7_CMD \<equiv> 4"
abbreviation (input) SPAD_DATA_LOW :: u32 where "SPAD_DATA_LOW \<equiv> 5"
abbreviation (input) SPAD_DATA_HIGH :: u32 where "SPAD_DATA_HIGH \<equiv> 6"
abbreviation (input) SPAD_i7_ERROR :: u32 where "SPAD_i7_ERROR \<equiv> 7"

definition PLX_LBP_i7_DOWN :: u32 where "PLX_LBP_i7_DOWN = 0"
definition PLX_LBP_i7_UP :: u32 where "PLX_LBP_i7_UP = 0x1"
definition PLX_LBP_i7_READY :: u32 where "PLX_LBP_i7_READY = 0x2"
definition PLX_LBP_i7_BUSY :: u32 where "PLX_LBP_i7_BUSY = 0x4"
definition PLX_LBP_i7_BOOTING :: u32 where "PLX_LBP_i7_BOOTING = 0x8"
definition PLX_LBP_i7_FLASHING :: u32 where "PLX_LBP_i7_FLASHING = 0x10"
definition PLX_LBP_i7_DONE :: u32 where "PLX_LBP_i7_DONE = 0x20"
definition PLX_LBP_i7_UEFI_ERROR :: u32 where "PLX_LBP_i7_UEFI_ERROR = 0x40"
definition PLX_LBP_i7_GENERAL_ERROR :: u32 where "PLX_LBP_i7_GENERAL_ERROR = 0x80"
definition PLX_LBP_i7_OS_READY :: u32 where "PLX_LBP_i7_OS_READY = 0x100"
definition PLX_LBP_i7_NET_DEV_READY :: u32 where "PLX_LBP_i7_NET_DEV_READY = 0x200"
definition PLX_LBP_i7_NET_DEV_UP :: u32 where "PLX_LBP_i7_NET_DEV_UP = 0x400"
definition PLX_LBP_i7_NET_DEV_DOWN :: u32 where "PLX_LBP_i7_NET_DEV_DOWN = 0x800"
definition PLX_LBP_i7_NET_DEV_NO_IP :: u32 where "PLX_LBP_i7_NET_DEV_NO_IP = 0x1000"
definition PLX_LBP_i7_DRV_PROBE_DONE :: u32 where "PLX_LBP_i7_DRV_PROBE_DONE = 0x2000"
definition PLX_LBP_i7_DRV_PROBE_ERROR :: u32 where "PLX_LBP_i7_DRV_PROBE_ERROR = 0x2080"
definition PLX_LBP_i7_DHCP_IN_PROGRESS :: u32 where "PLX_LBP_i7_DHCP_IN_PROGRESS = 0x4000"
definition PLX_LBP_i7_DHCP_DONE :: u32 where "PLX_LBP_i7_DHCP_DONE = 0x8000"
definition PLX_LBP_i7_DHCP_ERROR :: u32 where "PLX_LBP_i7_DHCP_ERROR = 0x8080"
definition PLX_LBP_i7_NFS_MOUNT_DONE :: u32 where "PLX_LBP_i7_NFS_MOUNT_DONE = 0x10000"
definition PLX_LBP_i7_NFS_MOUNT_ERROR :: u32 where "PLX_LBP_i7_NFS_MOUNT_ERROR = 0x10080"
definition PLX_LBP_i7_BOOTING_BLOCK_IO :: u32 where "PLX_LBP_i7_BOOTING_BLOCK_IO = 0x20000"
definition PLX_LBP_i7_SOFTWARE_NODE_DOWN :: u32 where "PLX_LBP_i7_SOFTWARE_NODE_DOWN = 0x40000"
definition PLX_LBP_i7_OS_REBOOTING :: u32 where "PLX_LBP_i7_OS_REBOOTING = 0x80000"
definition PLX_LBP_i7_AFTER_REBOOT :: u32 where "PLX_LBP_i7_AFTER_REBOOT = 0x100000"
definition PLX_LBP_i7_POWER_DOWN :: u32 where "PLX_LBP_i7_POWER_DOWN = 0x200000"
definition PLX_LBP_i7_POWERING_DOWN :: u32 where "PLX_LBP_i7_POWERING_DOWN = 0x400000"
definition PLX_LBP_i7_ANY_ERROR :: u32 where "PLX_LBP_i7_ANY_ERROR = 0xC0"

lemmas i7_codes = PLX_LBP_i7_DOWN_def PLX_LBP_i7_UP_def PLX_LBP_i7_READY_def PLX_LBP_i7_BUSY_def
  PLX_LBP_i7_BOOTING_def PLX_LBP_i7_FLASHING_def PLX_LBP_i7_DONE_def PLX_LBP_i7_UEFI_ERROR_def
  PLX_LBP_i7_GENERAL_ERROR_def PLX_LBP_i7_OS_READY_def PLX_LBP_i7_NET_DEV_READY_def
  PLX_LBP_i7_NET_DEV_UP_def PLX_LBP_i7_NET_DEV_DOWN_def PLX_LBP_i7_NET_DEV_NO_IP_def
  PLX_LBP_i7_DRV_PROBE_DONE_def PLX_LBP_i7_DRV_PROBE_ERROR_def PLX_LBP_i7_DHCP_IN_PROGRESS_def
  PLX_LBP_i7_DHCP_DONE_def PLX_LBP_i7_DHCP_ERROR_def PLX_LBP_i7_NFS_MOUNT_DONE_def
  PLX_LBP_i7_NFS_MOUNT_ERROR_def PLX_LBP_i7_BOOTING_BLOCK_IO_def PLX_LBP_i7_SOFTWARE_NODE_DOWN_def
  PLX_LBP_i7_OS_REBOOTING_def PLX_LBP_i7_AFTER_REBOOT_def PLX_LBP_i7_POWER_DOWN_def
  PLX_LBP_i7_POWERING_DOWN_def PLX_LBP_i7_ANY_ERROR_def

text \<open>
  \<open>struct plx_lbp_i7_ready\<close>, \<open>plx_lbp_e5_ready\<close> and \<open>plx_lbp_i7_cmd\<close>. In the second layout of
  the first one \<open>major\<close> comes before \<open>minor\<close>, that is in the lower bits.
\<close>

definition i7_ready :: "u32 \<Rightarrow> u32" where "i7_ready = bit_field 0 24"
definition i7_version :: "u32 \<Rightarrow> u32" where "i7_version = bit_field 24 8"
definition i7_major :: "u32 \<Rightarrow> u32" where "i7_major = bit_field 24 4"
definition i7_minor :: "u32 \<Rightarrow> u32" where "i7_minor = bit_field 28 4"

definition e5_word :: "u32 \<Rightarrow> u32 \<Rightarrow> u32 option \<Rightarrow> (u32 \<times> u32) option \<Rightarrow> u32" where
  "e5_word stack ready cpuid slot_port =
     (let w = set_bit_field 0 8 ready stack;
          w = (case cpuid of None \<Rightarrow> w | Some i \<Rightarrow> set_bit_field 8 8 i w)
      in case slot_port of
           None \<Rightarrow> w
         | Some (slot, port) \<Rightarrow> set_bit_field 24 8 port (set_bit_field 16 8 slot w))"

definition i7_cmd :: "u32 \<Rightarrow> u32" where "i7_cmd = bit_field 0 16"

definition cmd_word :: "u32 \<Rightarrow> u32 \<Rightarrow> u32" where
  "cmd_word cmd param = set_bit_field 16 16 param (set_bit_field 0 16 cmd 0)"

datatype PLX_LBP_CMD =
  PLX_LBP_CMD_INVALID | PLX_LBP_CMD_BOOT_LOADER | PLX_LBP_CMD_MAP_RAMDISK | PLX_LBP_CMD_UNMAP_RAMDISK
  | PLX_LBP_CMD_BOOT_RAMDISK | PLX_LBP_CMD_FLASH_FW | PLX_LBP_CMD_FLASH_BIOS | PLX_LBP_CMD_FLASH_OS
  | PLX_LBP_CMD_GET_MAC_ADDR | PLX_LBP_CMD_SET_TIME | PLX_LBP_CMD_SET_PARAM | PLX_LBP_CMD_GET_PARAM
  | PLX_LBP_CMD_CLEAR_ERROR | PLX_LBP_CMD_BOOT_BLOCK_IO

fun cmd_code :: "PLX_LBP_CMD \<Rightarrow> u32" where
  "cmd_code PLX_LBP_CMD_INVALID = 0"
| "cmd_code PLX_LBP_CMD_BOOT_LOADER = 1"
| "cmd_code PLX_LBP_CMD_MAP_RAMDISK = 2"
| "cmd_code PLX_LBP_CMD_UNMAP_RAMDISK = 3"
| "cmd_code PLX_LBP_CMD_BOOT_RAMDISK = 4"
| "cmd_code PLX_LBP_CMD_FLASH_FW = 5"
| "cmd_code PLX_LBP_CMD_FLASH_BIOS = 6"
| "cmd_code PLX_LBP_CMD_FLASH_OS = 7"
| "cmd_code PLX_LBP_CMD_GET_MAC_ADDR = 8"
| "cmd_code PLX_LBP_CMD_SET_TIME = 9"
| "cmd_code PLX_LBP_CMD_SET_PARAM = 10"
| "cmd_code PLX_LBP_CMD_GET_PARAM = 11"
| "cmd_code PLX_LBP_CMD_CLEAR_ERROR = 12"
| "cmd_code PLX_LBP_CMD_BOOT_BLOCK_IO = 13"

datatype PLX_LBP_PARAM =
  PLX_LBP_PARAM_INVALID | PLX_LBP_PARAM_CPU_MAX_FREQ_NON_TURBO | PLX_LBP_PARAM_BIOS_VER
  | PLX_LBP_PARAM_BIOS_BUILD_DATE | PLX_LBP_PARAM_SGX | PLX_LBP_PARAM_GPU_APERTURE | PLX_LBP_PARAM_TDP

fun param_code :: "PLX_LBP_PARAM \<Rightarrow> u32" where
  "param_code PLX_LBP_PARAM_INVALID = 0"
| "param_code PLX_LBP_PARAM_CPU_MAX_FREQ_NON_TURBO = 1"
| "param_code PLX_LBP_PARAM_BIOS_VER = 2"
| "param_code PLX_LBP_PARAM_BIOS_BUILD_DATE = 3"
| "param_code PLX_LBP_PARAM_SGX = 4"
| "param_code PLX_LBP_PARAM_GPU_APERTURE = 5"
| "param_code PLX_LBP_PARAM_TDP = 6"

text \<open>
  The operations return the integer value of an \<open>enum vca_lbp_retval\<close>. Not every path keeps
  to the values of the enumeration, so the result is an integer.
\<close>

fun lbp_code :: "vca_lbp_retval \<Rightarrow> int" where
  "lbp_code LBP_STATE_OK = 0"
| "lbp_code LBP_SPAD_i7_WRONG_STATE = 1"
| "lbp_code LBP_IRQ_TIMEOUT = 2"
| "lbp_code LBP_ALLOC_TIMEOUT = 3"
| "lbp_code LBP_CMD_TIMEOUT = 4"
| "lbp_code LBP_BAD_PARAMETER_VALUE = 5"
| "lbp_code LBP_UNKNOWN_PARAMETER = 6"
| "lbp_code LBP_INTERNAL_ERROR = 7"
| "lbp_code LBP_PROTOCOL_VERSION_MISMATCH = 8"
| "lbp_code LBP_WAIT_INTERRUPTED = 9"
| "lbp_code LBP_BIOS_INFO_CACHE_EMPTY = 10"
| "lbp_code LBP_SIZE = 11"

section \<open>Environment\<close>

text \<open>
  What the kernel supplies: the wait for the interrupt of the card (negative when it was
  interrupted, 0 on a timeout), the clock and the time zone, the bits a local variable holds when it
  was not written (by its name), coherent memory for a size (its bus address), whether copying from the
  user fails at an offset, and the DMA engine, which gets destination, source and the bytes
  of the source buffer.
\<close>

datatype dma_outcome = No_Descriptor | Submit_Error | Waited int

record tm =
  tm_year :: int
  tm_mon :: int
  tm_mday :: int
  tm_hour :: int
  tm_min :: int
  tm_sec :: int

record 'h env =
  wait_for_completion :: "u32 \<Rightarrow> ('h, int) op"
  clock :: tm
  tv_nsec :: int
  tz_minuteswest :: int
  stack_bits :: "string \<Rightarrow> u64"
  dma_alloc_coherent :: "u32 \<Rightarrow> u64 option"
  copy_fails :: "nat \<Rightarrow> bool"
  dma_memcpy :: "u64 \<Rightarrow> u64 \<Rightarrow> u8 list \<Rightarrow> ('h, dma_outcome) op"
  request_irq :: errno

section \<open>Start\<close>

text \<open>
  The interrupt handler; its result tells whether \<open>plx_reboot_notify\<close> is called.
\<close>

definition plx_lbp_interrupt_handler :: "'h hw \<Rightarrow> ('h, bool) op" where
  "plx_lbp_interrupt_handler hw =
     do {
       put_dev (\<lambda>x. x\<lparr>lbp := (lbp x)\<lparr>card_wait := True\<rparr>\<rparr>);
       v \<leftarrow> plx_read_spad hw SPAD_i7_READY;
       State_Monad.return (PLX_LBP_i7_AFTER_REBOOT OR PLX_LBP_i7_UP = i7_ready v)
     }"

text \<open>
  \<open>get_lbp_lock\<close> finds the lock of a card and CPU, of which there are \<open>MAX_VCA_CARDS\<close> times
  \<open>MAX_VCA_CARD_CPUS\<close>; both numbers are unsigned.
\<close>

definition has_lbp_lock :: "u8 \<Rightarrow> int \<Rightarrow> bool" where
  "has_lbp_lock cid cpu = (unat cid < 8 \<and> unat (word_of_int cpu :: u32) < 4)"

definition plx_lbp_init :: "'h hw \<Rightarrow> 'h env \<Rightarrow> ('h, crash + errno) op" where
  "plx_lbp_init hw env =
     do {
       x \<leftarrow> get_dev (\<lambda>x. x);
       if \<not> has_lbp_lock (card_id x) (plx_identify_cpu_id (pdev x)) then State_Monad.return (Inl NULL_DEREF)
       else
         do {
           put_dev (\<lambda>x. x\<lparr>lbp := (lbp x)\<lparr>card_wait := False\<rparr>\<rparr>);
           if link_side x then State_Monad.return (Inr EOK)
           else
             do {
               put_dev (\<lambda>x. x\<lparr>lbp := (lbp x)\<lparr>i7_irq_timeout_ms := 1000, i7_alloc_timeout_ms := 1000,
                 i7_cmd_timeout_ms := 100, i7_mac_write_timeout_ms := 1000\<rparr>\<rparr>);
               (if \<not> link_side x then plx_write_spad hw SPAD_E5_READY 0
                else plx_write_spad hw SPAD_i7_READY PLX_LBP_i7_DOWN);
               State_Monad.return (Inr (request_irq env))
             }
         }
     }"

section \<open>Waiting\<close>

definition plx_lbp_get_i7_status :: "'h hw \<Rightarrow> ('h, u32) op" where
  "plx_lbp_get_i7_status hw = plx_read_spad hw SPAD_i7_READY"

definition plx_lbp_set_i7_status :: "'h hw \<Rightarrow> u32 \<Rightarrow> ('h, unit) op" where
  "plx_lbp_set_i7_status hw status = plx_write_spad hw SPAD_i7_READY status"

definition plx_lbp_get_i7_rcvy_status :: "'h hw \<Rightarrow> ('h, u32) op" where
  "plx_lbp_get_i7_rcvy_status hw = plx_read_spad hw SPAD_DATA_LOW"

definition plx_lbp_get_i7_cmd :: "'h hw \<Rightarrow> ('h, u32) op" where
  "plx_lbp_get_i7_cmd hw = plx_read_spad hw SPAD_i7_CMD"

definition ETIME_code :: int where "ETIME_code = 62"
definition ENODEV_code :: int where "ENODEV_code = 19"
definition ENOSYS_code :: int where "ENOSYS_code = 38"

definition plx_lbp_wait_for_i7_up :: "'h hw \<Rightarrow> 'h env \<Rightarrow> u32 \<Rightarrow> ('h, int) op" where
  "plx_lbp_wait_for_i7_up hw env timeout_ms =
     do {
       err \<leftarrow> wait_for_completion env timeout_ms;
       if err < 0 then State_Monad.return err
       else if err = 0 then State_Monad.return (- ETIME_code)
       else
         do {
           v \<leftarrow> plx_lbp_get_i7_status hw;
           State_Monad.return
             (if i7_ready v AND NOT PLX_LBP_i7_AFTER_REBOOT \<noteq> PLX_LBP_i7_UP then - ENODEV_code else 0)
         }
     }"

text \<open>
  \<open>lbp_wait_event\<close>: one look at the event after each millisecond of sleep. The two loops it is
  used for end with the value seen, or with \<open>None\<close>, the \<open>-ETIME\<close> of the source.
\<close>

fun lbp_wait_event :: "'h hw \<Rightarrow> ('h, u32) op \<Rightarrow> (u32 \<Rightarrow> bool) \<Rightarrow> nat \<Rightarrow> ('h, u32 option) op" where
  "lbp_wait_event hw look event 0 = State_Monad.return None"
| "lbp_wait_event hw look event (Suc to) =
     do {
       msleep hw;
       v \<leftarrow> look;
       if event v then State_Monad.return (Some v) else lbp_wait_event hw look event to
     }"

definition plx_lbp_wait_for_i7_state :: "'h hw \<Rightarrow> u32 \<Rightarrow> u32 \<Rightarrow> ('h, u32 option) op" where
  "plx_lbp_wait_for_i7_state hw state timeout =
     do {
       r \<leftarrow> lbp_wait_event hw (plx_lbp_get_i7_status hw)
         (\<lambda>v. if state = 0 then i7_ready v = state else i7_ready v AND state \<noteq> 0) (unat timeout);
       State_Monad.return (map_option i7_ready r)
     }"

definition plx_lbp_wait_for_i7_cmd_consumed :: "'h hw \<Rightarrow> u32 \<Rightarrow> ('h, bool) op" where
  "plx_lbp_wait_for_i7_cmd_consumed hw timeout_ms =
     do {
       r \<leftarrow> lbp_wait_event hw (plx_lbp_get_i7_cmd hw)
         (\<lambda>v. i7_cmd v = cmd_code PLX_LBP_CMD_INVALID) (unat timeout_ms);
       State_Monad.return (r \<noteq> None)
     }"

section \<open>Time\<close>

text \<open>\<open>struct plx_lbp_time\<close>; the two flags and the last two bits are not written.\<close>

definition lbp_time :: "u64 \<Rightarrow> tm \<Rightarrow> int \<Rightarrow> u64" where
  "lbp_time stack t nsec =
     set_bit_field 44 16 (word_of_int (nsec div 1000000))
       (set_bit_field 37 7 (word_of_int (tm_sec t))
         (set_bit_field 30 7 (word_of_int (tm_min t))
           (set_bit_field 24 6 (word_of_int (tm_hour t))
             (set_bit_field 18 6 (word_of_int (tm_mday t))
               (set_bit_field 13 5 (word_of_int (1 + tm_mon t))
                 (set_bit_field 0 13 (word_of_int (1900 + tm_year t)) stack))))))"

definition plx_lbp_set_time_no_mutex :: "'h hw \<Rightarrow> 'h env \<Rightarrow> ('h, int) op" where
  "plx_lbp_set_time_no_mutex hw env =
     do {
       v \<leftarrow> plx_lbp_get_i7_status hw;
       if i7_ready v \<noteq> PLX_LBP_i7_READY then State_Monad.return (lbp_code LBP_SPAD_i7_WRONG_STATE)
       else
         do {
           let param = ucast (word_of_int (tz_minuteswest env) :: u16);
           let time = lbp_time (stack_bits env ''time'') (clock env) (tv_nsec env);
           plx_write_spad hw SPAD_DATA_HIGH (ucast (drop_bit 32 time));
           plx_write_spad hw SPAD_DATA_LOW (ucast time);
           plx_write_spad hw SPAD_i7_CMD (cmd_word (cmd_code PLX_LBP_CMD_SET_TIME) param);
           to \<leftarrow> get_dev (i7_cmd_timeout_ms \<circ> lbp);
           ok \<leftarrow> plx_lbp_wait_for_i7_cmd_consumed hw to;
           State_Monad.return (if ok then 0 else lbp_code LBP_CMD_TIMEOUT)
         }
     }"

text \<open>\<open>plx_lbp_set_time\<close> has the same steps, and then waits for the card to be ready again.\<close>

definition plx_lbp_set_time :: "'h hw \<Rightarrow> 'h env \<Rightarrow> ('h, int) op" where
  "plx_lbp_set_time hw env =
     do {
       err \<leftarrow> plx_lbp_set_time_no_mutex hw env;
       if err \<noteq> 0 then State_Monad.return err
       else
         do {
           to \<leftarrow> get_dev (i7_cmd_timeout_ms \<circ> lbp);
           r \<leftarrow> plx_lbp_wait_for_i7_state hw PLX_LBP_i7_READY to;
           State_Monad.return (if r = None then lbp_code LBP_CMD_TIMEOUT else lbp_code LBP_STATE_OK)
         }
     }"

section \<open>BIOS parameters\<close>

definition PLX_LBP_PROTOCOL_VERSION :: "u32 \<Rightarrow> u32 \<Rightarrow> u32" where
  "PLX_LBP_PROTOCOL_VERSION major minor = push_bit 4 major OR minor"

definition plx_lbp_clear_error :: "'h hw \<Rightarrow> ('h, bool) op" where
  "plx_lbp_clear_error hw =
     do {
       plx_write_spad hw SPAD_i7_ERROR 0;
       to \<leftarrow> get_dev (i7_cmd_timeout_ms \<circ> lbp);
       r \<leftarrow> plx_lbp_wait_for_i7_state hw PLX_LBP_i7_READY to;
       if r = None then State_Monad.return False
       else
         do {
           plx_write_spad hw SPAD_i7_CMD (cmd_word (cmd_code PLX_LBP_CMD_CLEAR_ERROR) 0);
           to \<leftarrow> get_dev (i7_cmd_timeout_ms \<circ> lbp);
           plx_lbp_wait_for_i7_cmd_consumed hw to
         }
     }"

definition check_if_supported :: "u32 \<Rightarrow> u32 \<Rightarrow> bool" where
  "check_if_supported v protocol_version = (\<not> i7_version v < protocol_version)"

text \<open>The protocol version a parameter needs; \<open>None\<close> for an unknown one.\<close>

fun param_version :: "PLX_LBP_PARAM \<Rightarrow> u32 option" where
  "param_version PLX_LBP_PARAM_BIOS_BUILD_DATE = Some (PLX_LBP_PROTOCOL_VERSION 1 1)"
| "param_version PLX_LBP_PARAM_BIOS_VER = Some (PLX_LBP_PROTOCOL_VERSION 1 1)"
| "param_version PLX_LBP_PARAM_CPU_MAX_FREQ_NON_TURBO = Some (PLX_LBP_PROTOCOL_VERSION 0 2)"
| "param_version PLX_LBP_PARAM_SGX = Some (PLX_LBP_PROTOCOL_VERSION 1 2)"
| "param_version PLX_LBP_PARAM_GPU_APERTURE = Some (PLX_LBP_PROTOCOL_VERSION 1 2)"
| "param_version PLX_LBP_PARAM_TDP = Some (PLX_LBP_PROTOCOL_VERSION 1 2)"
| "param_version PLX_LBP_PARAM_INVALID = None"

text \<open>
  \<open>plx_lbp_copy_bios_info\<close>: the result code and the new contents of \<open>*dest\<close>, whose old
  contents are an argument.
\<close>

definition plx_lbp_copy_bios_info ::
  "'h hw \<Rightarrow> 'h env \<Rightarrow> PLX_LBP_PARAM \<Rightarrow> u64 \<Rightarrow> ('h, int \<times> u64) op" where
  "plx_lbp_copy_bios_info hw env param dest =
     do {
       v \<leftarrow> plx_read_spad hw SPAD_i7_READY;
       case param_version param of
         None \<Rightarrow> State_Monad.return (- lbp_code LBP_UNKNOWN_PARAMETER, dest)
       | Some version \<Rightarrow>
           if \<not> check_if_supported v version
           then State_Monad.return (lbp_code LBP_PROTOCOL_VERSION_MISMATCH, dest)
           else
             do {
               plx_write_spad hw SPAD_i7_CMD (cmd_word (cmd_code PLX_LBP_CMD_GET_PARAM) (param_code param));
               to \<leftarrow> get_dev (i7_cmd_timeout_ms \<circ> lbp);
               ok \<leftarrow> plx_lbp_wait_for_i7_cmd_consumed hw to;
               if \<not> ok then State_Monad.return (lbp_code LBP_CMD_TIMEOUT, dest)
               else
                 do {
                   let input_value = (ucast dest :: u32);
                   lo \<leftarrow> plx_read_spad hw SPAD_DATA_LOW;
                   hi \<leftarrow> (if param \<noteq> PLX_LBP_PARAM_CPU_MAX_FREQ_NON_TURBO
                     then plx_read_spad hw SPAD_DATA_HIGH else State_Monad.return 0);
                   let got = (push_bit 32 (ucast hi) OR ucast lo :: u64);
                   let old = (param = PLX_LBP_PARAM_CPU_MAX_FREQ_NON_TURBO
                     \<and> i7_version v \<le> PLX_LBP_PROTOCOL_VERSION 0 2);
                   if old \<and> input_value = 0 \<and> got = 17 then State_Monad.return (0, ucast input_value)
                   else if old \<and> (got < 8 \<or> 17 < got)
                   then State_Monad.return (lbp_code LBP_BAD_PARAMETER_VALUE, got)
                   else
                     do {
                       err \<leftarrow> plx_lbp_set_time_no_mutex hw env;
                       State_Monad.return (err, got)
                     }
                 }
             }
     }"

definition plx_lbp_copy_bios_info_from_cache ::
  "PLX_LBP_PARAM \<Rightarrow> u64 \<Rightarrow> ('h, int \<times> u64) op" where
  "plx_lbp_copy_bios_info_from_cache param dest =
     do {
       x \<leftarrow> get_dev (\<lambda>x. x);
       State_Monad.return
         (if param = PLX_LBP_PARAM_BIOS_BUILD_DATE \<and> bios_information_date x \<noteq> 0
          then (0, bios_information_date x)
          else if param = PLX_LBP_PARAM_BIOS_VER \<and> bios_information_version x \<noteq> 0
          then (0, bios_information_version x)
          else if param = PLX_LBP_PARAM_SGX \<and> bios_cfg_sgx x \<noteq> -1 then (0, bios_cfg_sgx x)
          else if param = PLX_LBP_PARAM_GPU_APERTURE \<and> bios_cfg_gpu_aperture x \<noteq> -1
          then (0, bios_cfg_gpu_aperture x)
          else if param = PLX_LBP_PARAM_TDP \<and> bios_cfg_tdp x \<noteq> -1 then (0, bios_cfg_tdp x)
          else (lbp_code LBP_BIOS_INFO_CACHE_EMPTY, dest))
     }"

definition handle_plx_lbp_error :: "'h hw \<Rightarrow> ('h, int) op" where
  "handle_plx_lbp_error hw =
     do {
       plx_read_spad hw SPAD_i7_ERROR;
       ok \<leftarrow> plx_lbp_clear_error hw;
       State_Monad.return (if \<not> ok then lbp_code LBP_CMD_TIMEOUT else lbp_code LBP_INTERNAL_ERROR)
     }"

definition plx_lbp_set_bios_param :: "'h hw \<Rightarrow> PLX_LBP_PARAM \<Rightarrow> u64 \<Rightarrow> ('h, int) op" where
  "plx_lbp_set_bios_param hw param value =
     do {
       v \<leftarrow> plx_read_spad hw SPAD_i7_READY;
       if param \<in> {PLX_LBP_PARAM_INVALID, PLX_LBP_PARAM_BIOS_VER, PLX_LBP_PARAM_BIOS_BUILD_DATE}
       then State_Monad.return (lbp_code LBP_UNKNOWN_PARAMETER)
       else if \<not> check_if_supported v (the (param_version param))
       then State_Monad.return (lbp_code LBP_PROTOCOL_VERSION_MISMATCH)
       else
         do {
           v \<leftarrow> plx_lbp_get_i7_status hw;
           if i7_ready v \<noteq> PLX_LBP_i7_READY then State_Monad.return (lbp_code LBP_SPAD_i7_WRONG_STATE)
           else
             do {
               let value =
                 (if param = PLX_LBP_PARAM_CPU_MAX_FREQ_NON_TURBO \<and> value = 0
                     \<and> i7_version v \<le> PLX_LBP_PROTOCOL_VERSION 0 2 then 17 else value);
               plx_write_spad hw SPAD_DATA_LOW (ucast value);
               plx_write_spad hw SPAD_DATA_HIGH (ucast (drop_bit 32 value));
               plx_write_spad hw SPAD_i7_CMD (cmd_word (cmd_code PLX_LBP_CMD_SET_PARAM) (param_code param));
               to \<leftarrow> get_dev (i7_cmd_timeout_ms \<circ> lbp);
               ok \<leftarrow> plx_lbp_wait_for_i7_cmd_consumed hw to;
               if \<not> ok then State_Monad.return (lbp_code LBP_CMD_TIMEOUT)
               else
                 do {
                   i7_error \<leftarrow> plx_read_spad hw SPAD_i7_ERROR;
                   if i7_error \<noteq> 0 then
                     do {
                       ok \<leftarrow> plx_lbp_clear_error hw;
                       State_Monad.return
                         (if \<not> ok then lbp_code LBP_CMD_TIMEOUT else lbp_code LBP_INTERNAL_ERROR)
                     }
                   else State_Monad.return 0
                 }
             }
         }
     }"

text \<open>
  \<open>plx_lbp_get_bios_param\<close>: the steps after its label \<open>exit\<close>, and the operation.
\<close>

definition bios_param_exit :: "'h hw \<Rightarrow> int \<times> u64 \<Rightarrow> ('h, int \<times> u64) op" where
  "bios_param_exit hw r =
     (let (err, v) = r
      in if err < 0 then State_Monad.return (- err, v)
         else if (word_of_int err :: u32) AND PLX_LBP_i7_ANY_ERROR \<noteq> 0 then
           do {
             plx_read_spad hw SPAD_i7_ERROR;
             ok \<leftarrow> plx_lbp_clear_error hw;
             State_Monad.return (if \<not> ok then lbp_code LBP_CMD_TIMEOUT else lbp_code LBP_INTERNAL_ERROR, v)
           }
         else State_Monad.return (err, v))"

definition plx_lbp_get_bios_param ::
  "'h hw \<Rightarrow> 'h env \<Rightarrow> PLX_LBP_PARAM \<Rightarrow> u64 \<Rightarrow> ('h, int \<times> u64) op" where
  "plx_lbp_get_bios_param hw env param dest =
     do {
       v \<leftarrow> plx_read_spad hw SPAD_i7_READY;
       if param \<in> {PLX_LBP_PARAM_BIOS_BUILD_DATE, PLX_LBP_PARAM_BIOS_VER, PLX_LBP_PARAM_SGX,
            PLX_LBP_PARAM_GPU_APERTURE, PLX_LBP_PARAM_TDP}
       then
         if \<not> check_if_supported v (the (param_version param)) then
           if i7_major v = 0 \<and> i7_minor v = 0 then plx_lbp_copy_bios_info_from_cache param dest
           else State_Monad.return (lbp_code LBP_PROTOCOL_VERSION_MISMATCH, dest)
         else
           do {
             v \<leftarrow> plx_lbp_get_i7_status hw;
             if i7_ready v \<noteq> PLX_LBP_i7_READY \<and> i7_ready v \<noteq> PLX_LBP_i7_UP
             then plx_lbp_copy_bios_info_from_cache param dest
             else do { r \<leftarrow> plx_lbp_copy_bios_info hw env param dest; bios_param_exit hw r }
           }
       else if param = PLX_LBP_PARAM_CPU_MAX_FREQ_NON_TURBO then
         if i7_ready v \<noteq> PLX_LBP_i7_READY
         then bios_param_exit hw (lbp_code LBP_SPAD_i7_WRONG_STATE, dest)
         else do { r \<leftarrow> plx_lbp_copy_bios_info hw env param dest; bios_param_exit hw r }
       else bios_param_exit hw (- lbp_code LBP_UNKNOWN_PARAMETER, dest)
     }"

section \<open>Handshake\<close>

text \<open>
  The five parameters saved after the handshake, up to the first one that cannot be read.
\<close>

definition save_bios_info :: "'h hw \<Rightarrow> 'h env \<Rightarrow> ('h, unit) op" where
  "save_bios_info hw env =
     do {
       d \<leftarrow> get_dev bios_information_date;
       (err, d) \<leftarrow> plx_lbp_copy_bios_info hw env PLX_LBP_PARAM_BIOS_BUILD_DATE d;
       put_dev (\<lambda>x. x\<lparr>bios_information_date := d\<rparr>);
       if err \<noteq> 0 then State_Monad.return ()
       else
         do {
           d \<leftarrow> get_dev bios_information_version;
           (err, d) \<leftarrow> plx_lbp_copy_bios_info hw env PLX_LBP_PARAM_BIOS_VER d;
           put_dev (\<lambda>x. x\<lparr>bios_information_version := d\<rparr>);
           if err \<noteq> 0 then State_Monad.return ()
           else
             do {
               d \<leftarrow> get_dev bios_cfg_sgx;
               (err, d) \<leftarrow> plx_lbp_copy_bios_info hw env PLX_LBP_PARAM_SGX d;
               put_dev (\<lambda>x. x\<lparr>bios_cfg_sgx := d\<rparr>);
               if err \<noteq> 0 then State_Monad.return ()
               else
                 do {
                   d \<leftarrow> get_dev bios_cfg_gpu_aperture;
                   (err, d) \<leftarrow> plx_lbp_copy_bios_info hw env PLX_LBP_PARAM_GPU_APERTURE d;
                   put_dev (\<lambda>x. x\<lparr>bios_cfg_gpu_aperture := d\<rparr>);
                   if err \<noteq> 0 then State_Monad.return ()
                   else
                     do {
                       d \<leftarrow> get_dev bios_cfg_tdp;
                       (err, d) \<leftarrow> plx_lbp_copy_bios_info hw env PLX_LBP_PARAM_TDP d;
                       put_dev (\<lambda>x. x\<lparr>bios_cfg_tdp := d\<rparr>)
                     }
                 }
             }
         }
     }"

text \<open>The steps between the locks that can fail, with their result \<open>err\<close>.\<close>

definition handshake_steps :: "'h hw \<Rightarrow> 'h env \<Rightarrow> u32 \<Rightarrow> ('h, int) op" where
  "handshake_steps hw env csm_index =
     do {
       x \<leftarrow> get_dev (\<lambda>x. x);
       let slot_port = (ucast (PCI_SLOT (pci_devfn (pdev x))), ucast (port_id x));
       plx_write_spad hw SPAD_i7_CMD
         (set_bit_field 0 16 (cmd_code PLX_LBP_CMD_INVALID) (ucast (stack_bits env ''cmd_invalid'')));
       put_dev (\<lambda>x. x\<lparr>lbp := (lbp x)\<lparr>card_wait := False\<rparr>\<rparr>);
       plx_write_spad hw SPAD_E5_READY
         (e5_word (ucast (stack_bits env ''e5_waiting'')) 1 (Some csm_index) None);
       to \<leftarrow> get_dev (i7_irq_timeout_ms \<circ> lbp);
       err \<leftarrow> plx_lbp_wait_for_i7_up hw env to;
       if err \<noteq> 0 then State_Monad.return (if err < 0 then - lbp_code LBP_IRQ_TIMEOUT else err)
       else
         do {
           plx_read_spad hw SPAD_i7_READY;
           sz \<leftarrow> plx_read_spad hw SPAD_DATA_LOW;
           put_dev (\<lambda>x. x\<lparr>lbp := (lbp x)\<lparr>i7_ddr_size_mb := sz\<rparr>\<rparr>);
           plx_write_spad hw SPAD_DATA_LOW csm_index;
           plx_write_spad hw SPAD_DATA_HIGH 0;
           plx_write_spad hw SPAD_E5_READY
             (e5_word (ucast (stack_bits env ''e5_ready'')) 2 (Some csm_index) (Some slot_port));
           to \<leftarrow> get_dev (i7_irq_timeout_ms \<circ> lbp);
           r \<leftarrow> plx_lbp_wait_for_i7_state hw PLX_LBP_i7_READY to;
           State_Monad.return
             (case r of None \<Rightarrow> - lbp_code LBP_CMD_TIMEOUT | Some ready \<Rightarrow> int (unat ready))
         }
     }"

definition plx_lbp_handshake :: "'h hw \<Rightarrow> 'h env \<Rightarrow> ('h, int) op" where
  "plx_lbp_handshake hw env =
     do {
       put_dev (\<lambda>x. x\<lparr>bios_information_date := 0, bios_information_version := 0, bios_cfg_sgx := -1,
         bios_cfg_gpu_aperture := -1, bios_cfg_tdp := -1\<rparr>);
       x \<leftarrow> get_dev (\<lambda>x. x);
       err \<leftarrow> (case vca_csm_dev x of
         None \<Rightarrow> State_Monad.return (- lbp_code LBP_INTERNAL_ERROR)
       | Some csm_index \<Rightarrow> handshake_steps hw env csm_index);
       if err \<ge> 0 then do { save_bios_info hw env; State_Monad.return (lbp_code LBP_STATE_OK) }
       else
         do {
           plx_write_spad hw SPAD_E5_READY
             (e5_word (ucast (stack_bits env ''e5_not_ready'')) 0 None
               (Some (ucast (PCI_SLOT (pci_devfn (pdev x))), ucast (port_id x))));
           State_Monad.return (- err)
         }
     }"

section \<open>RAM disk\<close>

definition vca_lbp_sync_dma :: "'h env \<Rightarrow> u64 \<Rightarrow> u64 \<Rightarrow> u8 list \<Rightarrow> ('h, int) op" where
  "vca_lbp_sync_dma env dst src bytes =
     do {
       ch \<leftarrow> get_dev dma_ch;
       if \<not> ch then State_Monad.return (-16)
       else
         do {
           r \<leftarrow> dma_memcpy env dst src bytes;
           State_Monad.return
             (case r of No_Descriptor \<Rightarrow> -12 | Submit_Error \<Rightarrow> -12 | Waited status \<Rightarrow> status)
         }
     }"

text \<open>
  The copy loop. \<open>None\<close> is a loop or a request for a window that does not end; inside, \<open>Inl\<close> is
  a crash and \<open>Inr\<close> the value of \<open>err\<close> after the loop.
\<close>

fun ramdisk_loop ::
  "'h hw \<Rightarrow> 'h env \<Rightarrow> nat \<Rightarrow> u8 list \<Rightarrow> u64 \<Rightarrow> u64 \<Rightarrow> nat \<Rightarrow> nat \<Rightarrow> int \<Rightarrow> ('h, (crash + int) option) op" where
  "ramdisk_loop hw env 0 img ramdisk_ph temp_buff_da offset temp_buff_size err = State_Monad.return None"
| "ramdisk_loop hw env (Suc fuel) img ramdisk_ph temp_buff_da offset temp_buff_size err =
     (if offset < length img then
        if copy_fails env offset then State_Monad.return (Some (Inr (- lbp_code LBP_INTERNAL_ERROR)))
        else
          do {
            r \<leftarrow> plx_ioremap hw (ramdisk_ph + of_nat offset) (of_nat temp_buff_size);
            case r of
              None \<Rightarrow> State_Monad.return None
            | Some (Inl e) \<Rightarrow> State_Monad.return (Some (Inl e))
            | Some (Inr None) \<Rightarrow> State_Monad.return (Some (Inr (- lbp_code LBP_INTERNAL_ERROR)))
            | Some (Inr (Some remapped)) \<Rightarrow>
                do {
                  pa \<leftarrow> get_dev aper_pa; va \<leftarrow> get_dev aper_va;
                  err \<leftarrow> vca_lbp_sync_dma env (pa + (remapped - va)) temp_buff_da
                    (take temp_buff_size (drop offset img));
                  u \<leftarrow> plx_iounmap hw remapped;
                  case u of
                    Inl e \<Rightarrow> State_Monad.return (Some (Inl e))
                  | Inr _ \<Rightarrow>
                      if err \<noteq> 0 then State_Monad.return (Some (Inr (- lbp_code LBP_INTERNAL_ERROR)))
                      else
                        (let offset = offset + temp_buff_size
                         in ramdisk_loop hw env fuel img ramdisk_ph temp_buff_da offset
                              (min temp_buff_size (length img - offset)) err)
                }
          }
      else State_Monad.return (Some (Inr err)))"

text \<open>The end of \<open>plx_lbp_send_ramdisk\<close> and its like: the value of \<open>err\<close> becomes a result.\<close>

definition lbp_exit :: "'h hw \<Rightarrow> int \<Rightarrow> ('h, int) op" where
  "lbp_exit hw err =
     (if err < 0 then State_Monad.return (- err)
      else if (word_of_int err :: u32) AND PLX_LBP_i7_ANY_ERROR \<noteq> 0 then
        do { plx_read_spad hw SPAD_i7_ERROR; State_Monad.return (lbp_code LBP_INTERNAL_ERROR) }
      else State_Monad.return (lbp_code LBP_STATE_OK))"

definition HPAGE_SIZE :: u32 where "HPAGE_SIZE = 0x200000"
definition PAGE_SIZE :: u32 where "PAGE_SIZE = 0x1000"

text \<open>The temporary buffer: a huge page, or a small one if there is none.\<close>

definition temp_buffer :: "'h env \<Rightarrow> (u64 \<times> u32) option" where
  "temp_buffer env =
     (case dma_alloc_coherent env HPAGE_SIZE of
        Some da \<Rightarrow> Some (da, HPAGE_SIZE)
      | None \<Rightarrow> map_option (\<lambda>da. (da, PAGE_SIZE)) (dma_alloc_coherent env PAGE_SIZE))"

text \<open>
  The part after the allocation, up to the label \<open>exit\<close>. First the card maps memory for the
  image: its state and the address, or the value of \<open>err\<close>.
\<close>

definition ramdisk_map :: "'h hw \<Rightarrow> u8 list \<Rightarrow> ('h, int + u32 \<times> u64) op" where
  "ramdisk_map hw img =
     do {
       let img_size = (of_nat (length img) :: u64);
       plx_write_spad hw SPAD_DATA_LOW (ucast ((img_size + 0xFFFFF) div 0x100000));
       plx_write_spad hw SPAD_DATA_HIGH 0;
       plx_write_spad hw SPAD_i7_CMD (cmd_word (cmd_code PLX_LBP_CMD_MAP_RAMDISK) 1);
       to \<leftarrow> get_dev (i7_alloc_timeout_ms \<circ> lbp);
       r \<leftarrow> plx_lbp_wait_for_i7_state hw (PLX_LBP_i7_DONE OR PLX_LBP_i7_ANY_ERROR) to;
       case r of
         None \<Rightarrow>
           do { plx_lbp_get_i7_status hw; State_Monad.return (Inl (- lbp_code LBP_ALLOC_TIMEOUT)) }
       | Some ready \<Rightarrow>
           if ready AND PLX_LBP_i7_ANY_ERROR \<noteq> 0 then State_Monad.return (Inl (int (unat ready)))
           else
             do {
               hi \<leftarrow> plx_read_spad hw SPAD_DATA_HIGH;
               lo \<leftarrow> plx_read_spad hw SPAD_DATA_LOW;
               State_Monad.return (Inr (ready, push_bit 32 (ucast hi) + ucast lo))
             }
     }"

definition ramdisk_transfer ::
  "'h hw \<Rightarrow> 'h env \<Rightarrow> nat \<Rightarrow> u8 list \<Rightarrow> u64 \<Rightarrow> u32 \<Rightarrow> ('h, (crash + int) option) op" where
  "ramdisk_transfer hw env fuel img temp_buff_da temp_buff_size =
     do {
       r \<leftarrow> ramdisk_map hw img;
       case r of
         Inl err \<Rightarrow> State_Monad.return (Some (Inr err))
       | Inr (ready, ramdisk_ph) \<Rightarrow>
           ramdisk_loop hw env fuel img ramdisk_ph temp_buff_da 0
             (min (length img) (unat temp_buff_size)) (int (unat ready))
     }"

definition plx_lbp_send_ramdisk ::
  "'h hw \<Rightarrow> 'h env \<Rightarrow> nat \<Rightarrow> u8 list \<Rightarrow> ('h, (crash + int) option) op" where
  "plx_lbp_send_ramdisk hw env fuel img =
     do {
       x \<leftarrow> get_dev (\<lambda>x. x);
       if \<not> dma_ch x then State_Monad.return (Some (Inr (lbp_code LBP_INTERNAL_ERROR)))
       else
         do {
           (if a_lut x then plx_a_lut_peer_enable hw else State_Monad.return ());
           v \<leftarrow> plx_lbp_get_i7_status hw;
           if i7_ready v \<noteq> PLX_LBP_i7_READY then State_Monad.return (Some (Inr (lbp_code LBP_INTERNAL_ERROR)))
           else
             case temp_buffer env of
               None \<Rightarrow> State_Monad.return (Some (Inr (lbp_code LBP_INTERNAL_ERROR)))
             | Some (da, temp_buff_size) \<Rightarrow>
                 do {
                   r \<leftarrow> ramdisk_transfer hw env fuel img da temp_buff_size;
                   case r of
                     None \<Rightarrow> State_Monad.return None
                   | Some (Inl e) \<Rightarrow> State_Monad.return (Some (Inl e))
                   | Some (Inr err) \<Rightarrow>
                       do { ret \<leftarrow> lbp_exit hw err; State_Monad.return (Some (Inr ret)) }
                 }
         }
     }"

section \<open>Booting and flashing\<close>

text \<open>A wait for one of some states, as a value of \<open>err\<close>: a timeout becomes \<open>-LBP_CMD_TIMEOUT\<close>.\<close>

definition wait_states :: "'h hw \<Rightarrow> u32 \<Rightarrow> u32 \<Rightarrow> ('h, int) op" where
  "wait_states hw states timeout =
     do {
       r \<leftarrow> plx_lbp_wait_for_i7_state hw states timeout;
       State_Monad.return
         (case r of None \<Rightarrow> - lbp_code LBP_CMD_TIMEOUT | Some ready \<Rightarrow> int (unat ready))
     }"

definition plx_lbp_boot_ramdisk ::
  "'h hw \<Rightarrow> 'h env \<Rightarrow> nat \<Rightarrow> u8 list \<Rightarrow> ('h, (crash + int) option) op" where
  "plx_lbp_boot_ramdisk hw env fuel img =
     do {
       r \<leftarrow> plx_lbp_send_ramdisk hw env fuel img;
       case r of
         None \<Rightarrow> State_Monad.return None
       | Some (Inl e) \<Rightarrow> State_Monad.return (Some (Inl e))
       | Some (Inr err) \<Rightarrow>
           if err \<noteq> lbp_code LBP_STATE_OK then State_Monad.return (Some (Inr err))
           else
             do {
               plx_write_spad hw SPAD_i7_CMD (cmd_word (cmd_code PLX_LBP_CMD_BOOT_RAMDISK) 0);
               to \<leftarrow> get_dev (i7_cmd_timeout_ms \<circ> lbp);
               err \<leftarrow> wait_states hw (PLX_LBP_i7_BOOTING OR PLX_LBP_i7_OS_READY OR PLX_LBP_i7_ANY_ERROR) to;
               ret \<leftarrow> lbp_exit hw err;
               State_Monad.return (Some (Inr ret))
             }
     }"

definition plx_lbp_blkio_set_devpage :: "'h hw \<Rightarrow> ('h, unit) op" where
  "plx_lbp_blkio_set_devpage hw =
     do {
       hi \<leftarrow> plx_read_spad hw SPAD_DATA_HIGH;
       lo \<leftarrow> plx_read_spad hw SPAD_DATA_LOW;
       put_dev (\<lambda>x. x\<lparr>dp_blockio_dp := push_bit 32 (ucast hi) + ucast lo\<rparr>);
       base \<leftarrow> get_dev reg_base; ibase \<leftarrow> get_dev intr_reg_base; db \<leftarrow> get_dev dp_blockio_ftb_db;
       plx_mmio_write hw (DB_TO_MASK (unat db)) (base + ibase + 0xC4C)
     }"

definition plx_lbp_boot_blkdisk :: "'h hw \<Rightarrow> ('h, int) op" where
  "plx_lbp_boot_blkdisk hw =
     do {
       lut \<leftarrow> get_dev a_lut;
       (if lut then plx_a_lut_peer_enable hw else State_Monad.return ());
       v \<leftarrow> plx_lbp_get_i7_status hw;
       if i7_ready v \<noteq> PLX_LBP_i7_READY then State_Monad.return (- lbp_code LBP_INTERNAL_ERROR)
       else
         do {
           plx_write_spad hw SPAD_i7_CMD (cmd_word (cmd_code PLX_LBP_CMD_BOOT_BLOCK_IO) 0);
           to \<leftarrow> get_dev (i7_cmd_timeout_ms \<circ> lbp);
           err \<leftarrow> wait_states hw
             (PLX_LBP_i7_BOOTING_BLOCK_IO OR PLX_LBP_i7_OS_READY OR PLX_LBP_i7_ANY_ERROR) to;
           ret \<leftarrow> lbp_exit hw err;
           if ret \<noteq> lbp_code LBP_STATE_OK then State_Monad.return ret
           else do { plx_lbp_blkio_set_devpage hw; State_Monad.return (lbp_code LBP_STATE_OK) }
         }
     }"

text \<open>
  \<open>plx_lbp_flash\<close> as it is built, with \<open>OLD_BIOS\<close>: the second wait takes up to 300 seconds and
  the RAM disk stays mapped.
\<close>

definition plx_lbp_flash ::
  "'h hw \<Rightarrow> 'h env \<Rightarrow> nat \<Rightarrow> u32 \<Rightarrow> u8 list \<Rightarrow> ('h, (crash + int) option) op" where
  "plx_lbp_flash hw env fuel cmd file =
     do {
       r \<leftarrow> plx_lbp_send_ramdisk hw env fuel file;
       case r of
         None \<Rightarrow> State_Monad.return None
       | Some (Inl e) \<Rightarrow> State_Monad.return (Some (Inl e))
       | Some (Inr err) \<Rightarrow>
           if err \<noteq> lbp_code LBP_STATE_OK then State_Monad.return (Some (Inr err))
           else
             do {
               plx_write_spad hw SPAD_i7_CMD cmd;
               to \<leftarrow> get_dev (i7_cmd_timeout_ms \<circ> lbp);
               err \<leftarrow> wait_states hw (PLX_LBP_i7_FLASHING OR PLX_LBP_i7_ANY_ERROR) to;
               err \<leftarrow> (if err < 0 \<or> (word_of_int err :: u32) AND PLX_LBP_i7_ANY_ERROR \<noteq> 0
                 then State_Monad.return err
                 else wait_states hw (PLX_LBP_i7_DONE OR PLX_LBP_i7_ANY_ERROR) 300000);
               ret \<leftarrow> lbp_exit hw err;
               State_Monad.return (Some (Inr ret))
             }
     }"

definition plx_lbp_flash_bios ::
  "'h hw \<Rightarrow> 'h env \<Rightarrow> nat \<Rightarrow> u8 list \<Rightarrow> ('h, (crash + int) option) op" where
  "plx_lbp_flash_bios hw env fuel bios_file =
     plx_lbp_flash hw env fuel (cmd_word (cmd_code PLX_LBP_CMD_FLASH_BIOS) 0) bios_file"

definition plx_lbp_clear_smb_event_log ::
  "'h hw \<Rightarrow> 'h env \<Rightarrow> nat \<Rightarrow> u8 list \<Rightarrow> ('h, (crash + int) option) op" where
  "plx_lbp_clear_smb_event_log hw env fuel file =
     plx_lbp_flash hw env fuel (cmd_word (cmd_code PLX_LBP_CMD_FLASH_BIOS) 0) file"

definition plx_lbp_update_mac_addr ::
  "'h hw \<Rightarrow> 'h env \<Rightarrow> nat \<Rightarrow> u8 list \<Rightarrow> ('h, (crash + int) option) op" where
  "plx_lbp_update_mac_addr hw env fuel file =
     plx_lbp_flash hw env fuel (cmd_word (cmd_code PLX_LBP_CMD_FLASH_FW) 0) file"

definition plx_lbp_boot_from_usb :: "'h hw \<Rightarrow> ('h, int) op" where
  "plx_lbp_boot_from_usb hw =
     do {
       plx_write_spad hw SPAD_i7_CMD (cmd_word (cmd_code PLX_LBP_CMD_BOOT_LOADER) 0);
       to \<leftarrow> get_dev (i7_cmd_timeout_ms \<circ> lbp);
       r \<leftarrow> plx_lbp_wait_for_i7_state hw (PLX_LBP_i7_BOOTING OR PLX_LBP_i7_ANY_ERROR) to;
       State_Monad.return (if r = None then lbp_code LBP_CMD_TIMEOUT else lbp_code LBP_STATE_OK)
     }"

definition plx_lbp_flash_firmware :: "('h, int) op" where
  "plx_lbp_flash_firmware = State_Monad.return (- ENOSYS_code)"

section \<open>Parameters and states\<close>

fun param_max :: "vca_lbp_param \<Rightarrow> u32 option" where
  "param_max VCA_LBP_PARAM_i7_IRQ_TIMEOUT_MS = Some 300000"
| "param_max VCA_LBP_PARAM_i7_CMD_TIMEOUT_MS = Some 1000"
| "param_max VCA_LBP_PARAM_i7_ALLOC_TIMEOUT_MS = Some 1000"
| "param_max VCA_LBP_PARAM_i7_MAC_WRITE_TIMEOUT_MS = Some 10000"
| "param_max VCA_LBP_PARAM_SIZE = None"

text \<open>The second switch; the case of the command timeout falls through to the next one.\<close>

fun param_assign :: "vca_lbp_param \<Rightarrow> u32 \<Rightarrow> plx_lbp \<Rightarrow> plx_lbp" where
  "param_assign VCA_LBP_PARAM_i7_IRQ_TIMEOUT_MS val p = p\<lparr>i7_irq_timeout_ms := val\<rparr>"
| "param_assign VCA_LBP_PARAM_i7_ALLOC_TIMEOUT_MS val p = p\<lparr>i7_alloc_timeout_ms := val\<rparr>"
| "param_assign VCA_LBP_PARAM_i7_CMD_TIMEOUT_MS val p =
     p\<lparr>i7_cmd_timeout_ms := val, i7_mac_write_timeout_ms := val\<rparr>"
| "param_assign VCA_LBP_PARAM_i7_MAC_WRITE_TIMEOUT_MS val p = p\<lparr>i7_mac_write_timeout_ms := val\<rparr>"
| "param_assign VCA_LBP_PARAM_SIZE val p = p"

definition plx_lbp_set_param :: "vca_lbp_param \<Rightarrow> u32 \<Rightarrow> ('h, int) op" where
  "plx_lbp_set_param param val =
     (case param_max param of
        None \<Rightarrow> State_Monad.return (lbp_code LBP_UNKNOWN_PARAMETER)
      | Some max_val \<Rightarrow>
          if val < 0 \<or> max_val < val then State_Monad.return (lbp_code LBP_BAD_PARAMETER_VALUE)
          else
            do { put_dev (\<lambda>x. x\<lparr>lbp := param_assign param val (lbp x)\<rparr>);
                 State_Monad.return (lbp_code LBP_STATE_OK) })"

text \<open>
  The switch of \<open>plx_lbp_get_state\<close> as the list of its cases, in order, and the states of
  \<open>plx_lbp_set_state\<close> with the value they set.
\<close>

definition get_state_cases :: "(u32 \<times> vca_lbp_states) list" where
  "get_state_cases =
     [(PLX_LBP_i7_DOWN, VCA_BIOS_DOWN), (PLX_LBP_i7_UP, VCA_BIOS_UP), (PLX_LBP_i7_READY, VCA_BIOS_READY),
      (PLX_LBP_i7_BUSY, VCA_BUSY), (PLX_LBP_i7_BOOTING, VCA_BOOTING), (PLX_LBP_i7_FLASHING, VCA_FLASHING),
      (PLX_LBP_i7_DONE, VCA_DONE), (PLX_LBP_i7_OS_READY, VCA_OS_READY),
      (PLX_LBP_i7_NET_DEV_READY, VCA_NET_DEV_READY), (PLX_LBP_i7_UEFI_ERROR, VCA_ERROR),
      (PLX_LBP_i7_GENERAL_ERROR, VCA_ERROR), (PLX_LBP_i7_NET_DEV_UP, VCA_NET_DEV_UP),
      (PLX_LBP_i7_NET_DEV_DOWN, VCA_NET_DEV_DOWN), (PLX_LBP_i7_NET_DEV_NO_IP, VCA_NET_DEV_NO_IP),
      (PLX_LBP_i7_DRV_PROBE_DONE, VCA_DRV_PROBE_DONE), (PLX_LBP_i7_DRV_PROBE_ERROR, VCA_DRV_PROBE_ERROR),
      (PLX_LBP_i7_DHCP_IN_PROGRESS, VCA_DHCP_IN_PROGRESS), (PLX_LBP_i7_DHCP_DONE, VCA_DHCP_DONE),
      (PLX_LBP_i7_DHCP_ERROR, VCA_DHCP_ERROR), (PLX_LBP_i7_NFS_MOUNT_DONE, VCA_NFS_MOUNT_DONE),
      (PLX_LBP_i7_NFS_MOUNT_ERROR, VCA_NFS_MOUNT_ERROR), (PLX_LBP_i7_SOFTWARE_NODE_DOWN, VCA_LINK_DOWN),
      (PLX_LBP_i7_BOOTING_BLOCK_IO, VCA_BOOTING_BLOCKIO), (PLX_LBP_i7_OS_REBOOTING, VCA_OS_REBOOTING),
      (PLX_LBP_i7_UP OR PLX_LBP_i7_AFTER_REBOOT, VCA_AFTER_REBOOT), (PLX_LBP_i7_POWER_DOWN, VCA_POWER_DOWN),
      (PLX_LBP_i7_POWERING_DOWN OR PLX_LBP_i7_NET_DEV_DOWN, VCA_POWERING_DOWN)]"

definition state_of_status :: "u32 \<Rightarrow> vca_lbp_states" where
  "state_of_status status =
     (case map_of get_state_cases status of
        Some s \<Rightarrow> s
      | None \<Rightarrow> if status AND PLX_LBP_i7_POWER_DOWN \<noteq> 0 then VCA_POWER_DOWN else VCA_ERROR)"

definition plx_lbp_get_state :: "'h hw \<Rightarrow> ('h, vca_lbp_states) op" where
  "plx_lbp_get_state hw =
     do {
       x \<leftarrow> get_dev (\<lambda>x. x);
       if card_type x AND VCA_PRODUCTION = 0 then State_Monad.return VCA_OS_READY
       else if lbp_resetting x then State_Monad.return VCA_RESETTING
       else do { v \<leftarrow> plx_lbp_get_i7_status hw; State_Monad.return (state_of_status (i7_ready v)) }
     }"

fun status_of_state :: "vca_lbp_states \<Rightarrow> u32 option" where
  "status_of_state VCA_BIOS_DOWN = Some PLX_LBP_i7_DOWN"
| "status_of_state VCA_BIOS_UP = Some PLX_LBP_i7_UP"
| "status_of_state VCA_BIOS_READY = Some PLX_LBP_i7_READY"
| "status_of_state VCA_BUSY = Some PLX_LBP_i7_BUSY"
| "status_of_state VCA_BOOTING = Some PLX_LBP_i7_BOOTING"
| "status_of_state VCA_FLASHING = Some PLX_LBP_i7_FLASHING"
| "status_of_state VCA_DONE = Some PLX_LBP_i7_DONE"
| "status_of_state VCA_OS_READY = Some PLX_LBP_i7_OS_READY"
| "status_of_state VCA_NET_DEV_READY = Some PLX_LBP_i7_NET_DEV_READY"
| "status_of_state VCA_ERROR = Some PLX_LBP_i7_GENERAL_ERROR"
| "status_of_state VCA_NET_DEV_UP = Some PLX_LBP_i7_NET_DEV_UP"
| "status_of_state VCA_NET_DEV_DOWN = Some PLX_LBP_i7_NET_DEV_DOWN"
| "status_of_state VCA_NET_DEV_NO_IP = Some PLX_LBP_i7_NET_DEV_NO_IP"
| "status_of_state VCA_DRV_PROBE_DONE = Some PLX_LBP_i7_DRV_PROBE_DONE"
| "status_of_state VCA_DRV_PROBE_ERROR = Some PLX_LBP_i7_DRV_PROBE_ERROR"
| "status_of_state VCA_DHCP_IN_PROGRESS = Some PLX_LBP_i7_DHCP_IN_PROGRESS"
| "status_of_state VCA_DHCP_DONE = Some PLX_LBP_i7_DHCP_DONE"
| "status_of_state VCA_DHCP_ERROR = Some PLX_LBP_i7_DHCP_ERROR"
| "status_of_state VCA_NFS_MOUNT_DONE = Some PLX_LBP_i7_NFS_MOUNT_DONE"
| "status_of_state VCA_NFS_MOUNT_ERROR = Some PLX_LBP_i7_NFS_MOUNT_ERROR"
| "status_of_state VCA_BOOTING_BLOCKIO = Some PLX_LBP_i7_BOOTING_BLOCK_IO"
| "status_of_state VCA_OS_REBOOTING = Some PLX_LBP_i7_OS_REBOOTING"
| "status_of_state VCA_AFTER_REBOOT = Some (PLX_LBP_i7_UP OR PLX_LBP_i7_AFTER_REBOOT)"
| "status_of_state VCA_POWER_DOWN = Some PLX_LBP_i7_POWER_DOWN"
| "status_of_state VCA_POWERING_DOWN = Some PLX_LBP_i7_POWERING_DOWN"
| "status_of_state VCA_RESETTING = None"
| "status_of_state VCA_LINK_DOWN = None"
| "status_of_state VCA_SIZE = None"

definition plx_lbp_set_state :: "'h hw \<Rightarrow> vca_lbp_states \<Rightarrow> ('h, int) op" where
  "plx_lbp_set_state hw state =
     do {
       x \<leftarrow> get_dev (\<lambda>x. x);
       if card_type x AND VCA_PRODUCTION = 0 then State_Monad.return (lbp_code LBP_STATE_OK)
       else if lbp_resetting x then State_Monad.return (lbp_code LBP_INTERNAL_ERROR)
       else
         do {
           v \<leftarrow> plx_lbp_get_i7_status hw;
           case status_of_state state of
             None \<Rightarrow> State_Monad.return (lbp_code LBP_BAD_PARAMETER_VALUE)
           | Some ready \<Rightarrow>
               do { plx_lbp_set_i7_status hw (set_bit_field 0 24 ready v);
                    State_Monad.return (lbp_code LBP_STATE_OK) }
         }
     }"

definition plx_lbp_get_rcvy_state :: "'h hw \<Rightarrow> ('h, vca_lbp_rcvy_states) op" where
  "plx_lbp_get_rcvy_state hw =
     do {
       x \<leftarrow> get_dev (\<lambda>x. x);
       if card_type x AND VCA_PRODUCTION = 0 \<or> lbp_resetting x
       then State_Monad.return VCA_RCVY_NON_READABLE
       else
         do {
           v \<leftarrow> plx_read_spad hw SPAD_i7_READY;
           if i7_version v < PLX_LBP_PROTOCOL_VERSION 0 4 then State_Monad.return VCA_RCVY_NON_READABLE
           else
             do {
               v \<leftarrow> plx_lbp_get_i7_status hw;
               if i7_ready v \<in> {PLX_LBP_i7_UP, PLX_LBP_i7_UP OR PLX_LBP_i7_AFTER_REBOOT, PLX_LBP_i7_READY} then
                 do {
                   rcvy \<leftarrow> plx_lbp_get_i7_rcvy_status hw;
                   State_Monad.return (if rcvy AND 1 \<noteq> 0 then VCA_RCVY_JUMPER_OPEN else VCA_RCVY_JUMPER_CLOSE)
                 }
               else State_Monad.return VCA_RCVY_NON_READABLE
             }
         }
     }"

text \<open>The six bytes of the address come from the two data words in memory order.\<close>

definition plx_lbp_get_mac_addr :: "'h hw \<Rightarrow> ('h, int \<times> u8 list option) op" where
  "plx_lbp_get_mac_addr hw =
     do {
       v \<leftarrow> plx_lbp_get_i7_status hw;
       if i7_ready v \<noteq> PLX_LBP_i7_READY then State_Monad.return (lbp_code LBP_SPAD_i7_WRONG_STATE, None)
       else
         do {
           plx_write_spad hw SPAD_i7_CMD (cmd_word (cmd_code PLX_LBP_CMD_GET_MAC_ADDR) 0);
           to \<leftarrow> get_dev (i7_cmd_timeout_ms \<circ> lbp);
           ok \<leftarrow> plx_lbp_wait_for_i7_cmd_consumed hw to;
           if \<not> ok then State_Monad.return (lbp_code LBP_CMD_TIMEOUT, None)
           else
             do {
               r \<leftarrow> plx_lbp_wait_for_i7_state hw PLX_LBP_i7_READY to;
               if r = None then State_Monad.return (lbp_code LBP_CMD_TIMEOUT, None)
               else
                 do {
                   hi \<leftarrow> plx_read_spad hw SPAD_DATA_HIGH;
                   lo \<leftarrow> plx_read_spad hw SPAD_DATA_LOW;
                   State_Monad.return
                     (lbp_code LBP_STATE_OK,
                      Some [ucast hi, ucast (drop_bit 8 hi), ucast (drop_bit 16 hi), ucast (drop_bit 24 hi),
                            ucast lo, ucast (drop_bit 8 lo)])
                 }
             }
         }
     }"

definition plx_link_status :: "'h hw \<Rightarrow> ('h, bool) op" where
  "plx_link_status hw =
     do {
       w \<leftarrow> plx_link_width hw;
       if w = 0 then State_Monad.return False
       else do { s \<leftarrow> plx_lbp_get_state hw; State_Monad.return (s \<noteq> VCA_LINK_DOWN) }
     }"

section \<open>The copy into the memory of the card\<close>

text \<open>
  The memory of the card is part of the hidden state of the bridge. The DMA engine, when it
  reports success, has written the bytes to where the bridge sends the window; it leaves the
  A-LUT registers alone, and it changes nothing of the device.
\<close>

fun dma_store :: "'h plx_device \<Rightarrow> nat \<Rightarrow> u8 list \<Rightarrow> (u64 \<Rightarrow> u8) \<Rightarrow> u64 \<Rightarrow> u8" where
  "dma_store x off [] f = f"
| "dma_store x off (b # bs) f =
     dma_store x (off + 1) bs (case bridge_translate x off of None \<Rightarrow> f | Some a \<Rightarrow> f(a := b))"

definition dma_engine :: "('h \<Rightarrow> u64 \<Rightarrow> u8) \<Rightarrow> 'h env \<Rightarrow> bool" where
  "dma_engine mem env =
     (\<forall>dst src bytes x. case run_state (dma_memcpy env dst src bytes) x of (r, x') \<Rightarrow>
        x' = x\<lparr>mmio := mmio x'\<rparr> \<and>
        (\<forall>o' \<in> lut_regs (a_lut_array_base x). regs (mmio x') o' = regs (mmio x) o') \<and>
        (r = Waited 0 \<longrightarrow>
          mem (peer (mmio x')) = dma_store x (unat (dst - aper_pa x)) bytes (mem (peer (mmio x)))))"

definition keeps_mem :: "('h \<Rightarrow> u64 \<Rightarrow> u8) \<Rightarrow> 'h hw \<Rightarrow> bool" where
  "keeps_mem mem hw = (\<forall>m. mem (peer (hw m)) = mem (peer m))"

fun store_bytes :: "u64 \<Rightarrow> u8 list \<Rightarrow> (u64 \<Rightarrow> u8) \<Rightarrow> u64 \<Rightarrow> u8" where
  "store_bytes pa [] f = f"
| "store_bytes pa (b # bs) f = store_bytes (pa + 1) bs (f(pa := b))"

lemma dma_store_window:
  assumes "\<forall>i < length bytes. bridge_translate x (off + i) = Some (pa + of_nat i)"
  shows "dma_store x off bytes f = store_bytes pa bytes f"
  using assms
proof (induction bytes arbitrary: off pa f)
  case (Cons b bs)
  have "bridge_translate x off = Some pa" using Cons.prems by (auto dest: spec [of _ 0])
  moreover have "\<forall>i < length bs. bridge_translate x (off + 1 + i) = Some (pa + 1 + of_nat i)"
    using Cons.prems by (auto simp: add.assoc dest: spec [of _ "Suc _"])
  ultimately show ?case using Cons.IH by simp
qed simp

lemma store_bytes_append:
  "store_bytes pa (xs @ ys) f = store_bytes (pa + of_nat (length xs)) ys (store_bytes pa xs f)"
  by (induction xs arbitrary: pa f) (simp_all add: add.assoc)

text \<open>The device as the copy loop needs it.\<close>

definition copy_ok :: "'h hw \<Rightarrow> 'h plx_device \<Rightarrow> bool" where
  "copy_ok hw x =
     (a_lut x \<and> dma_ch x \<and> lut_ok x \<and> counters_below_max (a_lut_manager x) \<and>
      keeps_regs (lut_regs (a_lut_array_base x)) hw)"

lemma copy_round:
  assumes ok: "copy_ok hw x" and mem: "keeps_mem mem hw" and dma: "dma_engine mem env"
    and remap: "run_state (plx_ioremap hw pa len) x = (r, x1)" and len: "length bytes \<le> unat len"
  shows "\<exists>ova. r = Some (Inr ova) \<and> (\<forall>va. ova = Some va \<longrightarrow>
    (\<exists>err x2 x3. run_state (vca_lbp_sync_dma env (aper_pa x + (va - aper_va x)) src bytes) x1 = (err, x2)
      \<and> run_state (plx_iounmap hw va) x2 = (Inr (), x3) \<and> copy_ok hw x3
      \<and> aper_pa x1 = aper_pa x \<and> aper_va x1 = aper_va x
      \<and> (err = 0 \<longrightarrow> mem (peer (mmio x3)) = store_bytes pa bytes (mem (peer (mmio x))))))"
proof -
  let ?M = "mem (peer (mmio x))"
  have k: "keeps_regs (lut_regs (a_lut_array_base x)) hw" using ok by (simp add: copy_ok_def)
  note peer = op_inv_peer [where P = "\<lambda>p. mem p = M" and hw = hw for M]
  obtain ova m b where r: "r = Some (Inr ova)" "x1 = x\<lparr>a_lut_manager := m, mmio := b\<rparr>" "lut_ok x1"
    "\<And>va. ova = Some va \<Longrightarrow> window_ready x1 va pa (unat len)"
    using ioremap_run [of x hw pa len] ok remap by (auto simp: copy_ok_def)
  have mem1: "mem (peer (mmio x1)) = ?M"
    using op_invD [OF peer(1) remap, of ?M] mem by (simp add: keeps_mem_def)
  show ?thesis
  proof (intro exI [of _ ova] conjI r(1) allI impI)
    fix va assume va: "ova = Some va"
    note w = r(4) [OF va]
    let ?dst = "aper_pa x + (va - aper_va x)"
    obtain res x2 where d: "run_state (dma_memcpy env ?dst src bytes) x1 = (res, x2)" by fastforce
    then have x2: "x2 = x1\<lparr>mmio := mmio x2\<rparr>" "\<forall>o' \<in> lut_regs (a_lut_array_base x1). regs (mmio x2) o' = regs (mmio x1) o'"
      "res = Waited 0 \<longrightarrow> mem (peer (mmio x2)) = dma_store x1 (unat (?dst - aper_pa x1)) bytes (mem (peer (mmio x1)))"
      using dma unfolding dma_engine_def by (metis (mono_tags, lifting) case_prod_conv)+
    have "dma_store x1 (unat (va - aper_va x)) bytes ?M = store_bytes pa bytes ?M"
      using w len r(2) by (intro dma_store_window) (auto simp: window_ready_def)
    then have st: "res = Waited 0 \<longrightarrow> mem (peer (mmio x2)) = store_bytes pa bytes ?M"
      using x2(3) mem1 r(2) by simp
    have ok2: "lut_ok x2" using lut_ok_regs [OF r(3), of "mmio x2"] x2(1,2) by (metis)
    have same: "a_lut_manager x2 = a_lut_manager x1" "aper_va x2 = aper_va x1" "a_lut x2 = a_lut x1"
      "a_lut_array_base x2 = a_lut_array_base x1" "dma_ch x2 = dma_ch x1"
      by (subst x2(1), simp)+
    obtain m3 b3 where x3: "run_state (plx_iounmap hw va) x2 = (Inr (), x2\<lparr>a_lut_manager := m3, mmio := b3\<rparr>)"
      "lut_ok (x2\<lparr>a_lut_manager := m3, mmio := b3\<rparr>)" "counters_below_max m3"
      using iounmap_run [of x2 hw va] ok k w ok2 same r(2)
      by (auto simp: copy_ok_def window_ready_def window_mapped_def Let_def)
    let ?x3 = "x2\<lparr>a_lut_manager := m3, mmio := b3\<rparr>"
    have mem3: "mem (peer (mmio ?x3)) = mem (peer (mmio x2))"
      using op_invD [OF peer(2) x3(1), of "mem (peer (mmio x2))"] mem by (simp add: keeps_mem_def)
    have "run_state (vca_lbp_sync_dma env ?dst src bytes) x1 =
        (case res of No_Descriptor \<Rightarrow> -12 | Submit_Error \<Rightarrow> -12 | Waited status \<Rightarrow> status, x2)"
      using d ok r(2) by (simp add: vca_lbp_sync_dma_def copy_ok_def)
    moreover have "copy_ok hw ?x3" using ok x3 same r(2) by (simp add: copy_ok_def)
    ultimately show "\<exists>err x2 x3. run_state (vca_lbp_sync_dma env ?dst src bytes) x1 = (err, x2)
      \<and> run_state (plx_iounmap hw va) x2 = (Inr (), x3) \<and> copy_ok hw x3
      \<and> aper_pa x1 = aper_pa x \<and> aper_va x1 = aper_va x
      \<and> (err = 0 \<longrightarrow> mem (peer (mmio x3)) = store_bytes pa bytes ?M)"
      using x3(1) st mem3 r(2) by (cases res) auto
  qed
qed
lemma ramdisk_loop_ok:
  assumes mem: "keeps_mem mem hw" and dma: "dma_engine mem env" and img: "length img < 2 ^ 64"
    and "copy_ok hw x" and "off \<le> length img" and "sz \<le> length img - off"
    and "off < length img \<longrightarrow> 0 < sz" and "length img - off < fuel"
  shows "\<exists>e x'. run_state (ramdisk_loop hw env fuel img ph da off sz err) x = (Some (Inr e), x')
    \<and> (0 \<le> e \<longrightarrow> mem (peer (mmio x')) = store_bytes (ph + of_nat off) (drop off img) (mem (peer (mmio x))))
    \<and> (off < length img \<longrightarrow> 0 \<le> e \<longrightarrow> e = 0) \<and> (off = length img \<longrightarrow> e = err)"
  using assms(4-)
proof (induction fuel arbitrary: x off sz err)
  case 0
  then show ?case by simp
next
  case (Suc fuel)
  show ?case
  proof (cases "off < length img \<and> \<not> copy_fails env off")
    case False
    then show ?thesis using Suc.prems(2) by (cases "off < length img") auto
  next
    case True
    let ?pa = "ph + of_nat off" and ?bytes = "take sz (drop off img)"
    obtain r x1 where remap: "run_state (plx_ioremap hw ?pa (of_nat sz)) x = (r, x1)" by fastforce
    have "length ?bytes \<le> unat (of_nat sz :: u64)" using img Suc.prems(3) by (simp add: unat_of_nat)
    from copy_round [OF Suc.prems(1) mem dma remap this, of da]
    obtain ova where r: "r = Some (Inr ova)" and rd: "\<And>va. ova = Some va \<Longrightarrow>
      (\<exists>err x2 x3. run_state (vca_lbp_sync_dma env (aper_pa x + (va - aper_va x)) da ?bytes) x1 = (err, x2)
      \<and> run_state (plx_iounmap hw va) x2 = (Inr (), x3) \<and> copy_ok hw x3
      \<and> aper_pa x1 = aper_pa x \<and> aper_va x1 = aper_va x
      \<and> (err = 0 \<longrightarrow> mem (peer (mmio x3)) = store_bytes ?pa ?bytes (mem (peer (mmio x)))))" by blast
    show ?thesis
    proof (cases ova)
      case None
      then show ?thesis using True remap r by auto
    next
      case (Some va)
      obtain e2 x2 x3 where s: "run_state (vca_lbp_sync_dma env (aper_pa x + (va - aper_va x)) da ?bytes) x1 = (e2, x2)"
        "run_state (plx_iounmap hw va) x2 = (Inr (), x3)" "copy_ok hw x3" "aper_pa x1 = aper_pa x" "aper_va x1 = aper_va x"
        "e2 = 0 \<longrightarrow> mem (peer (mmio x3)) = store_bytes ?pa ?bytes (mem (peer (mmio x)))"
        using rd [OF Some] by blast
      show ?thesis
      proof (cases "e2 = 0")
        case False
        then show ?thesis using True remap r Some s by auto
      next
        case e2: True
        let ?off = "off + sz"
        let ?sz = "min sz (length img - ?off)"
        have le: "?off \<le> length img" "length img - ?off < fuel" using Suc.prems True by linarith+
        obtain e x' where IH: "run_state (ramdisk_loop hw env fuel img ph da ?off ?sz 0) x3 = (Some (Inr e), x')"
          "0 \<le> e \<longrightarrow> mem (peer (mmio x')) = store_bytes (ph + of_nat ?off) (drop ?off img) (mem (peer (mmio x3)))"
          "?off < length img \<longrightarrow> 0 \<le> e \<longrightarrow> e = 0" "?off = length img \<longrightarrow> e = 0"
          using Suc.IH [OF s(3) le(1), of ?sz 0] le(2) Suc.prems(4) True by auto
        have d: "drop off img = ?bytes @ drop ?off img" by (metis append_take_drop_id drop_drop add.commute)
        have l: "length ?bytes = sz" using Suc.prems(3) by simp
        have "store_bytes ?pa (drop off img) f = store_bytes (ph + of_nat ?off) (drop ?off img) (store_bytes ?pa ?bytes f)" for f
          by (subst d) (simp only: store_bytes_append l of_nat_add add.assoc)
        moreover have "run_state (ramdisk_loop hw env (Suc fuel) img ph da off sz err) x = (Some (Inr e), x')"
          using True remap r Some s IH(1) e2 by (simp add: Let_def)
        ultimately show ?thesis using IH s(6) e2 True le(1) by (auto simp: le_less)
      qed
    qed
  qed
qed

text \<open>The registers of the protocol lie outside the A-LUT arrays.\<close>

definition dev_layout :: "'h plx_device \<Rightarrow> bool" where
  "dev_layout x =
     (a_lut_array_base x \<le> 0x3b000 \<and> reg_base x \<in> {0x3c000..0x3f000} \<and> reg_base_peer x \<in> {0x3c000..0x3f000})"

lemma above_lut:
  assumes "base \<le> 0x3b000" and "0x3cc6c \<le> r"
  shows "r \<notin> lut_regs base"
proof
  assume "r \<in> lut_regs base"
  then obtain i sub where r: "r = lut_reg base i sub" "i < 256" "sub \<in> {0, 0x400, 0x800}"
    by (auto simp: lut_regs_def)
  have b: "unat base \<le> 0x3b000" using assms(1) by (simp add: word_le_nat_alt)
  have "unat r = unat base + 4096 * (i div 128) + 4 * (i mod 128) + unat sub"
    unfolding r(1) using r(2,3) b by (intro lut_reg_value) auto
  moreover have "i div 128 \<le> 1" "i mod 128 < 128" "unat sub \<le> 2048" using r(2,3) by auto
  ultimately have "unat r < 0x3cc6c" using b by linarith
  then show False using assms(2) by (simp add: word_le_nat_alt)
qed

lemma spad_above:
  assumes "dev_layout x" and "unat idx < 8"
  shows "reg_base x + 0xC6C + idx * 4 \<notin> lut_regs (a_lut_array_base x)"
    and "reg_base_peer x + 0xc94 \<notin> lut_regs (a_lut_array_base x)"
proof -
  have rb: "unat (reg_base x) \<in> {0x3c000..0x3f000}" "unat (reg_base_peer x) \<in> {0x3c000..0x3f000}"
    using assms(1) by (auto simp: dev_layout_def word_le_nat_alt)
  have "unat (reg_base x + 0xC6C + idx * 4) = unat (reg_base x) + 0xC6C + unat idx * 4"
    using rb assms(2) by (simp add: unat_word_ariths)
  then show "reg_base x + 0xC6C + idx * 4 \<notin> lut_regs (a_lut_array_base x)"
    using rb assms(1) by (intro above_lut) (auto simp: dev_layout_def word_le_nat_alt)
  have "unat (reg_base_peer x + 0xc94) = unat (reg_base_peer x) + 0xc94"
    using rb by (simp add: unat_word_ariths)
  then show "reg_base_peer x + 0xc94 \<notin> lut_regs (a_lut_array_base x)"
    using rb assms(1) by (intro above_lut) (auto simp: dev_layout_def word_le_nat_alt)
qed

definition copy_inv :: "'h hw \<Rightarrow> ('h \<Rightarrow> u64 \<Rightarrow> u8) \<Rightarrow> (u64 \<Rightarrow> u8) \<Rightarrow> 'h plx_device \<Rightarrow> bool" where
  "copy_inv hw mem M x = (copy_ok hw x \<and> dev_layout x \<and> mem (peer (mmio x)) = M)"

lemma copy_inv_layout: "copy_inv hw mem M x \<Longrightarrow> dev_layout x"
  by (simp add: copy_inv_def)

lemma copy_inv_hw:
  assumes "keeps_mem mem hw"
  shows "hw_inv hw (copy_inv hw mem M)"
proof -
  have "lut_ok (x\<lparr>mmio := hw (mmio x)\<rparr>)" if "copy_ok hw x" for x
    using that by (intro lut_ok_regs) (auto simp: copy_ok_def intro: keeps_regsD)
  then show ?thesis
    using assms by (auto simp: hw_inv_def copy_inv_def copy_ok_def dev_layout_def keeps_mem_def)
qed

lemma copy_inv_write:
  assumes "keeps_mem mem hw" and "copy_inv hw mem M x" and "off \<notin> lut_regs (a_lut_array_base x)"
  shows "copy_inv hw mem M (x\<lparr>mmio := hw ((mmio x)\<lparr>regs := (regs (mmio x))(off := v)\<rparr>)\<rparr>)"
proof -
  let ?y = "x\<lparr>mmio := (mmio x)\<lparr>regs := (regs (mmio x))(off := v)\<rparr>\<rparr>"
  have "lut_ok ?y" using assms(2,3) by (intro lut_ok_regs) (auto simp: copy_inv_def copy_ok_def)
  then have "copy_inv hw mem M ?y" using assms(2) by (simp add: copy_inv_def copy_ok_def dev_layout_def)
  then show ?thesis using copy_inv_hw [OF assms(1)] by (fastforce simp: hw_inv_def)
qed

lemma copy_inv_ops:
  assumes "keeps_mem mem hw"
  shows "unat idx < 8 \<Longrightarrow> op_inv (copy_inv hw mem M) (plx_write_spad hw idx v)"
    and "op_inv (copy_inv hw mem M) (plx_read_spad hw idx)"
    and "op_inv (copy_inv hw mem M) (plx_a_lut_peer_enable hw)"
    and "op_inv (copy_inv hw mem M) (plx_lbp_get_i7_status hw)"
    and "op_inv (copy_inv hw mem M) (plx_lbp_wait_for_i7_state hw st to)"
    and "op_inv (copy_inv hw mem M) (lbp_exit hw err)"
proof -
  note hw = copy_inv_hw [OF assms]
  show rd: "op_inv (copy_inv hw mem M) (plx_read_spad hw idx)" for idx
    unfolding plx_read_spad_def by (auto intro!: op_inv_rules hw)
  show "op_inv (copy_inv hw mem M) (plx_write_spad hw idx v)" if "unat idx < 8"
    unfolding op_inv_def using copy_inv_write [OF assms] spad_above(1) [OF _ that] copy_inv_layout
    by (simp add: plx_write_spad_def) blast
  show "op_inv (copy_inv hw mem M) (plx_a_lut_peer_enable hw)"
    unfolding op_inv_def using copy_inv_write [OF assms] spad_above(2) [of _ 0] copy_inv_layout
    by (simp add: plx_a_lut_peer_enable_def) blast
  show st: "op_inv (copy_inv hw mem M) (plx_lbp_get_i7_status hw)"
    unfolding plx_lbp_get_i7_status_def by (rule rd)
  have "op_inv (copy_inv hw mem M) (lbp_wait_event hw (plx_lbp_get_i7_status hw) event n)" for event n
    by (induction n) (auto intro!: op_inv_rules hw st)
  then show "op_inv (copy_inv hw mem M) (plx_lbp_wait_for_i7_state hw st to)" for st
    unfolding plx_lbp_wait_for_i7_state_def by (auto intro!: op_inv_rules)
  show "op_inv (copy_inv hw mem M) (lbp_exit hw err)"
    unfolding lbp_exit_def by (auto intro!: op_inv_rules rd)
qed

lemma ramdisk_map_inv:
  assumes "keeps_mem mem hw"
  shows "op_inv (copy_inv hw mem M) (ramdisk_map hw img)"
  unfolding ramdisk_map_def by (intro op_inv_rules copy_inv_ops [OF assms]) simp_all

lemma ramdisk_map_error:
  assumes "run_state (ramdisk_map hw img) x = (Inl err, x')"
  shows "err < 0 \<or> (word_of_int err :: u32) AND PLX_LBP_i7_ANY_ERROR \<noteq> 0"
  using assms
  by (auto simp: ramdisk_map_def Let_def split: prod.splits option.splits if_splits)

text \<open>
  C5. Sending an image to a card never crashes and always returns. When it reports success, the
  memory of the card holds the image at the address the card gave for it, and is otherwise
  as it was: every chunk went through a window that the bridge translated to its place.
\<close>

theorem plx_lbp_send_ramdisk_copies:
  assumes "copy_ok hw x" and "dev_layout x" and mem: "keeps_mem mem hw" and dma: "dma_engine mem env"
    and img: "length img < 2 ^ 64" and fuel: "length img < fuel"
  shows "\<exists>e x'. run_state (plx_lbp_send_ramdisk hw env fuel img) x = (Some (Inr e), x')
    \<and> (e = lbp_code LBP_STATE_OK \<longrightarrow>
        (\<exists>ready ph y. run_state (ramdisk_map hw img)
            (snd (run_state (do { plx_a_lut_peer_enable hw; plx_lbp_get_i7_status hw }) x)) = (Inr (ready, ph), y)
          \<and> mem (peer (mmio x')) = store_bytes ph img (mem (peer (mmio x)))))"
proof -
  let ?M = "mem (peer (mmio x))" and ?I = "copy_inv hw mem (mem (peer (mmio x)))"
  have I: "?I x" using assms(1,2) by (simp add: copy_inv_def)
  obtain v x1 where s1: "run_state (do { plx_a_lut_peer_enable hw; plx_lbp_get_i7_status hw }) x = (v, x1)"
    by fastforce
  have "op_inv ?I (do { plx_a_lut_peer_enable hw; plx_lbp_get_i7_status hw })"
    by (intro op_inv_rules copy_inv_ops [OF mem])
  note I1 = op_invD [OF this s1 I]
  have dev: "dma_ch x" "a_lut x" using assms(1) by (auto simp: copy_ok_def)
  have send: "run_state (plx_lbp_send_ramdisk hw env fuel img) x =
      (if i7_ready v \<noteq> PLX_LBP_i7_READY then (Some (Inr (lbp_code LBP_INTERNAL_ERROR)), x1)
       else case temp_buffer env of
           None \<Rightarrow> (Some (Inr (lbp_code LBP_INTERNAL_ERROR)), x1)
         | Some (da, sz) \<Rightarrow>
             (case run_state (ramdisk_transfer hw env fuel img da sz) x1 of
                (None, y) \<Rightarrow> (None, y)
              | (Some (Inl e), y) \<Rightarrow> (Some (Inl e), y)
              | (Some (Inr err), y) \<Rightarrow> (case run_state (lbp_exit hw err) y of (ret, z) \<Rightarrow> (Some (Inr ret), z))))"
    using s1 dev
    by (auto simp: plx_lbp_send_ramdisk_def split: prod.splits option.splits sum.splits)
  show ?thesis
  proof (cases "i7_ready v = PLX_LBP_i7_READY \<and> temp_buffer env \<noteq> None")
    case False
    then show ?thesis
      using send by (cases "i7_ready v = PLX_LBP_i7_READY"; cases "temp_buffer env") auto
  next
    case True
    obtain da sz where tb: "temp_buffer env = Some (da, sz)" using True by auto
    then have "0 < unat sz"
      by (auto simp: temp_buffer_def HPAGE_SIZE_def PAGE_SIZE_def split: option.splits)
    obtain r y where map: "run_state (ramdisk_map hw img) x1 = (r, y)" by fastforce
    note Iy = op_invD [OF ramdisk_map_inv [OF mem] map I1]
    show ?thesis
    proof (cases r)
      case (Inl err)
      then show ?thesis
        using ramdisk_map_error [OF map [unfolded Inl]] send True tb map
        by (auto simp: ramdisk_transfer_def lbp_exit_def split: prod.splits)
    next
      case (Inr p)
      obtain ready ph where p: "p = (ready, ph)" by (cases p)
      obtain e x' where loop: "run_state (ramdisk_loop hw env fuel img ph da 0 (min (length img) (unat sz))
          (int (unat ready))) y = (Some (Inr e), x')"
        "0 \<le> e \<longrightarrow> mem (peer (mmio x')) = store_bytes ph img ?M"
        using ramdisk_loop_ok [OF mem dma img, of y 0 "min (length img) (unat sz)" fuel ph da "int (unat ready)"]
          Iy fuel \<open>0 < unat sz\<close> by (auto simp: copy_inv_def)
      have "run_state (ramdisk_transfer hw env fuel img da sz) x1 = (Some (Inr e), x')"
        using map Inr p loop(1) by (simp add: ramdisk_transfer_def)
      then show ?thesis
        using send True tb loop(2) s1 map Inr p by (auto simp: lbp_exit_def split: prod.splits)
    qed
  qed
qed
text \<open>
  A card that maps the RAM disk at \<open>0x5000\<close> when it is asked to, with its memory as the hidden
  state, and a DMA engine that does what it should.
\<close>

definition card_example :: "(u64 \<Rightarrow> u8) hw" where
  "card_example m =
     (if regs m 0x3EC7C = cmd_word 2 1
      then m\<lparr>regs := (regs m)(0x3EC74 := 0x20, 0x3EC80 := 0x5000, 0x3EC84 := 0, 0x3EC7C := 0)\<rparr> else m)"

definition env_example :: "(u64 \<Rightarrow> u8) env" where
  "env_example =
     \<lparr>wait_for_completion = (\<lambda>_. State_Monad.return 1),
      clock = \<lparr>tm_year = 126, tm_mon = 1, tm_mday = 3, tm_hour = 4, tm_min = 5, tm_sec = 6\<rparr>,
      tv_nsec = 7000000, tz_minuteswest = 60, stack_bits = (\<lambda>_. 0), dma_alloc_coherent = (\<lambda>_. Some 0),
      copy_fails = (\<lambda>_. False),
      dma_memcpy = (\<lambda>dst src bytes. State (\<lambda>x. (Waited 0,
        x\<lparr>mmio := (mmio x)\<lparr>peer := dma_store x (unat (dst - aper_pa x)) bytes (peer (mmio x))\<rparr>\<rparr>))),
      request_irq = EOK\<rparr>"

definition lbp_example :: "(u64 \<Rightarrow> u8) plx_device" where
  "lbp_example =
     (new_dev init_example_dev \<lparr>regs = (\<lambda>_. 0)(0x3EC74 := 2), peer = (\<lambda>_. 0), jiffies = 0\<rparr> 0x100000 0 0x4000)
       \<lparr>a_lut := True, dma_ch := True, reg_base := 0x3E000, reg_base_peer := 0x3F000,
        a_lut_array_base := 0x38000, a_lut_manager := alm_fresh, card_type := VCA_MV,
        lbp := \<lparr>i7_irq_timeout_ms = 1, i7_alloc_timeout_ms = 1, i7_cmd_timeout_ms = 1,
          i7_mac_write_timeout_ms = 1, i7_ddr_size_mb = 0, card_wait = False\<rparr>\<rparr>"

lemma alm_fresh_lookup: "j < nsegs alm_fresh \<Longrightarrow> alm_lookup alm_fresh j = None"
  by (simp add: alm_lookup_def alm_fresh_def zero_entry_def)

lemma lbp_example_ok: "copy_ok card_example lbp_example" "dev_layout lbp_example"
proof -
  have "keeps_regs (lut_regs 0x38000) card_example"
    using above_lut [of "0x38000"] by (auto simp: keeps_regs_def card_example_def)
  moreover have "lut_agrees lbp_example"
    by (auto simp: lut_agrees_def lbp_example_def alm_fresh_lookup)
  ultimately show "copy_ok card_example lbp_example"
    using alm_fresh_ok by (auto simp: copy_ok_def lut_ok_def lbp_example_def new_dev_def)
  show "dev_layout lbp_example" by (simp add: dev_layout_def lbp_example_def)
qed

lemma env_example_ok: "keeps_mem (\<lambda>f. f) card_example" "dma_engine (\<lambda>f. f) env_example"
  by (auto simp: keeps_mem_def card_example_def dma_engine_def env_example_def)

theorem plx_lbp_send_ramdisk_copies_witness:
  "\<exists>e x'. run_state (plx_lbp_send_ramdisk card_example env_example 4 [1, 2, 3]) lbp_example = (Some (Inr e), x')
     \<and> (e = lbp_code LBP_STATE_OK \<longrightarrow> peer (mmio x') = store_bytes 0x5000 [1, 2, 3] (\<lambda>_. 0))"
proof -
  have map: "fst (run_state (ramdisk_map card_example [1, 2, 3]) (snd (run_state
      (do { plx_a_lut_peer_enable card_example; plx_lbp_get_i7_status card_example }) lbp_example))) =
    Inr (0x20, 0x5000)" by code_simp
  have "peer (mmio lbp_example) = (\<lambda>_. 0)" by (simp add: lbp_example_def new_dev_def)
  then show ?thesis
    using plx_lbp_send_ramdisk_copies [OF lbp_example_ok env_example_ok, of "[1, 2, 3]" 4] map by auto
qed

end
