(* ===== verification/Lbp_Contract.thy ===== *)
theory Lbp_Contract
  imports Plx_Lbp
begin

text \<open>
  What the leveraged boot protocol promises: states that are read back, waits that end with the
  first look that shows the event, timeouts within their bounds, the time word, results within
  the enumeration, and the word the host leaves in its scratchpad after the handshake.
\<close>

unbundle bit_operations_syntax

section \<open>States\<close>

lemma state_status: "status_of_state s = Some r \<Longrightarrow>
    state_of_status r = (if s = VCA_POWERING_DOWN then VCA_ERROR else s) \<and> r AND mask 24 = r"
proof -
  have "(mask 24 :: u32) = 0xFFFFFF" by (simp add: mask_eq_exp_minus_1)
  then show "status_of_state s = Some r \<Longrightarrow>
      state_of_status r = (if s = VCA_POWERING_DOWN then VCA_ERROR else s) \<and> r AND mask 24 = r"
    by (cases s) (auto simp: state_of_status_def get_state_cases_def i7_codes)
qed

text \<open>
  C21. A state that was set is the state that is read, with one exception: the word set for
  \<open>VCA_POWERING_DOWN\<close> is one that \<open>plx_lbp_get_state\<close> does not know, and it is read as
  \<open>VCA_ERROR\<close>. The protocol version in the same word stays as it was.
\<close>

theorem plx_lbp_state_roundtrip:
  assumes "keeps_regs {reg_base x + 0xC74} hw" and "card_type x AND VCA_PRODUCTION \<noteq> 0"
    and "\<not> lbp_resetting x" and "status_of_state s \<noteq> None"
  shows "\<exists>x'. run_state (do { e \<leftarrow> plx_lbp_set_state hw s; s' \<leftarrow> plx_lbp_get_state hw;
      State_Monad.return (e, s') }) x =
      ((lbp_code LBP_STATE_OK, if s = VCA_POWERING_DOWN then VCA_ERROR else s), x')
    \<and> i7_version (regs (mmio x') (reg_base x + 0xC74)) = i7_version (regs (mmio x) (reg_base x + 0xC74))"
proof -
  obtain r where r: "status_of_state s = Some r" using assms(4) by auto
  have k: "regs (hw m) (0xC74 + reg_base x) = regs m (0xC74 + reg_base x)" for m
    using keeps_regsD [OF assms(1)] by (simp add: add.commute)
  have v: "i7_ready (set_bit_field 0 24 r v) = r" "i7_version (set_bit_field 0 24 r v) = i7_version v" for v
    using state_status [OF r] by (simp_all add: i7_ready_def i7_version_def bit_fields)
  show ?thesis
    using assms(2,3) r state_status [OF r]
    by (simp add: plx_lbp_set_state_def plx_lbp_get_state_def plx_lbp_get_i7_status_def
        plx_lbp_set_i7_status_def plx_write_spad_def plx_read_spad_def k v
        add.commute [of "reg_base x"])
qed

theorem plx_lbp_state_roundtrip_witness:
  "fst (run_state (do { e \<leftarrow> plx_lbp_set_state (\<lambda>m. m) VCA_NET_DEV_UP; s' \<leftarrow> plx_lbp_get_state (\<lambda>m. m);
     State_Monad.return (e, s') }) lbp_example) = (lbp_code LBP_STATE_OK, VCA_NET_DEV_UP)"
  using plx_lbp_state_roundtrip [OF keeps_id, of lbp_example VCA_NET_DEV_UP]
  by (auto simp: lbp_example_def new_dev_def VCA_PRODUCTION_def VCA_MV_def)

section \<open>Waiting\<close>

text \<open>
  The looks of a wait: the device after \<open>n\<close> of them, and the word seen by the look that follows.
\<close>

primrec polled :: "'h hw \<Rightarrow> ('h, u32) op \<Rightarrow> nat \<Rightarrow> 'h plx_device \<Rightarrow> 'h plx_device" where
  "polled hw look 0 x = x"
| "polled hw look (Suc n) x = polled hw look n (snd (run_state (do { msleep hw; look }) x))"

definition seen :: "'h hw \<Rightarrow> ('h, u32) op \<Rightarrow> nat \<Rightarrow> 'h plx_device \<Rightarrow> u32" where
  "seen hw look n x = fst (run_state (do { msleep hw; look }) (polled hw look n x))"

lemma find_upt_Suc:
  "find P [0..<Suc n] = (if P 0 then Some 0 else map_option Suc (find (P \<circ> Suc) [0..<n]))"
proof -
  have "find P (map Suc xs) = map_option Suc (find (P \<circ> Suc) xs)" for xs by (induction xs) auto
  then show ?thesis by (simp add: upt_conv_Cons map_Suc_upt [symmetric] del: upt_Suc map_Suc_upt)
qed

lemma lbp_wait_event_find:
  "run_state (lbp_wait_event hw look event n) x =
     (case find (\<lambda>k. event (seen hw look k x)) [0..<n] of
        None \<Rightarrow> (None, polled hw look n x)
      | Some k \<Rightarrow> (Some (seen hw look k x), polled hw look (Suc k) x))"
proof (induction n arbitrary: x)
  case (Suc n)
  obtain v y where l: "run_state (do { msleep hw; look }) x = (v, y)" by fastforce
  then have s: "seen hw look 0 x = v" "seen hw look (Suc k) x = seen hw look k y"
    "polled hw look (Suc k) x = polled hw look k y" for k
    by (simp_all add: seen_def)
  have "run_state (lbp_wait_event hw look event (Suc n)) x =
      (if event v then (Some v, y) else run_state (lbp_wait_event hw look event n) y)"
    using l by (auto split: prod.splits)
  then show ?case
    unfolding find_upt_Suc
    by (auto simp: Suc.IH s o_def simp del: lbp_wait_event.simps polled.simps(2) split: option.split)
qed simp

text \<open>
  C33. Waiting for a state of the card is a search for the first of at most \<open>timeout\<close> looks
  that shows one of the states: it returns what that look saw, without looking again, and
  reports a timeout exactly when no look shows one.
\<close>

theorem plx_lbp_wait_for_i7_state_first:
  "run_state (plx_lbp_wait_for_i7_state hw state timeout) x =
     (let look = plx_lbp_get_i7_status hw;
          shows_state = (\<lambda>v. if state = 0 then i7_ready v = 0 else i7_ready v AND state \<noteq> 0)
      in case find (\<lambda>k. shows_state (seen hw look k x)) [0..<unat timeout] of
           None \<Rightarrow> (None, polled hw look (unat timeout) x)
         | Some k \<Rightarrow> (Some (i7_ready (seen hw look k x)), polled hw look (Suc k) x))"
  by (auto simp: plx_lbp_wait_for_i7_state_def lbp_wait_event_find Let_def simp del: polled.simps(2)
      split: option.split cong: if_cong)
section \<open>Parameters\<close>

fun set_params :: "(vca_lbp_param \<times> u32) list \<Rightarrow> ('h, unit) op" where
  "set_params [] = State_Monad.return ()"
| "set_params ((p, v) # ps) = do { plx_lbp_set_param p v; set_params ps }"

text \<open>The requests that are in range, and the value of the last one for a set of parameters.\<close>

definition in_range :: "vca_lbp_param \<times> u32 \<Rightarrow> bool" where
  "in_range q = (case param_max (fst q) of None \<Rightarrow> False | Some m \<Rightarrow> snd q \<le> m)"

definition last_set :: "vca_lbp_param set \<Rightarrow> (vca_lbp_param \<times> u32) list \<Rightarrow> u32 \<Rightarrow> u32" where
  "last_set P ps d = last (d # map snd (filter (\<lambda>q. fst q \<in> P \<and> in_range q) ps))"

lemma last_set_simps [simp]:
  "last_set P [] d = d"
  "last_set P (q # ps) d = last_set P ps (if fst q \<in> P \<and> in_range q then snd q else d)"
  by (simp_all add: last_set_def)

lemma last_set_le:
  assumes "d \<le> m" and "\<And>p. p \<in> P \<Longrightarrow> case param_max p of None \<Rightarrow> True | Some n \<Rightarrow> n \<le> m"
  shows "last_set P ps d \<le> m"
  using assms(1)
proof (induction ps arbitrary: d)
  case (Cons q ps)
  have "snd q \<le> m" if "fst q \<in> P" "in_range q"
    using that assms(2) [OF that(1)] by (auto simp: in_range_def split: option.splits)
  then show ?case using Cons by simp
qed simp

lemma set_params_run:
  "run_state (set_params ps) x = ((), x\<lparr>lbp := (lbp x)
     \<lparr>i7_irq_timeout_ms := last_set {VCA_LBP_PARAM_i7_IRQ_TIMEOUT_MS} ps (i7_irq_timeout_ms (lbp x)),
      i7_alloc_timeout_ms := last_set {VCA_LBP_PARAM_i7_ALLOC_TIMEOUT_MS} ps (i7_alloc_timeout_ms (lbp x)),
      i7_cmd_timeout_ms := last_set {VCA_LBP_PARAM_i7_CMD_TIMEOUT_MS} ps (i7_cmd_timeout_ms (lbp x)),
      i7_mac_write_timeout_ms :=
        last_set {VCA_LBP_PARAM_i7_CMD_TIMEOUT_MS, VCA_LBP_PARAM_i7_MAC_WRITE_TIMEOUT_MS} ps
          (i7_mac_write_timeout_ms (lbp x))\<rparr>\<rparr>)"
proof (induction ps arbitrary: x)
  case (Cons q ps)
  obtain p v where q: "q = (p, v)" by fastforce
  have "snd (run_state (plx_lbp_set_param p v) x) =
      x\<lparr>lbp := (if in_range q then param_assign p v (lbp x) else lbp x)\<rparr>"
    by (cases p) (auto simp: plx_lbp_set_param_def in_range_def q)
  then obtain e where "run_state (plx_lbp_set_param p v) x =
      (e, x\<lparr>lbp := (if in_range q then param_assign p v (lbp x) else lbp x)\<rparr>)" by (metis prod.collapse)
  then show ?case by (cases p) (simp_all add: q Cons.IH)
qed simp

text \<open>
  C20. After the start of the protocol and any requests to set parameters each timeout is the
  last accepted value, so no wait for an interrupt exceeds 300 seconds and none for a command
  one second. The timeout for writing MAC addresses is the exception: it is also overwritten
  by each accepted value for the command timeout.
\<close>

theorem plx_lbp_params_bounded:
  assumes "\<not> link_side x"
    and "run_state (do { r \<leftarrow> plx_lbp_init hw env; set_params ps; State_Monad.return r }) x = (Inr EOK, y)"
  shows "i7_irq_timeout_ms (lbp y) = last_set {VCA_LBP_PARAM_i7_IRQ_TIMEOUT_MS} ps 1000
    \<and> i7_alloc_timeout_ms (lbp y) = last_set {VCA_LBP_PARAM_i7_ALLOC_TIMEOUT_MS} ps 1000
    \<and> i7_cmd_timeout_ms (lbp y) = last_set {VCA_LBP_PARAM_i7_CMD_TIMEOUT_MS} ps 100
    \<and> i7_mac_write_timeout_ms (lbp y) =
        last_set {VCA_LBP_PARAM_i7_CMD_TIMEOUT_MS, VCA_LBP_PARAM_i7_MAC_WRITE_TIMEOUT_MS} ps 1000
    \<and> i7_irq_timeout_ms (lbp y) \<le> 300000 \<and> i7_alloc_timeout_ms (lbp y) \<le> 1000
    \<and> i7_cmd_timeout_ms (lbp y) \<le> 1000 \<and> i7_mac_write_timeout_ms (lbp y) \<le> 10000"
proof -
  obtain z where z: "run_state (plx_lbp_init hw env) x = (Inr EOK, z)" "y = snd (run_state (set_params ps) z)"
    using assms(2) by (auto split: prod.splits)
  have "i7_irq_timeout_ms (lbp z) = 1000" "i7_alloc_timeout_ms (lbp z) = 1000"
    "i7_cmd_timeout_ms (lbp z) = 100" "i7_mac_write_timeout_ms (lbp z) = 1000"
    using assms(1) z(1) by (auto simp: plx_lbp_init_def plx_write_spad_def split: if_splits)
  then show ?thesis
    by (auto simp: z(2) set_params_run intro!: last_set_le)
qed

definition cpu0_dev :: pci_dev where
  "cpu0_dev = init_example_dev\<lparr>pci_device_id := 0x2954\<rparr>"

theorem plx_lbp_params_bounded_witness:
  "i7_mac_write_timeout_ms (lbp (snd (run_state (do { r \<leftarrow> plx_lbp_init (\<lambda>m. m) env_example;
      set_params [(VCA_LBP_PARAM_i7_MAC_WRITE_TIMEOUT_MS, 5000), (VCA_LBP_PARAM_i7_CMD_TIMEOUT_MS, 10),
        (VCA_LBP_PARAM_i7_MAC_WRITE_TIMEOUT_MS, 10001)]; State_Monad.return r }) (lbp_example\<lparr>pdev := cpu0_dev\<rparr>)))) = 10"
proof -
  let ?ps = "[(VCA_LBP_PARAM_i7_MAC_WRITE_TIMEOUT_MS, 5000), (VCA_LBP_PARAM_i7_CMD_TIMEOUT_MS, 10),
    (VCA_LBP_PARAM_i7_MAC_WRITE_TIMEOUT_MS, 10001 :: u32)]"
  let ?r = "run_state (do { r \<leftarrow> plx_lbp_init (\<lambda>m. m) env_example; set_params ?ps;
    State_Monad.return r }) (lbp_example\<lparr>pdev := cpu0_dev\<rparr>)"
  have "fst ?r = Inr EOK"
    by (simp add: cpu0_dev_def plx_lbp_init_def set_params_run has_lbp_lock_def lbp_example_def new_dev_def
        init_example_dev_def plx_identify_cpu_id_def plx_write_spad_def env_example_def
        del: set_params.simps)
  then have "?r = (Inr EOK, snd ?r)" by (metis prod.collapse)
  moreover have "\<not> link_side (lbp_example\<lparr>pdev := cpu0_dev\<rparr>)" by (simp add: lbp_example_def new_dev_def)
  ultimately show ?thesis
    using plx_lbp_params_bounded [of "lbp_example\<lparr>pdev := cpu0_dev\<rparr>" "\<lambda>m. m" env_example ?ps "snd ?r"]
    by (simp add: in_range_def)
qed

section \<open>Time\<close>

text \<open>
  The time word holds the date and time in its fields, for every clock of the Gregorian
  calendar up to the year 8191, and the two daylight saving flags and the two bits above them
  as they were on the stack.
\<close>

theorem lbp_time_fields:
  assumes "tm_year t \<in> {- 1900 .. 6291}" and "tm_mon t \<in> {0..11}" and "tm_mday t \<in> {1..31}"
    and "tm_hour t \<in> {0..23}" and "tm_min t \<in> {0..59}" and "tm_sec t \<in> {0..60}" and "nsec \<in> {0..<1000000000}"
  shows "map (\<lambda>(pos, n). uint (bit_field pos n (lbp_time stack t nsec)))
      [(0, 13), (13, 5), (18, 6), (24, 6), (30, 7), (37, 7), (44, 16)] =
      [1900 + tm_year t, 1 + tm_mon t, tm_mday t, tm_hour t, tm_min t, tm_sec t, nsec div 1000000]
    \<and> bit_field 60 4 (lbp_time stack t nsec) = bit_field 60 4 stack"
proof -
  have fits: "uint ((word_of_int i :: u64) AND mask n) = i" if "0 \<le> i" "i < 2 ^ n" "n < 64" for i n
  proof -
    have "i < 2 ^ 64" using that power_increasing [of n 64 "2 :: int"] by linarith
    then show ?thesis
      using that by (simp add: unsigned_take_bit_eq take_bit_int_eq_self uint_word_of_int_eq
          flip: take_bit_eq_mask)
  qed
  have "nsec div 1000000 \<in> {0..999}" using assms(7) by auto
  then show ?thesis
    using assms fits [of "1900 + tm_year t" 13] fits [of "1 + tm_mon t" 5]
    by (simp add: lbp_time_def bit_fields fits)
qed

theorem lbp_time_fields_witness:
  "bit_field 60 4 (lbp_time (- 1) (clock env_example) (tv_nsec env_example)) = 15
    \<and> uint (bit_field 0 13 (lbp_time (- 1) (clock env_example) (tv_nsec env_example))) = 2026"
proof -
  have "bit_field 60 4 (- 1 :: u64) = 15" by code_simp
  then show ?thesis
    using lbp_time_fields [of "clock env_example" "tv_nsec env_example" "- 1"] by (simp add: env_example_def)
qed
section \<open>Results\<close>

text \<open>What an operation returns whatever the device, with rules as for invariants.\<close>

named_theorems op_post_rules

definition op_post :: "('a \<Rightarrow> bool) \<Rightarrow> ('h, 'a) op \<Rightarrow> bool" where
  "op_post P p = (\<forall>x. P (fst (run_state p x)))"

lemma op_post_weaken: "op_post P p \<Longrightarrow> (\<And>v. P v \<Longrightarrow> Q v) \<Longrightarrow> op_post Q p"
  by (simp add: op_post_def)

lemma op_post_return [op_post_rules]: "P v \<Longrightarrow> op_post P (State_Monad.return v)"
  by (simp add: op_post_def)

lemma op_post_then: "op_post R p \<Longrightarrow> (\<And>v. R v \<Longrightarrow> op_post P (f v)) \<Longrightarrow> op_post P (p \<bind> f)"
proof -
  assume p: "op_post R p" and f: "\<And>v. R v \<Longrightarrow> op_post P (f v)"
  have "P (fst (run_state (p \<bind> f) x))" for x
    using p f [of "fst (run_state p x)"] by (simp add: op_post_def case_prod_beta)
  then show "op_post P (p \<bind> f)" by (simp add: op_post_def)
qed

lemma op_post_bind [op_post_rules]: "(\<And>v. op_post P (f v)) \<Longrightarrow> op_post P (p \<bind> f)"
  by (rule op_post_then [where R = "\<lambda>_. True"]) (simp_all add: op_post_def)

lemma op_post_if [op_post_rules]:
  "(b \<Longrightarrow> op_post P p) \<Longrightarrow> (\<not> b \<Longrightarrow> op_post P q) \<Longrightarrow> op_post P (if b then p else q)"
  by simp

lemma op_post_let [op_post_rules]: "op_post P (f v) \<Longrightarrow> op_post P (let x = v in f x)"
  by simp

lemma op_post_option [op_post_rules]:
  "(v = None \<Longrightarrow> op_post P p) \<Longrightarrow> (\<And>y. v = Some y \<Longrightarrow> op_post P (f y)) \<Longrightarrow>
   op_post P (case v of None \<Rightarrow> p | Some y \<Rightarrow> f y)"
  by (cases v) simp_all

lemma op_post_sum [op_post_rules]:
  "(\<And>e. v = Inl e \<Longrightarrow> op_post P (f e)) \<Longrightarrow> (\<And>y. v = Inr y \<Longrightarrow> op_post P (g y)) \<Longrightarrow>
   op_post P (case v of Inl e \<Rightarrow> f e | Inr y \<Rightarrow> g y)"
  by (cases v) simp_all

lemma op_post_prod [op_post_rules]: "(\<And>a b. v = (a, b) \<Longrightarrow> op_post P (f a b)) \<Longrightarrow> op_post P (case v of (a, b) \<Rightarrow> f a b)"
  by (cases v) simp

text \<open>The values of \<open>enum vca_lbp_retval\<close> below its size, and the results of the operations.\<close>

definition is_retval :: "int \<Rightarrow> bool" where
  "is_retval e = (e \<in> lbp_code ` (UNIV - {LBP_SIZE}))"

lemma is_retval_iff: "is_retval e = (0 \<le> e \<and> e \<le> 10)"
proof
  show "is_retval e \<Longrightarrow> 0 \<le> e \<and> e \<le> 10"
    unfolding is_retval_def
  proof (elim imageE)
    fix r assume "e = lbp_code r" "r \<in> UNIV - {LBP_SIZE}"
    then show ?thesis by (cases r) auto
  qed
  assume "0 \<le> e \<and> e \<le> 10"
  then have "e = 0 \<or> e = 1 \<or> e = 2 \<or> e = 3 \<or> e = 4 \<or> e = 5 \<or> e = 6 \<or> e = 7 \<or> e = 8 \<or> e = 9 \<or> e = 10"
    by presburger
  then show "is_retval e"
    unfolding is_retval_def by (auto intro: image_eqI [of _ lbp_code LBP_STATE_OK]
        image_eqI [of _ lbp_code LBP_SPAD_i7_WRONG_STATE] image_eqI [of _ lbp_code LBP_IRQ_TIMEOUT]
        image_eqI [of _ lbp_code LBP_ALLOC_TIMEOUT] image_eqI [of _ lbp_code LBP_CMD_TIMEOUT]
        image_eqI [of _ lbp_code LBP_BAD_PARAMETER_VALUE] image_eqI [of _ lbp_code LBP_UNKNOWN_PARAMETER]
        image_eqI [of _ lbp_code LBP_INTERNAL_ERROR] image_eqI [of _ lbp_code LBP_PROTOCOL_VERSION_MISMATCH]
        image_eqI [of _ lbp_code LBP_WAIT_INTERRUPTED] image_eqI [of _ lbp_code LBP_BIOS_INFO_CACHE_EMPTY])
qed

text \<open>
  The codes on the way to a label \<open>exit\<close>, a negative code or the state of the card, and results
  of operations that may crash or run forever.
\<close>

definition is_err :: "int \<Rightarrow> bool" where
  "is_err e = (0 \<le> e \<or> is_retval (- e))"

definition result_is :: "(int \<Rightarrow> bool) \<Rightarrow> (crash + int) option \<Rightarrow> bool" where
  "result_is P r = (case r of Some (Inr e) \<Rightarrow> P e | _ \<Rightarrow> True)"

lemma result_is_simps [simp]:
  "result_is P None" "result_is P (Some (Inl e))" "result_is P (Some (Inr i)) = P i"
  by (simp_all add: result_is_def)

lemmas is_code = is_retval_iff is_err_def

lemma lbp_exit_post: "is_err err \<Longrightarrow> op_post is_retval (lbp_exit hw err)"
  unfolding lbp_exit_def by (auto intro!: op_post_rules simp: is_code)

lemma wait_states_post: "op_post is_err (wait_states hw st to)"
  unfolding wait_states_def by (auto intro!: op_post_rules simp: is_code split: option.split)

lemma ramdisk_loop_post:
  "is_err err \<Longrightarrow> op_post (result_is is_err) (ramdisk_loop hw env fuel img ph da off sz err)"
proof (induction fuel arbitrary: off sz err)
  case (Suc fuel)
  then show ?case by (auto intro!: op_post_rules simp: is_code Let_def)
qed (simp add: op_post_def)

lemma ramdisk_map_post:
  "op_post (\<lambda>r. case r of Inl e \<Rightarrow> is_err e | Inr _ \<Rightarrow> True) (ramdisk_map hw img)"
  unfolding ramdisk_map_def by (auto intro!: op_post_rules simp: is_code)

lemma plx_lbp_send_ramdisk_post: "op_post (result_is is_retval) (plx_lbp_send_ramdisk hw env fuel img)"
proof -
  have tr: "op_post (result_is is_err) (ramdisk_transfer hw env fuel img da sz)" for da sz
    unfolding ramdisk_transfer_def
    by (rule op_post_then [OF ramdisk_map_post])
      (auto intro!: op_post_rules ramdisk_loop_post simp: is_err_def split: sum.splits)
  have ex: "op_post (result_is is_retval) (do { ret \<leftarrow> lbp_exit hw err; State_Monad.return (Some (Inr ret)) })"
    if "is_err err" for err
    by (rule op_post_then [OF lbp_exit_post [OF that]]) (simp add: op_post_rules)
  show ?thesis
    unfolding plx_lbp_send_ramdisk_def
    apply (rule op_post_bind)
    apply (rule op_post_if)
     apply (rule op_post_return)
     apply (simp add: is_retval_iff)
    apply (rule op_post_bind)+
    apply (rule op_post_if)
     apply (rule op_post_return)
     apply (simp add: is_retval_iff)
    apply (rule op_post_option)
     apply (rule op_post_return)
     apply (simp add: is_retval_iff)
    apply (rule op_post_prod)
    apply (rule op_post_then [OF tr])
    apply (auto intro!: op_post_option op_post_sum op_post_return ex)
    done
qed
lemma after_send:
  assumes "\<And>e. op_post (result_is is_retval) (f e)"
  shows "op_post (result_is is_retval) (do {
      r \<leftarrow> plx_lbp_send_ramdisk hw env fuel img;
      case r of
        None \<Rightarrow> State_Monad.return None
      | Some (Inl e) \<Rightarrow> State_Monad.return (Some (Inl e))
      | Some (Inr err) \<Rightarrow> if err \<noteq> lbp_code LBP_STATE_OK then State_Monad.return (Some (Inr err)) else f err })"
  by (rule op_post_then [OF plx_lbp_send_ramdisk_post])
    (auto intro!: op_post_rules assms split: option.split sum.split)

lemma then_exit:
  assumes "op_post is_err p"
  shows "op_post (result_is is_retval)
    (do { err \<leftarrow> p; ret \<leftarrow> lbp_exit hw err; State_Monad.return (Some (Inr ret)) })"
  by (rule op_post_then [OF assms], rule op_post_then [OF lbp_exit_post], assumption) (simp add: op_post_rules)

lemma boot_flash_post:
  "op_post (result_is is_retval) (plx_lbp_boot_ramdisk hw env fuel img)"
  "op_post (result_is is_retval) (plx_lbp_flash hw env fuel cmd img)"
proof -
  show "op_post (result_is is_retval) (plx_lbp_boot_ramdisk hw env fuel img)"
    unfolding plx_lbp_boot_ramdisk_def
    by (rule after_send, rule op_post_bind, rule op_post_bind, rule then_exit [OF wait_states_post])
  have second: "op_post is_err (do { err \<leftarrow> wait_states hw st to;
      if P err then State_Monad.return err else wait_states hw st' to' })" for st to P st' to'
    by (rule op_post_then [OF wait_states_post]) (auto intro!: op_post_rules wait_states_post)
  show "op_post (result_is is_retval) (plx_lbp_flash hw env fuel cmd img)"
    unfolding plx_lbp_flash_def
    by (rule after_send, rule op_post_bind, rule op_post_bind,
        rule then_exit [OF second, unfolded State_Monad.bind_assoc])
qed

lemma bios_info_post:
  "op_post is_retval (plx_lbp_set_time_no_mutex hw env)"
  "op_post (\<lambda>r. is_retval (fst r) \<or> is_retval (- fst r)) (plx_lbp_copy_bios_info hw env param dest)"
  "op_post (\<lambda>r. is_retval (fst r)) (plx_lbp_copy_bios_info_from_cache param dest)"
  "is_retval (fst r) \<or> is_retval (- fst r) \<Longrightarrow> op_post (\<lambda>r. is_retval (fst r)) (bios_param_exit hw r)"
proof -
  show t: "op_post is_retval (plx_lbp_set_time_no_mutex hw env)"
    unfolding plx_lbp_set_time_no_mutex_def
    by (auto intro!: op_post_rules simp: is_code Let_def split: if_splits)
  show "op_post (\<lambda>r. is_retval (fst r) \<or> is_retval (- fst r)) (plx_lbp_copy_bios_info hw env param dest)"
    unfolding plx_lbp_copy_bios_info_def by (auto intro!: op_post_rules op_post_then [OF t] simp: is_code)
  show "op_post (\<lambda>r. is_retval (fst r)) (plx_lbp_copy_bios_info_from_cache param dest)"
    unfolding plx_lbp_copy_bios_info_from_cache_def by (auto intro!: op_post_rules simp: is_code)
  show "is_retval (fst r) \<or> is_retval (- fst r) \<Longrightarrow> op_post (\<lambda>r. is_retval (fst r)) (bios_param_exit hw r)"
    unfolding bios_param_exit_def by (auto intro!: op_post_rules simp: is_code split: prod.splits)
qed
lemma get_bios_param_post: "op_post (\<lambda>r. is_retval (fst r)) (plx_lbp_get_bios_param hw env param dest)"
proof -
  have "op_post (\<lambda>r. is_retval (fst r))
      (do { r \<leftarrow> plx_lbp_copy_bios_info hw env param dest; bios_param_exit hw r })"
    by (rule op_post_then [OF bios_info_post(2) bios_info_post(4)])
  moreover have "op_post (\<lambda>r. is_retval (fst r)) (bios_param_exit hw (lbp_code LBP_SPAD_i7_WRONG_STATE, dest))"
    "op_post (\<lambda>r. is_retval (fst r)) (bios_param_exit hw (- lbp_code LBP_UNKNOWN_PARAMETER, dest))"
    by (rule bios_info_post(4), simp add: is_retval_iff)+
  moreover have "op_post (\<lambda>r. is_retval (fst r))
      (State_Monad.return (lbp_code LBP_PROTOCOL_VERSION_MISMATCH, dest))"
    by (rule op_post_return) (simp add: is_retval_iff)
  ultimately show ?thesis
    unfolding plx_lbp_get_bios_param_def
    by (intro op_post_bind [where p = "plx_read_spad hw SPAD_i7_READY"]
        op_post_bind [where p = "plx_lbp_get_i7_status hw"] op_post_if bios_info_post(3))
qed

lemma handshake_steps_post: "op_post is_err (handshake_steps hw env i)"
proof -
  have ready: "is_err (case r of None \<Rightarrow> - lbp_code LBP_CMD_TIMEOUT | Some ready \<Rightarrow> int (unat ready))"
    for r :: "u32 option" by (cases r) (simp_all add: is_code)
  show ?thesis
    unfolding handshake_steps_def
    by (intro op_post_rules ready) (auto simp: is_code)
qed

lemma plx_lbp_handshake_post: "op_post is_retval (plx_lbp_handshake hw env)"
proof -
  have c: "op_post is_err (case c of None \<Rightarrow> State_Monad.return (- lbp_code LBP_INTERNAL_ERROR)
      | Some i \<Rightarrow> handshake_steps hw env i)" for c :: "u32 option"
    by (auto intro!: op_post_rules handshake_steps_post simp: is_code)
  show ?thesis
    unfolding plx_lbp_handshake_def
    by (rule op_post_bind, rule op_post_bind, rule op_post_then [OF c]) (auto intro!: op_post_rules simp: is_code)
qed

text \<open>
  C22. Every operation that returns an \<open>enum vca_lbp_retval\<close> returns one of its values, on any
  hardware, but for two: booting from a block device gives the negative of a value when the
  card is not ready, and flashing the firmware gives an error number of the kernel.
\<close>

theorem lbp_results_in_enum:
  "op_post is_retval (plx_lbp_handshake hw env)
   \<and> op_post (result_is is_retval) (plx_lbp_boot_ramdisk hw env fuel img)
   \<and> op_post (result_is is_retval) (plx_lbp_flash hw env fuel cmd img)
   \<and> op_post is_retval (plx_lbp_boot_from_usb hw)
   \<and> op_post is_retval (plx_lbp_set_param p v :: ('h, int) op)
   \<and> op_post is_retval (plx_lbp_set_state hw s)
   \<and> op_post is_retval (plx_lbp_set_time hw env)
   \<and> op_post (\<lambda>r. is_retval (fst r)) (plx_lbp_get_mac_addr hw)
   \<and> op_post is_retval (plx_lbp_set_bios_param hw param val)
   \<and> op_post (\<lambda>r. is_retval (fst r)) (plx_lbp_get_bios_param hw env param dest)
   \<and> op_post (\<lambda>e. is_retval e \<or> e = - lbp_code LBP_INTERNAL_ERROR) (plx_lbp_boot_blkdisk hw)
   \<and> op_post (\<lambda>e. \<not> is_retval e) (plx_lbp_flash_firmware :: ('h, int) op)"
proof -
  have "op_post is_retval (plx_lbp_boot_from_usb hw)"
    unfolding plx_lbp_boot_from_usb_def by (auto intro!: op_post_rules simp: is_code)
  moreover have "op_post is_retval (plx_lbp_set_param p v :: ('h, int) op)"
    unfolding plx_lbp_set_param_def by (auto intro!: op_post_rules simp: is_code)
  moreover have "op_post is_retval (plx_lbp_set_state hw s)"
    unfolding plx_lbp_set_state_def by (auto intro!: op_post_rules simp: is_code)
  moreover have "op_post is_retval (plx_lbp_set_time hw env)"
    unfolding plx_lbp_set_time_def
    by (rule op_post_then [OF bios_info_post(1)]) (auto intro!: op_post_rules simp: is_code)
  moreover have "op_post (\<lambda>r. is_retval (fst r)) (plx_lbp_get_mac_addr hw)"
    unfolding plx_lbp_get_mac_addr_def by (auto intro!: op_post_rules simp: is_code)
  moreover have "op_post is_retval (plx_lbp_set_bios_param hw param val)"
    unfolding plx_lbp_set_bios_param_def by (auto intro!: op_post_rules simp: is_code Let_def)
  moreover have "op_post (\<lambda>e. is_retval e \<or> e = - lbp_code LBP_INTERNAL_ERROR) (plx_lbp_boot_blkdisk hw)"
  proof -
    let ?P = "\<lambda>e. is_retval e \<or> e = - lbp_code LBP_INTERNAL_ERROR"
    have w: "op_post ?P (do { err \<leftarrow> wait_states hw st to;
        ret \<leftarrow> lbp_exit hw err; if P ret then State_Monad.return ret else q })"
      if "op_post is_retval q" for st to P q
      by (rule op_post_then [OF wait_states_post], rule op_post_then [OF lbp_exit_post], assumption)
        (auto intro!: op_post_rules op_post_weaken [OF that])
    show ?thesis
      unfolding plx_lbp_boot_blkdisk_def
      by (rule op_post_bind, rule op_post_bind, rule op_post_bind, rule op_post_if, rule op_post_return, simp,
          rule op_post_bind, rule op_post_bind, rule w) (auto intro!: op_post_rules simp: is_code)
  qed
  moreover have "op_post (\<lambda>e. \<not> is_retval e) (plx_lbp_flash_firmware :: ('h, int) op)"
    unfolding plx_lbp_flash_firmware_def by (auto intro!: op_post_rules simp: is_code ENOSYS_code_def)
  ultimately show ?thesis
    using plx_lbp_handshake_post boot_flash_post get_bios_param_post by blast
qed
section \<open>Handshake\<close>

text \<open>The word of the host in its scratchpad, which other steps of the protocol leave alone.\<close>

definition e5_is :: "u32 \<Rightarrow> u32 \<Rightarrow> 'h plx_device \<Rightarrow> bool" where
  "e5_is base w x = (reg_base x = base \<and> regs (mmio x) (base + 0xC78) = w)"

lemma e5_is_hw:
  assumes "keeps_regs {base + 0xC78} hw"
  shows "hw_inv hw (e5_is base w)"
  using keeps_regsD [OF assms] by (simp add: hw_inv_def e5_is_def)

lemma e5_is_ops:
  assumes "keeps_regs {base + 0xC78} hw"
  shows "op_inv (e5_is base w) (plx_read_spad hw idx)"
    and "idx \<in> {4, 5, 6, 7} \<Longrightarrow> op_inv (e5_is base w) (plx_write_spad hw idx v)"
    and "op_inv (e5_is base w) (plx_lbp_wait_for_i7_state hw st to)"
    and "op_inv (e5_is base w) (plx_lbp_wait_for_i7_cmd_consumed hw to)"
proof -
  note hw = e5_is_hw [OF assms]
  show rd: "op_inv (e5_is base w) (plx_read_spad hw idx)" for idx
    unfolding plx_read_spad_def by (intro op_inv_rules hw)
  show "op_inv (e5_is base w) (plx_write_spad hw idx v)" if "idx \<in> {4, 5, 6, 7}"
    using that keeps_regsD [OF assms] by (auto simp: op_inv_def plx_write_spad_def e5_is_def)
  have ev: "op_inv (e5_is base w) (lbp_wait_event hw (plx_read_spad hw idx) event n)" for idx event n
    by (induction n) (auto intro!: op_inv_rules hw rd)
  show "op_inv (e5_is base w) (plx_lbp_wait_for_i7_state hw st to)"
    unfolding plx_lbp_wait_for_i7_state_def plx_lbp_get_i7_status_def by (intro op_inv_rules ev)
  show "op_inv (e5_is base w) (plx_lbp_wait_for_i7_cmd_consumed hw to)"
    unfolding plx_lbp_wait_for_i7_cmd_consumed_def plx_lbp_get_i7_cmd_def by (intro op_inv_rules ev)
qed

lemma e5_is_bios_info:
  assumes "keeps_regs {base + 0xC78} hw"
  shows "op_inv (e5_is base w) (save_bios_info hw env)"
proof -
  note ops = e5_is_ops [OF assms]
  have "op_inv (e5_is base w) (plx_lbp_set_time_no_mutex hw env)"
    unfolding plx_lbp_set_time_no_mutex_def plx_lbp_get_i7_status_def by (intro op_inv_rules ops) simp_all
  then have "op_inv (e5_is base w) (plx_lbp_copy_bios_info hw env param dest)" for param dest
    unfolding plx_lbp_copy_bios_info_def by (intro op_inv_rules ops) simp_all
  then show ?thesis
    unfolding save_bios_info_def by (intro op_inv_rules op_inv_put) (simp_all add: e5_is_def)
qed

text \<open>What the handshake itself does not touch before it saves the parameters of the BIOS.\<close>

definition handshake_frame :: "'h plx_device \<Rightarrow> 'h plx_device \<Rightarrow> bool" where
  "handshake_frame x y =
     (reg_base y = reg_base x \<and> bios_information_date y = bios_information_date x
      \<and> bios_information_version y = bios_information_version x \<and> bios_cfg_sgx y = bios_cfg_sgx x
      \<and> bios_cfg_gpu_aperture y = bios_cfg_gpu_aperture x \<and> bios_cfg_tdp y = bios_cfg_tdp x)"

definition waits_only :: "'h env \<Rightarrow> bool" where
  "waits_only env = (\<forall>t y. \<exists>m c. snd (run_state (wait_for_completion env t) y) =
     y\<lparr>mmio := m, lbp := (lbp y)\<lparr>card_wait := c\<rparr>\<rparr>)"

lemma frame_ops:
  assumes "waits_only env"
  shows "op_inv (handshake_frame x) (plx_read_spad hw idx)"
    and "op_inv (handshake_frame x) (plx_write_spad hw idx v)"
    and "op_inv (handshake_frame x) (plx_lbp_wait_for_i7_state hw st to)"
    and "op_inv (handshake_frame x) (plx_lbp_wait_for_i7_up hw env to)"
proof -
  have hw: "hw_inv hw (handshake_frame x)" by (simp add: hw_inv_def handshake_frame_def)
  show rd: "op_inv (handshake_frame x) (plx_read_spad hw idx)" for idx
    unfolding plx_read_spad_def by (intro op_inv_rules hw)
  show "op_inv (handshake_frame x) (plx_write_spad hw idx v)"
    unfolding plx_write_spad_def
    by (intro op_inv_rules op_inv_mmio_write hw) (simp add: write_inv_def handshake_frame_def)
  have "op_inv (handshake_frame x) (lbp_wait_event hw (plx_read_spad hw idx) event n)" for idx event n
    by (induction n) (auto intro!: op_inv_rules hw rd)
  then show "op_inv (handshake_frame x) (plx_lbp_wait_for_i7_state hw st to)"
    unfolding plx_lbp_wait_for_i7_state_def plx_lbp_get_i7_status_def by (intro op_inv_rules)
  have "op_inv (handshake_frame x) (wait_for_completion env to)"
    unfolding op_inv_def
  proof (intro allI impI)
    fix y assume "handshake_frame x y"
    moreover obtain m c where "snd (run_state (wait_for_completion env to) y) =
        y\<lparr>mmio := m, lbp := (lbp y)\<lparr>card_wait := c\<rparr>\<rparr>" using assms unfolding waits_only_def by blast
    ultimately show "handshake_frame x (snd (run_state (wait_for_completion env to) y))"
      by (simp add: handshake_frame_def)
  qed
  then show "op_inv (handshake_frame x) (plx_lbp_wait_for_i7_up hw env to)"
    unfolding plx_lbp_wait_for_i7_up_def plx_lbp_get_i7_status_def by (intro op_inv_rules rd)
qed

lemma handshake_steps_frame:
  assumes "waits_only env"
  shows "op_inv (handshake_frame x) (handshake_steps hw env i)"
  unfolding handshake_steps_def
  by (intro op_inv_rules frame_ops [OF assms] op_inv_put) (simp_all add: handshake_frame_def)
text \<open>The handshake in two halves: up to the interrupt of the card, and from there on.\<close>

definition handshake_up :: "'h hw \<Rightarrow> 'h env \<Rightarrow> u32 \<Rightarrow> ('h, int) op" where
  "handshake_up hw env i = do {
     plx_write_spad hw SPAD_i7_CMD
       (set_bit_field 0 16 (cmd_code PLX_LBP_CMD_INVALID) (ucast (stack_bits env ''cmd_invalid'')));
     put_dev (\<lambda>x. x\<lparr>lbp := (lbp x)\<lparr>card_wait := False\<rparr>\<rparr>);
     plx_write_spad hw SPAD_E5_READY (e5_word (ucast (stack_bits env ''e5_waiting'')) 1 (Some i) None);
     to \<leftarrow> get_dev (i7_irq_timeout_ms \<circ> lbp);
     plx_lbp_wait_for_i7_up hw env to }"

definition handshake_announce :: "'h hw \<Rightarrow> u32 \<Rightarrow> u32 \<Rightarrow> ('h, unit) op" where
  "handshake_announce hw i w = do {
     plx_read_spad hw SPAD_i7_READY;
     sz \<leftarrow> plx_read_spad hw SPAD_DATA_LOW;
     put_dev (\<lambda>x. x\<lparr>lbp := (lbp x)\<lparr>i7_ddr_size_mb := sz\<rparr>\<rparr>);
     plx_write_spad hw SPAD_DATA_LOW i;
     plx_write_spad hw SPAD_DATA_HIGH 0;
     plx_write_spad hw SPAD_E5_READY w }"

definition handshake_ready :: "'h hw \<Rightarrow> u32 \<Rightarrow> u32 \<Rightarrow> ('h, int) op" where
  "handshake_ready hw i w = do {
     handshake_announce hw i w;
     to \<leftarrow> get_dev (i7_irq_timeout_ms \<circ> lbp);
     r \<leftarrow> plx_lbp_wait_for_i7_state hw PLX_LBP_i7_READY to;
     State_Monad.return (case r of None \<Rightarrow> - lbp_code LBP_CMD_TIMEOUT | Some ready \<Rightarrow> int (unat ready)) }"

definition e5_of :: "u32 \<Rightarrow> u32 \<Rightarrow> u32 option \<Rightarrow> 'h plx_device \<Rightarrow> u32" where
  "e5_of stack ready cpuid x =
     e5_word stack ready cpuid (Some (ucast (PCI_SLOT (pci_devfn (pdev x))), ucast (port_id x)))"

lemma handshake_halves:
  "handshake_steps hw env i = do {
     x \<leftarrow> get_dev (\<lambda>x. x);
     e \<leftarrow> handshake_up hw env i;
     if e \<noteq> 0 then State_Monad.return (if e < 0 then - lbp_code LBP_IRQ_TIMEOUT else e)
     else handshake_ready hw i (e5_of (ucast (stack_bits env ''e5_ready'')) 2 (Some i) x) }"
  unfolding handshake_steps_def handshake_up_def handshake_ready_def handshake_announce_def e5_of_def Let_def
    State_Monad.bind_assoc by (rule refl)

lemma handshake_up_run:
  assumes "waits_only env" and "run_state (handshake_up hw env i) x = (e, y)"
  shows "reg_base y = reg_base x" and "e \<le> 0"
proof -
  have "op_inv (handshake_frame x) (handshake_up hw env i)"
    unfolding handshake_up_def
    by (intro op_inv_rules frame_ops [OF assms(1)] op_inv_put) (simp_all add: handshake_frame_def)
  from op_invD [OF this assms(2)] show "reg_base y = reg_base x" by (simp add: handshake_frame_def)
  have "op_post (\<lambda>e. e \<le> 0) (handshake_up hw env i)"
    unfolding handshake_up_def plx_lbp_wait_for_i7_up_def
    by (auto intro!: op_post_rules simp: ETIME_code_def ENODEV_code_def)
  then show "e \<le> 0" using assms(2) by (metis fst_conv op_post_def)
qed

lemma handshake_ready_run:
  assumes keep: "keeps_regs {reg_base x + 0xC78} hw" and run: "run_state (handshake_ready hw i w) x = (e, y)"
  shows "e5_is (reg_base x) w y" and "e < 0 \<Longrightarrow> e = - lbp_code LBP_CMD_TIMEOUT"
proof -
  have k: "regs (hw m) (0xC78 + reg_base x) = regs m (0xC78 + reg_base x)" for m
    using keeps_regsD [OF keep] by (simp add: add.commute)
  obtain z where z: "run_state (handshake_announce hw i w) x = ((), z)"
    by (cases "run_state (handshake_announce hw i w) x") auto
  then have e5: "e5_is (reg_base x) w z"
    using k by (auto simp: handshake_announce_def plx_read_spad_def plx_write_spad_def e5_is_def
        add.commute [of "reg_base x"])
  obtain r where r: "run_state (plx_lbp_wait_for_i7_state hw PLX_LBP_i7_READY (i7_irq_timeout_ms (lbp z))) z = (r, y)"
    "e = (case r of None \<Rightarrow> - lbp_code LBP_CMD_TIMEOUT | Some ready \<Rightarrow> int (unat ready))"
    using run z by (auto simp: handshake_ready_def split: prod.splits)
  show "e5_is (reg_base x) w y" by (rule op_invD [OF e5_is_ops(3) [OF keep] r(1) e5])
  show "e < 0 \<Longrightarrow> e = - lbp_code LBP_CMD_TIMEOUT" using r(2) by (auto split: option.splits)
qed

lemma handshake_steps_run:
  assumes keep: "keeps_regs {reg_base x + 0xC78} hw" and "waits_only env"
    and run: "run_state (handshake_steps hw env i) x = (err, y)"
  shows "if err < 0 then err \<in> {- lbp_code LBP_IRQ_TIMEOUT, - lbp_code LBP_CMD_TIMEOUT}
    else e5_is (reg_base x) (e5_of (ucast (stack_bits env ''e5_ready'')) 2 (Some i) x) y"
proof -
  obtain e z where up: "run_state (handshake_up hw env i) x = (e, z)" by fastforce
  note z = handshake_up_run [OF assms(2) up]
  show ?thesis
    using run up z handshake_ready_run [of z hw i _ err y] keep
    by (auto simp: handshake_halves split: if_splits)
qed

lemma e5_of_fields:
  "bit_field 16 8 (e5_of s r c x) = ucast (PCI_SLOT (pci_devfn (pdev x))) AND mask 8"
  "bit_field 24 8 (e5_of s r c x) = ucast (port_id x) AND mask 8"
  "bit_field 0 8 (e5_of s r c x) = r AND mask 8"
  "bit_field 8 8 (e5_of s r (Some i) x) = i AND mask 8"
  by (simp_all add: e5_of_def e5_word_def Let_def bit_fields split: option.splits)

text \<open>
  C18. The handshake returns one of four results. When it is a success the scratchpad of the
  host says ready, with the index of the CPU, the PCI slot and the port; on every failure it
  says not ready, and no parameter of the BIOS from before the handshake is left in the cache.
\<close>

theorem plx_lbp_handshake_spec:
  assumes "keeps_regs {reg_base x + 0xC78} hw" and "waits_only env"
    and "run_state (plx_lbp_handshake hw env) x = (e, y)"
  defines "w \<equiv> regs (mmio y) (reg_base x + 0xC78)"
  shows "bit_field 16 8 w = ucast (PCI_SLOT (pci_devfn (pdev x))) AND mask 8 \<and> bit_field 24 8 w = ucast (port_id x) AND mask 8
    \<and> (if e = lbp_code LBP_STATE_OK
       then bit_field 0 8 w = 2 \<and> (\<exists>i. vca_csm_dev x = Some i \<and> bit_field 8 8 w = i AND mask 8)
       else e \<in> {lbp_code LBP_INTERNAL_ERROR, lbp_code LBP_IRQ_TIMEOUT, lbp_code LBP_CMD_TIMEOUT}
         \<and> bit_field 0 8 w = 0 \<and> bios_information_date y = 0 \<and> bios_information_version y = 0
         \<and> bios_cfg_sgx y = -1 \<and> bios_cfg_gpu_aperture y = -1 \<and> bios_cfg_tdp y = -1)"
proof -
  define x0 where "x0 = x\<lparr>bios_information_date := 0, bios_information_version := 0, bios_cfg_sgx := -1,
    bios_cfg_gpu_aperture := -1, bios_cfg_tdp := -1\<rparr>"
  have keep: "keeps_regs {reg_base x0 + 0xC78} hw" using assms(1) by (simp add: x0_def)
  have x0: "reg_base x0 = reg_base x" "pdev x0 = pdev x" "port_id x0 = port_id x" "vca_csm_dev x0 = vca_csm_dev x"
    by (simp_all add: x0_def)
  obtain err z where z: "run_state (case vca_csm_dev x of None \<Rightarrow> State_Monad.return (- lbp_code LBP_INTERNAL_ERROR)
      | Some i \<Rightarrow> handshake_steps hw env i) x0 = (err, z)" by fastforce
  have err: "if err < 0 then - err \<in> {lbp_code LBP_INTERNAL_ERROR, lbp_code LBP_IRQ_TIMEOUT, lbp_code LBP_CMD_TIMEOUT}
    else \<exists>i. vca_csm_dev x = Some i
      \<and> e5_is (reg_base x) (e5_of (ucast (stack_bits env ''e5_ready'')) 2 (Some i) x) z"
  proof (cases "vca_csm_dev x")
    case (Some i)
    then show ?thesis using z handshake_steps_run [OF keep assms(2), of i err z] by (auto simp: x0 e5_of_def)
  qed (use z in auto)
  have frame: "handshake_frame x0 z"
    using z op_invD [OF handshake_steps_frame [OF assms(2)], of hw _ x0 err z x0]
    by (auto simp: handshake_frame_def split: option.splits)
  have main: "(e, y) = (if 0 \<le> err then (lbp_code LBP_STATE_OK, snd (run_state (save_bios_info hw env) z))
      else (- err, z\<lparr>mmio := hw ((mmio z)\<lparr>regs := (regs (mmio z))
        (reg_base x + 0xC78 := e5_of (ucast (stack_bits env ''e5_not_ready'')) 0 None x)\<rparr>)\<rparr>))"
    using assms(3) z frame
    by (auto simp: plx_lbp_handshake_def plx_write_spad_def x0 x0_def [symmetric] e5_of_def handshake_frame_def
        add.commute [of "reg_base x"] split: prod.splits)
  show ?thesis
  proof (cases "err < 0")
    case True
    then have "w = e5_of (ucast (stack_bits env ''e5_not_ready'')) 0 None x"
      using main keeps_regsD [OF assms(1)] by (simp add: w_def)
    moreover have "handshake_frame x0 y" "e = - err" using main frame True by (auto simp: handshake_frame_def)
    ultimately show ?thesis
      using err True by (auto simp: e5_of_fields handshake_frame_def x0_def)
  next
    case False
    then obtain i where i: "vca_csm_dev x = Some i"
      "e5_is (reg_base x) (e5_of (ucast (stack_bits env ''e5_ready'')) 2 (Some i) x) z" using err by auto
    then have "w = e5_of (ucast (stack_bits env ''e5_ready'')) 2 (Some i) x"
      using main False e5_is_bios_info [OF assms(1), of _ env] by (auto simp: op_inv_def w_def e5_is_def)
    moreover have "(2 :: u32) AND mask 8 = 2" by (simp add: mask_eq_exp_minus_1)
    ultimately show ?thesis using main False i(1) by (simp add: e5_of_fields)
  qed
qed

text \<open>A card that becomes ready when the host says it is.\<close>

definition shake_example :: "(u64 \<Rightarrow> u8) hw" where
  "shake_example m = (if regs m 0x3EC78 AND 0xFF = 2 then m\<lparr>regs := (regs m)(0x3EC74 := 2)\<rparr> else m)"

definition shake_dev :: "(u64 \<Rightarrow> u8) plx_device" where
  "shake_dev = lbp_example\<lparr>vca_csm_dev := Some 3,
     mmio := \<lparr>regs = (\<lambda>_. 0)(0x3EC74 := 1), peer = (\<lambda>_. 0), jiffies = 0\<rparr>\<rparr>"

theorem plx_lbp_handshake_spec_witness:
  "\<exists>y. run_state (plx_lbp_handshake shake_example env_example) shake_dev = (lbp_code LBP_STATE_OK, y)
    \<and> bit_field 0 8 (regs (mmio y) 0x3EC78) = 2 \<and> bit_field 8 8 (regs (mmio y) 0x3EC78) = 3"
proof -
  let ?r = "run_state (plx_lbp_handshake shake_example env_example) shake_dev"
  let ?x0 = "shake_dev\<lparr>bios_information_date := 0, bios_information_version := 0, bios_cfg_sgx := -1,
    bios_cfg_gpu_aperture := -1, bios_cfg_tdp := -1\<rparr>"
  have "fst (run_state (handshake_steps shake_example env_example 3) ?x0) = 2"
    by (simp add: handshake_steps_def plx_lbp_wait_for_i7_up_def plx_lbp_wait_for_i7_state_def
        plx_lbp_get_i7_status_def plx_write_spad_def plx_read_spad_def shake_dev_def shake_example_def
        lbp_example_def new_dev_def env_example_def Let_def e5_word_def set_bit_field_def i7_ready_def
        bit_field_def mask_eq_exp_minus_1 i7_codes init_example_dev_def PCI_SLOT_def)
  then have "fst ?r = lbp_code LBP_STATE_OK"
    by (auto simp: plx_lbp_handshake_def shake_dev_def split: prod.splits)
  then have r: "?r = (lbp_code LBP_STATE_OK, snd ?r)" by (metis prod.collapse)
  have base: "reg_base shake_dev + 0xC78 = 0x3EC78" by (simp add: shake_dev_def lbp_example_def)
  have "keeps_regs {reg_base shake_dev + 0xC78} shake_example"
    unfolding base by (simp add: keeps_regs_def shake_example_def)
  moreover have "waits_only env_example"
    unfolding waits_only_def
  proof (intro allI)
    fix t and y :: "(u64 \<Rightarrow> u8) plx_device"
    have "snd (run_state (wait_for_completion env_example t) y) =
        y\<lparr>mmio := mmio y, lbp := (lbp y)\<lparr>card_wait := card_wait (lbp y)\<rparr>\<rparr>" by (simp add: env_example_def)
    then show "\<exists>m c. snd (run_state (wait_for_completion env_example t) y) =
        y\<lparr>mmio := m, lbp := (lbp y)\<lparr>card_wait := c\<rparr>\<rparr>" by blast
  qed
  ultimately have "bit_field 0 8 (regs (mmio (snd ?r)) 0x3EC78) = 2
      \<and> (\<exists>i. vca_csm_dev shake_dev = Some i \<and> bit_field 8 8 (regs (mmio (snd ?r)) 0x3EC78) = i AND mask 8)"
    using plx_lbp_handshake_spec [of shake_dev shake_example env_example] r unfolding base by simp
  moreover have "(3 :: u32) AND mask 8 = 3" by (simp add: mask_eq_exp_minus_1)
  ultimately show ?thesis using r by (auto simp: shake_dev_def)
qed

end
