(* ===== verification/Plx_Dma.thy ===== *)
theory Plx_Dma
  imports Vca_Prelude "HOL-Library.State_Monad"
begin

text \<open>
  The DMA engine of the bridge (\<open>plx87xx_dma/plx_dma.c\<close>, \<open>plx_dma.h\<close>): the ring of hardware
  descriptors, preparing, submitting and completing transfers, and the channel registers. The
  engine itself is a parameter: it may change registers, descriptors and its hidden state before
  each read and after each write of the driver. The callbacks that have run are recorded.
\<close>

unbundle bit_operations_syntax

section \<open>State\<close>

record plx_dma_desc =
  dw0 :: u32
  dw1 :: u32
  dw2 :: u32
  dw3 :: u32

record dma_async_tx =
  tx_cookie :: u32
  tx_flags :: u32
  tx_callback :: "u64 option"

text \<open>What the engine shares with the driver; no ring is the null pointer.\<close>

record 'h shared =
  dma_regs :: "u32 \<Rightarrow> u32"
  desc_ring :: "plx_dma_desc list"
  engine :: 'h

type_synonym 'h engine_step = "'h shared \<Rightarrow> 'h shared"

record 'h plx_dma_chan =
  shared :: "'h shared"
  last_tail :: u32
  head :: u32
  desc_ring_da :: u64
  ch_base_addr :: u64
  ctrl_reg :: u32
  tx_array :: "dma_async_tx list"
  prep_lock :: bool
  dma_hang :: bool
  dbg_flush :: bool
  dbg_dma_hold_cnt :: u32
  chan_cookie :: u32
  completed_cookie :: u32
  max_xfer_size :: u64
  callbacks :: "u64 list"

type_synonym ('h, 'a) dma_op = "('h plx_dma_chan, 'a) state"

definition get_chan :: "('h plx_dma_chan \<Rightarrow> 'a) \<Rightarrow> ('h, 'a) dma_op" where
  "get_chan f = State (\<lambda>c. (f c, c))"

definition put_chan :: "('h plx_dma_chan \<Rightarrow> 'h plx_dma_chan) \<Rightarrow> ('h, unit) dma_op" where
  "put_chan f = State (\<lambda>c. ((), f c))"

text \<open>One access to the shared state, before or after which the engine runs.\<close>

definition look :: "'h engine_step \<Rightarrow> ('h shared \<Rightarrow> 'a) \<Rightarrow> ('h, 'a) dma_op" where
  "look hw f = State (\<lambda>c. let s = hw (shared c) in (f s, c\<lparr>shared := s\<rparr>))"

definition touch :: "'h engine_step \<Rightarrow> ('h shared \<Rightarrow> 'h shared) \<Rightarrow> ('h, unit) dma_op" where
  "touch hw f = State (\<lambda>c. ((), c\<lparr>shared := hw (f (shared c))\<rparr>))"

section \<open>Registers\<close>

abbreviation (input) PLX_DMA_DESC_RX_SIZE :: u32 where "PLX_DMA_DESC_RX_SIZE \<equiv> 2048"
abbreviation (input) PLX_DESC_VALID :: u32 where "PLX_DESC_VALID \<equiv> 0x80000000"
abbreviation (input) PLX_DESC_INTR_ENABLE :: u32 where "PLX_DESC_INTR_ENABLE \<equiv> 0x40000000"
abbreviation (input) PLX_DESC_SIZE_MASK :: u64 where "PLX_DESC_SIZE_MASK \<equiv> 0x7FFFFFF"
abbreviation (input) PLX_DMA_CTRL_STATUS :: u32 where "PLX_DMA_CTRL_STATUS \<equiv> 0x38"
abbreviation (input) PLX_DMA_INTR_CTRL_STATUS :: u32 where "PLX_DMA_INTR_CTRL_STATUS \<equiv> 0x3C"
abbreviation (input) PLX_DMA_CTRL_IN_PROGRESS :: u32 where "PLX_DMA_CTRL_IN_PROGRESS \<equiv> 0x40000000"

definition plx_dma_reg_read :: "'h engine_step \<Rightarrow> u32 \<Rightarrow> ('h, u32) dma_op" where
  "plx_dma_reg_read hw offset = look hw (\<lambda>s. dma_regs s offset)"

definition plx_dma_reg_write :: "'h engine_step \<Rightarrow> u32 \<Rightarrow> u32 \<Rightarrow> ('h, unit) dma_op" where
  "plx_dma_reg_write hw offset val = touch hw (\<lambda>s. s\<lparr>dma_regs := (dma_regs s)(offset := val)\<rparr>)"

definition plx_dma_ch_reg_read :: "'h engine_step \<Rightarrow> u32 \<Rightarrow> ('h, u32) dma_op" where
  "plx_dma_ch_reg_read hw offset =
     do { base \<leftarrow> get_chan ch_base_addr; plx_dma_reg_read hw (ucast (ucast offset + base)) }"

definition plx_dma_ch_reg_write :: "'h engine_step \<Rightarrow> u32 \<Rightarrow> u32 \<Rightarrow> ('h, unit) dma_op" where
  "plx_dma_ch_reg_write hw offset val =
     do { base \<leftarrow> get_chan ch_base_addr; plx_dma_reg_write hw (ucast (ucast offset + base)) val }"

section \<open>Indices of the ring\<close>

definition plx_dma_ring_inc :: "u32 \<Rightarrow> u32" where
  "plx_dma_ring_inc val = (val + 1) AND (PLX_DMA_DESC_RX_SIZE - 1)"

definition plx_dma_ring_dec :: "u32 \<Rightarrow> u32" where
  "plx_dma_ring_dec val = (if val \<noteq> 0 then val - 1 else PLX_DMA_DESC_RX_SIZE - 1)"

definition desc_ring_da_to_index :: "u64 \<Rightarrow> u32" where
  "desc_ring_da_to_index addr = ucast ((addr div 16) AND 2047)"

text \<open>The count is computed in 32 bits without sign and stored in an \<open>int\<close>.\<close>

definition plx_dma_ring_count :: "u32 \<Rightarrow> u32 \<Rightarrow> int" where
  "plx_dma_ring_count h t =
     (let count = (if t \<le> h then (t - 0) + (PLX_DMA_DESC_RX_SIZE - h) else t - h)
      in sint count - 1)"

definition plx_dma_inc_head :: "('h, unit) dma_op" where
  "plx_dma_inc_head = put_chan (\<lambda>c. c\<lparr>head := plx_dma_ring_inc (head c)\<rparr>)"

definition plx_get_hw_last_desc :: "'h engine_step \<Rightarrow> ('h, u32) dma_op" where
  "plx_get_hw_last_desc hw =
     do {
       last_desc \<leftarrow> plx_dma_ch_reg_read hw 0x24;
       da \<leftarrow> get_chan desc_ring_da;
       State_Monad.return (desc_ring_da_to_index (ucast last_desc - (da AND 0xffffffff)))
     }"

definition plx_get_hw_next_desc :: "'h engine_step \<Rightarrow> ('h, u32) dma_op" where
  "plx_get_hw_next_desc hw =
     do {
       next_desc \<leftarrow> plx_dma_ch_reg_read hw 0x1C;
       da \<leftarrow> get_chan desc_ring_da;
       State_Monad.return (desc_ring_da_to_index (ucast next_desc - (da AND 0xffffffff)))
     }"
section \<open>Channel\<close>

definition plx_dma_chan_clear_desc_ring :: "'h engine_step \<Rightarrow> ('h, unit) dma_op" where
  "plx_dma_chan_clear_desc_ring hw =
     do {
       plx_dma_ch_reg_write hw 0x00 0;
       plx_dma_ch_reg_write hw 0x04 0;
       plx_dma_ch_reg_write hw 0x08 0;
       plx_dma_ch_reg_write hw 0x0C 0;
       plx_dma_ch_reg_write hw 0x10 0;
       plx_dma_ch_reg_write hw 0x14 0;
       plx_dma_ch_reg_write hw 0x18 0;
       plx_dma_ch_reg_write hw 0x20 0;
       plx_dma_ch_reg_write hw 0x1C 0
     }"

text \<open>
  Memory for the ring (its bus address) and for the array of transactions; both are cleared. The
  ring is set up before the array, and the array is not set when it cannot be allocated, but
  the pointer to the freed ring stays.
\<close>

definition plx_dma_alloc_desc_ring ::
  "u64 option \<Rightarrow> bool \<Rightarrow> ('h, errno) dma_op" where
  "plx_dma_alloc_desc_ring ring_mem tx_mem =
     (case ring_mem of
        None \<Rightarrow> do { put_chan (\<lambda>c. c\<lparr>shared := (shared c)\<lparr>desc_ring := []\<rparr>\<rparr>); State_Monad.return ENOMEM }
      | Some da \<Rightarrow>
          do {
            put_chan (\<lambda>c. c\<lparr>desc_ring_da := da,
              shared := (shared c)\<lparr>desc_ring := replicate 2048 \<lparr>dw0 = 0, dw1 = 0, dw2 = 0, dw3 = 0\<rparr>\<rparr>\<rparr>);
            if \<not> tx_mem then do { put_chan (\<lambda>c. c\<lparr>tx_array := []\<rparr>); State_Monad.return ENOMEM }
            else
              do {
                put_chan (\<lambda>c. c\<lparr>tx_array :=
                  replicate 2048 \<lparr>tx_cookie = 0, tx_flags = 0, tx_callback = None\<rparr>\<rparr>);
                State_Monad.return EOK
              }
          })"

text \<open>The wait for the graceful pause: five looks, a second apart.\<close>

fun pause_loop :: "'h engine_step \<Rightarrow> nat \<Rightarrow> ('h, unit) dma_op" where
  "pause_loop hw 0 = State_Monad.return ()"
| "pause_loop hw (Suc n) =
     do {
       reg \<leftarrow> plx_dma_ch_reg_read hw PLX_DMA_CTRL_STATUS;
       if reg AND 0x200 \<noteq> 0 then State_Monad.return () else pause_loop hw n
     }"

definition plx_dma_disable_chan :: "'h engine_step \<Rightarrow> ('h, unit) dma_op" where
  "plx_dma_disable_chan hw =
     do {
       reg \<leftarrow> plx_dma_ch_reg_read hw PLX_DMA_CTRL_STATUS;
       (if reg AND 0x8 = 0 then State_Monad.return ()
        else
          do {
            plx_dma_ch_reg_write hw PLX_DMA_CTRL_STATUS ((reg OR 0x1) AND NOT 0x8);
            pause_loop hw 5
          });
       plx_dma_chan_clear_desc_ring hw
     }"

definition plx_dma_enable_chan :: "'h engine_step \<Rightarrow> ('h, unit) dma_op" where
  "plx_dma_enable_chan hw =
     do {
       reg \<leftarrow> plx_dma_ch_reg_read hw PLX_DMA_CTRL_STATUS;
       (if reg AND PLX_DMA_CTRL_IN_PROGRESS \<noteq> 0 then put_chan (\<lambda>c. c\<lparr>dma_hang := True\<rparr>)
        else State_Monad.return ());
       let ctrl = (((reg AND 0x3FFFE000) OR 0x4) AND NOT 0x60) OR 0x40;
       put_chan (\<lambda>c. c\<lparr>ctrl_reg := ctrl\<rparr>);
       plx_dma_ch_reg_write hw PLX_DMA_CTRL_STATUS ((ctrl OR 0x200) AND NOT 0x1)
     }"

abbreviation (input) PLX_DMA_ALL_INTR_EN :: u32 where "PLX_DMA_ALL_INTR_EN \<equiv> 0x3B"

definition plx_dma_chan_mask_intr :: "'h engine_step \<Rightarrow> ('h, unit) dma_op" where
  "plx_dma_chan_mask_intr hw =
     do {
       intr_reg \<leftarrow> plx_dma_ch_reg_read hw PLX_DMA_INTR_CTRL_STATUS;
       plx_dma_ch_reg_write hw PLX_DMA_INTR_CTRL_STATUS (intr_reg AND NOT PLX_DMA_ALL_INTR_EN)
     }"

definition plx_dma_chan_unmask_intr :: "'h engine_step \<Rightarrow> ('h, unit) dma_op" where
  "plx_dma_chan_unmask_intr hw =
     do {
       intr_reg \<leftarrow> plx_dma_ch_reg_read hw PLX_DMA_INTR_CTRL_STATUS;
       plx_dma_ch_reg_write hw PLX_DMA_INTR_CTRL_STATUS
         (((intr_reg AND NOT PLX_DMA_ALL_INTR_EN) OR 0x1) OR 0x8)
     }"

definition plx_dma_chan_set_desc_ring :: "'h engine_step \<Rightarrow> ('h, unit) dma_op" where
  "plx_dma_chan_set_desc_ring hw =
     do {
       plx_dma_chan_clear_desc_ring hw;
       da \<leftarrow> get_chan desc_ring_da;
       plx_dma_ch_reg_write hw 0x14 (ucast (da AND 0xffffffff));
       plx_dma_ch_reg_write hw 0x18 (ucast (drop_bit 32 da AND 0xffffffff));
       plx_dma_ch_reg_write hw 0x20 PLX_DMA_DESC_RX_SIZE;
       plx_dma_ch_reg_write hw 0x1C (ucast (da AND 0xffffffff))
     }"

definition plx_dma_issue_pending :: "'h engine_step \<Rightarrow> ('h, unit) dma_op" where
  "plx_dma_issue_pending hw =
     do {
       ctrl \<leftarrow> get_chan ctrl_reg;
       plx_dma_ch_reg_write hw PLX_DMA_CTRL_STATUS ((ctrl OR (0x80000000 OR 0x1700)) OR 0x8)
     }"

definition plx_dma_chan_setup :: "'h engine_step \<Rightarrow> ('h, unit) dma_op" where
  "plx_dma_chan_setup hw =
     do {
       plx_dma_reg_write hw 0x90 0x10;
       plx_dma_chan_set_desc_ring hw;
       put_chan (\<lambda>c. c\<lparr>last_tail := 0, head := 0\<rparr>);
       plx_dma_chan_unmask_intr hw;
       plx_dma_enable_chan hw
     }"

definition plx_dma_free_desc_ring :: "('h, unit) dma_op" where
  "plx_dma_free_desc_ring = put_chan (\<lambda>c. c\<lparr>tx_array := [], shared := (shared c)\<lparr>desc_ring := []\<rparr>\<rparr>)"

definition plx_dma_chan_init :: "'h engine_step \<Rightarrow> u64 option \<Rightarrow> bool \<Rightarrow> ('h, errno) dma_op" where
  "plx_dma_chan_init hw ring_mem tx_mem =
     do {
       rc \<leftarrow> plx_dma_alloc_desc_ring ring_mem tx_mem;
       if rc = EOK then do { plx_dma_chan_setup hw; State_Monad.return rc } else State_Monad.return rc
     }"

definition plx_dma_alloc_chan_resources ::
  "'h engine_step \<Rightarrow> u64 option \<Rightarrow> bool \<Rightarrow> ('h, errno + nat) dma_op" where
  "plx_dma_alloc_chan_resources hw ring_mem tx_mem =
     do {
       rc \<leftarrow> plx_dma_chan_init hw ring_mem tx_mem;
       State_Monad.return (if rc \<noteq> EOK then Inl rc else Inr 2048)
     }"
section \<open>Completion\<close>

text \<open>A read of a descriptor; without a ring it reads through the null pointer.\<close>

definition read_desc :: "'h engine_step \<Rightarrow> u32 \<Rightarrow> ('h, plx_dma_desc option) dma_op" where
  "read_desc hw i =
     look hw (\<lambda>s. if unat i < length (desc_ring s) then Some (desc_ring s ! unat i) else None)"

definition is_valid :: "plx_dma_desc \<Rightarrow> bool" where
  "is_valid d = (dw0 d AND PLX_DESC_VALID \<noteq> 0)"

text \<open>Whether the descriptor is still with the engine, as \<open>plx_dma_cleanup\<close> finds out.\<close>

definition still_busy :: "'h engine_step \<Rightarrow> u32 \<Rightarrow> ('h, bool option) dma_op" where
  "still_busy hw i =
     do {
       d \<leftarrow> read_desc hw i;
       case d of
         None \<Rightarrow> State_Monad.return None
       | Some d \<Rightarrow>
           if \<not> is_valid d then State_Monad.return (Some False)
           else
             do {
               last_hw_tail \<leftarrow> plx_get_hw_last_desc hw;
               d \<leftarrow> read_desc hw i;
               case d of
                 None \<Rightarrow> State_Monad.return None
               | Some d \<Rightarrow>
                   if \<not> is_valid d then State_Monad.return (Some False)
                   else
                     do {
                       (if last_hw_tail = i then
                          do {
                            reg \<leftarrow> plx_dma_ch_reg_read hw PLX_DMA_CTRL_STATUS;
                            if reg AND PLX_DMA_CTRL_IN_PROGRESS = 0 then
                              do {
                                put_chan (\<lambda>c. c\<lparr>dbg_dma_hold_cnt := dbg_dma_hold_cnt c + 1\<rparr>);
                                plx_dma_issue_pending hw
                              }
                            else State_Monad.return ()
                          }
                        else State_Monad.return ());
                       State_Monad.return (Some True)
                     }
             }
     }"

text \<open>The end of the transaction of a slot: its cookie is the completed one, its callback runs.\<close>

definition finish_tx :: "nat \<Rightarrow> 'h plx_dma_chan \<Rightarrow> 'h plx_dma_chan" where
  "finish_tx i c =
     (let tx = tx_array c ! i
      in c\<lparr>completed_cookie := tx_cookie tx,
           tx_array := (tx_array c)[i := tx\<lparr>tx_cookie := 0, tx_callback := None\<rparr>],
           callbacks := callbacks c @ (case tx_callback tx of None \<Rightarrow> [] | Some p \<Rightarrow> [p])\<rparr>)"

definition complete_tx :: "u32 \<Rightarrow> ('h, crash + unit) dma_op" where
  "complete_tx i =
     do {
       txs \<leftarrow> get_chan tx_array;
       if \<not> unat i < length txs then State_Monad.return (Inl NULL_DEREF)
       else if tx_cookie (txs ! unat i) = 0 then State_Monad.return (Inr ())
       else if sint (tx_cookie (txs ! unat i)) < 1 then State_Monad.return (Inl BUG)
       else do { put_chan (finish_tx (unat i)); State_Monad.return (Inr ()) }
     }"

text \<open>
  The loop of \<open>plx_dma_cleanup\<close>: \<open>None\<close> when it has not ended after \<open>fuel\<close> rounds, otherwise a crash
  or the new tail.
\<close>

fun cleanup_loop :: "'h engine_step \<Rightarrow> nat \<Rightarrow> u32 \<Rightarrow> u32 \<Rightarrow> ('h, (crash + u32) option) dma_op" where
  "cleanup_loop hw 0 cached_head tail = State_Monad.return None"
| "cleanup_loop hw (Suc fuel) cached_head tail =
     (if tail = cached_head then State_Monad.return (Some (Inr tail))
      else
        do {
          busy \<leftarrow> still_busy hw tail;
          case busy of
            None \<Rightarrow> State_Monad.return (Some (Inl NULL_DEREF))
          | Some True \<Rightarrow> State_Monad.return (Some (Inr tail))
          | Some False \<Rightarrow>
              do {
                r \<leftarrow> complete_tx tail;
                case r of
                  Inl e \<Rightarrow> State_Monad.return (Some (Inl e))
                | Inr _ \<Rightarrow> cleanup_loop hw fuel cached_head (plx_dma_ring_inc tail)
              }
        })"

definition plx_dma_cleanup :: "'h engine_step \<Rightarrow> nat \<Rightarrow> ('h, (crash + unit) option) dma_op" where
  "plx_dma_cleanup hw fuel =
     do {
       cached_head \<leftarrow> get_chan head;
       tail \<leftarrow> get_chan last_tail;
       r \<leftarrow> cleanup_loop hw fuel cached_head tail;
       case r of
         None \<Rightarrow> State_Monad.return None
       | Some (Inl e) \<Rightarrow> State_Monad.return (Some (Inl e))
       | Some (Inr tail) \<Rightarrow>
           do { put_chan (\<lambda>c. c\<lparr>last_tail := tail\<rparr>); State_Monad.return (Some (Inr ())) }
     }"

definition plx_dma_free_chan_resources :: "'h engine_step \<Rightarrow> nat \<Rightarrow> ('h, (crash + unit) option) dma_op" where
  "plx_dma_free_chan_resources hw fuel =
     do {
       plx_dma_disable_chan hw;
       plx_dma_chan_mask_intr hw;
       r \<leftarrow> plx_dma_cleanup hw fuel;
       case r of
         Some (Inr _) \<Rightarrow> do { plx_dma_free_desc_ring; State_Monad.return r }
       | _ \<Rightarrow> State_Monad.return r
     }"

text \<open>
  The state of a cookie; what the kernel makes of the three cookies is a parameter. \<open>True\<close> is
  \<open>DMA_COMPLETE\<close>; the pair of cookies is what \<open>last\<close> and \<open>used\<close> get.
\<close>

type_synonym cookie_order = "u32 \<Rightarrow> u32 \<Rightarrow> u32 \<Rightarrow> bool"

definition plx_dma_cookie_status :: "cookie_order \<Rightarrow> u32 \<Rightarrow> ('h, bool \<times> u32 \<times> u32) dma_op" where
  "plx_dma_cookie_status dma_async_is_complete cookie =
     do {
       last_used \<leftarrow> get_chan chan_cookie;
       last_complete \<leftarrow> get_chan completed_cookie;
       State_Monad.return (dma_async_is_complete cookie last_complete last_used, last_complete, last_used)
     }"

definition plx_dma_is_tx_complete ::
  "'h engine_step \<Rightarrow> nat \<Rightarrow> cookie_order \<Rightarrow> u32 \<Rightarrow> ('h, (crash + bool \<times> u32 \<times> u32) option) dma_op" where
  "plx_dma_is_tx_complete hw fuel order cookie =
     do {
       (complete, _) \<leftarrow> plx_dma_cookie_status order cookie;
       r \<leftarrow> (if \<not> complete then plx_dma_cleanup hw fuel else State_Monad.return (Some (Inr ())));
       case r of
         None \<Rightarrow> State_Monad.return None
       | Some (Inl e) \<Rightarrow> State_Monad.return (Some (Inl e))
       | Some (Inr _) \<Rightarrow> do { s \<leftarrow> plx_dma_cookie_status order cookie; State_Monad.return (Some (Inr s)) }
     }"

text \<open>\<open>plx_dma_tx_status\<close>; the residue it reports is always 0.\<close>

definition plx_dma_tx_status ::
  "'h engine_step \<Rightarrow> nat \<Rightarrow> cookie_order \<Rightarrow> u32 \<Rightarrow> ('h, (crash + bool \<times> u32 \<times> u32) option) dma_op" where
  "plx_dma_tx_status hw fuel order cookie = plx_dma_is_tx_complete hw fuel order cookie"
section \<open>Preparing and submitting\<close>

definition plx_dma_avail_desc_ring_space ::
  "'h engine_step \<Rightarrow> nat \<Rightarrow> int \<Rightarrow> ('h, (crash + (errno + int)) option) dma_op" where
  "plx_dma_avail_desc_ring_space hw fuel required =
     do {
       h \<leftarrow> get_chan head; t \<leftarrow> get_chan last_tail;
       r \<leftarrow> (if plx_dma_ring_count h t < required
         then do { plx_dma_issue_pending hw; plx_dma_cleanup hw fuel }
         else State_Monad.return (Some (Inr ())));
       case r of
         None \<Rightarrow> State_Monad.return None
       | Some (Inl e) \<Rightarrow> State_Monad.return (Some (Inl e))
       | Some (Inr _) \<Rightarrow>
           do {
             h \<leftarrow> get_chan head; t \<leftarrow> get_chan last_tail;
             let count = plx_dma_ring_count h t;
             State_Monad.return (Some (Inr (if count < required then Inl ENOMEM else Inr count)))
           }
     }"

text \<open>
  The words of a descriptor. The bus addresses have 48 bits in a descriptor: the two upper halves
  share the second word.
\<close>

definition desc_dw1 :: "u64 \<Rightarrow> u64 \<Rightarrow> u32" where
  "desc_dw1 src_phys dst_phys =
     ucast ((drop_bit 16 src_phys AND 0xFFFFFFFFFFFF0000) OR drop_bit 32 dst_phys)"

definition desc_dw0 :: "u64 \<Rightarrow> u32 \<Rightarrow> bool \<Rightarrow> u32" where
  "desc_dw0 sz flags desc_valid =
     (ucast (sz AND PLX_DESC_SIZE_MASK) OR (if desc_valid then PLX_DESC_VALID else 0))
       OR (if flags \<noteq> 0 then PLX_DESC_INTR_ENABLE else 0)"

definition plx_dma_memcpy_desc ::
  "'h engine_step \<Rightarrow> u32 \<Rightarrow> u64 \<Rightarrow> u64 \<Rightarrow> u64 \<Rightarrow> u32 \<Rightarrow> bool \<Rightarrow> ('h, crash + unit) dma_op" where
  "plx_dma_memcpy_desc hw i src_phys dst_phys sz flags desc_valid =
     do {
       d \<leftarrow> read_desc hw i;
       case d of
         None \<Rightarrow> State_Monad.return (Inl NULL_DEREF)
       | Some _ \<Rightarrow>
           do {
             touch hw (\<lambda>s. s\<lparr>desc_ring := (desc_ring s)[unat i := (desc_ring s ! unat i)
               \<lparr>dw1 := desc_dw1 src_phys dst_phys, dw2 := ucast (dst_phys AND 0xffffffff),
                dw3 := ucast (src_phys AND 0xffffffff)\<rparr>]\<rparr>);
             touch hw (\<lambda>s. s\<lparr>desc_ring := (desc_ring s)[unat i := (desc_ring s ! unat i)
               \<lparr>dw0 := desc_dw0 sz flags desc_valid\<rparr>]\<rparr>);
             State_Monad.return (Inr ())
           }
     }"

definition plx_dma_valid_desc :: "'h engine_step \<Rightarrow> u32 \<Rightarrow> ('h, crash + unit) dma_op" where
  "plx_dma_valid_desc hw i =
     do {
       d \<leftarrow> read_desc hw i;
       case d of
         None \<Rightarrow> State_Monad.return (Inl NULL_DEREF)
       | Some d \<Rightarrow>
           do {
             touch hw (\<lambda>s. s\<lparr>desc_ring := (desc_ring s)[unat i := (desc_ring s ! unat i)
               \<lparr>dw0 := dw0 d OR PLX_DESC_VALID\<rparr>]\<rparr>);
             State_Monad.return (Inr ())
           }
     }"

text \<open>
  The loop of \<open>plx_dma_prog_memcpy_desc\<close> over the remaining number of descriptors, an \<open>int\<close> that
  is decremented until it is zero.
\<close>

fun prog_loop :: "'h engine_step \<Rightarrow> nat \<Rightarrow> u64 \<Rightarrow> u64 \<Rightarrow> u64 \<Rightarrow> u32 \<Rightarrow> ('h, crash + unit) dma_op" where
  "prog_loop hw 0 src dst len flags = State_Monad.return (Inr ())"
| "prog_loop hw (Suc num_desc) src dst len flags =
     do {
       mx \<leftarrow> get_chan max_xfer_size;
       let send_len = min len mx;
       let valid_descr = (num_desc \<noteq> 0 \<or> flags = 0);
       i \<leftarrow> get_chan head;
       r \<leftarrow> plx_dma_memcpy_desc hw i src dst send_len (if num_desc \<noteq> 0 then 0 else flags) valid_descr;
       case r of
         Inl e \<Rightarrow> State_Monad.return (Inl e)
       | Inr _ \<Rightarrow>
           do {
             (if valid_descr then plx_dma_inc_head else State_Monad.return ());
             prog_loop hw num_desc (src + send_len) (dst + send_len) (len - send_len) flags
           }
     }"

text \<open>The number of descriptors for a transfer, truncated to 32 bits.\<close>

definition num_desc_of :: "u64 \<Rightarrow> u64 \<Rightarrow> u32" where
  "num_desc_of len mx = (if len = 0 then 1 else ucast ((len + mx - 1) div mx))"

definition plx_dma_prog_memcpy_desc ::
  "'h engine_step \<Rightarrow> nat \<Rightarrow> u64 \<Rightarrow> u64 \<Rightarrow> u64 \<Rightarrow> u32 \<Rightarrow> ('h, (crash + errno) option) dma_op" where
  "plx_dma_prog_memcpy_desc hw fuel src dst len flags =
     do {
       mx \<leftarrow> get_chan max_xfer_size;
       let num_desc = num_desc_of len mx;
       r \<leftarrow> plx_dma_avail_desc_ring_space hw fuel (sint num_desc);
       case r of
         None \<Rightarrow> State_Monad.return None
       | Some (Inl e) \<Rightarrow> State_Monad.return (Some (Inl e))
       | Some (Inr (Inl e)) \<Rightarrow> State_Monad.return (Some (Inr e))
       | Some (Inr (Inr count)) \<Rightarrow>
           if count \<le> 0 then State_Monad.return (Some (Inr EOK))
           else
             do {
               r \<leftarrow> prog_loop hw (unat num_desc) src dst len flags;
               State_Monad.return (Some (case r of Inl e \<Rightarrow> Inl e | Inr _ \<Rightarrow> Inr EOK))
             }
     }"

text \<open>
  Taking the slot of the last descriptor; initialising a transaction leaves its cookie and
  callback as they are. The result is the slot.
\<close>

definition allocate_tx :: "u64 \<Rightarrow> ('h, u32) dma_op" where
  "allocate_tx flags =
     do {
       h \<leftarrow> get_chan head;
       let idx = (if flags \<noteq> 0 then h else plx_dma_ring_dec h);
       put_chan (\<lambda>c. c\<lparr>tx_array := (tx_array c)[unat idx := (tx_array c ! unat idx)\<lparr>tx_flags := ucast flags\<rparr>]\<rparr>);
       State_Monad.return idx
     }"

text \<open>
  \<open>plx_dma_prep_memcpy_lock\<close> returns with the lock held when it returns a transaction. It is
  called with the lock free, since it waits for the lock otherwise.
\<close>

definition plx_dma_prep_memcpy_lock ::
  "'h engine_step \<Rightarrow> nat \<Rightarrow> u64 \<Rightarrow> u64 \<Rightarrow> u64 \<Rightarrow> u64 \<Rightarrow> ('h, (crash + u32 option) option) dma_op" where
  "plx_dma_prep_memcpy_lock hw fuel dma_dest dma_src len flags =
     do {
       put_chan (\<lambda>c. c\<lparr>prep_lock := True\<rparr>);
       r \<leftarrow> plx_dma_prog_memcpy_desc hw fuel dma_src dma_dest len (ucast flags);
       case r of
         None \<Rightarrow> State_Monad.return None
       | Some (Inl e) \<Rightarrow> State_Monad.return (Some (Inl e))
       | Some (Inr e) \<Rightarrow>
           if e = EOK then do { i \<leftarrow> allocate_tx flags; State_Monad.return (Some (Inr (Some i))) }
           else do { put_chan (\<lambda>c. c\<lparr>prep_lock := False\<rparr>); State_Monad.return (Some (Inr None)) }
     }"

definition plx_dma_prep_interrupt_lock ::
  "'h engine_step \<Rightarrow> nat \<Rightarrow> u64 \<Rightarrow> ('h, (crash + u32 option) option) dma_op" where
  "plx_dma_prep_interrupt_lock hw fuel flags = plx_dma_prep_memcpy_lock hw fuel 0 0 0 flags"

text \<open>The caller sets the callback of the transaction before it submits it.\<close>

definition set_callback :: "u32 \<Rightarrow> u64 option \<Rightarrow> ('h, unit) dma_op" where
  "set_callback i cb =
     put_chan (\<lambda>c. c\<lparr>tx_array := (tx_array c)[unat i := (tx_array c ! unat i)\<lparr>tx_callback := cb\<rparr>]\<rparr>)"

definition next_cookie :: "u32 \<Rightarrow> u32" where
  "next_cookie cookie = (if sint (cookie + 1) < 1 then 1 else cookie + 1)"

definition plx_dma_tx_submit_unlock :: "'h engine_step \<Rightarrow> u32 \<Rightarrow> ('h, crash + u32) dma_op" where
  "plx_dma_tx_submit_unlock hw i =
     do {
       cookie \<leftarrow> get_chan (\<lambda>c. next_cookie (chan_cookie c));
       put_chan (\<lambda>c. c\<lparr>chan_cookie := cookie,
         tx_array := (tx_array c)[unat i := (tx_array c ! unat i)\<lparr>tx_cookie := cookie\<rparr>]\<rparr>);
       flags \<leftarrow> get_chan (\<lambda>c. tx_flags (tx_array c ! unat i));
       r \<leftarrow> (if flags \<noteq> 0 then
           do {
             h \<leftarrow> get_chan head;
             r \<leftarrow> plx_dma_valid_desc hw h;
             case r of
               Inl e \<Rightarrow> State_Monad.return (Inl e)
             | Inr _ \<Rightarrow>
                 do {
                   plx_dma_inc_head;
                   put_chan (\<lambda>c. c\<lparr>tx_array := (tx_array c)[unat i := (tx_array c ! unat i)\<lparr>tx_flags := 0\<rparr>]\<rparr>);
                   State_Monad.return (Inr ())
                 }
           }
         else State_Monad.return (Inr ()));
       case r of
         Inl e \<Rightarrow> State_Monad.return (Inl e)
       | Inr _ \<Rightarrow> do { put_chan (\<lambda>c. c\<lparr>prep_lock := False\<rparr>); State_Monad.return (Inr cookie) }
     }"

section \<open>Interrupts and probing\<close>

definition plx_dma_ack_interrupt :: "'h engine_step \<Rightarrow> ('h, u32) dma_op" where
  "plx_dma_ack_interrupt hw =
     do {
       intr_reg \<leftarrow> plx_dma_ch_reg_read hw PLX_DMA_INTR_CTRL_STATUS;
       plx_dma_ch_reg_write hw PLX_DMA_INTR_CTRL_STATUS intr_reg;
       State_Monad.return intr_reg
     }"

definition plx_dma_thread_fn :: "'h engine_step \<Rightarrow> nat \<Rightarrow> ('h, (crash + unit) option) dma_op" where
  "plx_dma_thread_fn hw fuel =
     do {
       hang \<leftarrow> get_chan dma_hang;
       if hang then State_Monad.return (Some (Inr ()))
       else
         do {
           r \<leftarrow> plx_dma_cleanup hw fuel;
           case r of
             Some (Inr _) \<Rightarrow>
               do {
                 reg \<leftarrow> plx_dma_ack_interrupt hw;
                 if reg AND 0x2B0000 \<noteq> 0 then
                   do { put_chan (\<lambda>c. c\<lparr>dma_hang := True\<rparr>); State_Monad.return (Some (Inr ())) }
                 else
                   do {
                     put_chan (\<lambda>c. c\<lparr>dbg_flush := False\<rparr>);
                     if reg AND 0x40000 \<noteq> 0 then plx_dma_cleanup hw fuel
                     else State_Monad.return (Some (Inr ()))
                   }
               }
           | _ \<Rightarrow> State_Monad.return r
         }
     }"

text \<open>
  What probing does to the channel: the transfer size, the base of the channel registers, and the
  cookies. Requesting the interrupt and registering with the kernel succeed or not.
\<close>

definition plx_dma_init :: "errno \<Rightarrow> ('h, errno) dma_op" where
  "plx_dma_init setup_irq =
     (if setup_irq \<noteq> EOK then State_Monad.return setup_irq
      else do { put_chan (\<lambda>c. c\<lparr>ch_base_addr := 0x200, prep_lock := False\<rparr>); State_Monad.return EOK })"

definition plx_register_dma_device :: "errno \<Rightarrow> ('h, errno) dma_op" where
  "plx_register_dma_device register =
     do { put_chan (\<lambda>c. c\<lparr>chan_cookie := 1, completed_cookie := 1\<rparr>); State_Monad.return register }"

definition plx_dma_probe :: "errno \<Rightarrow> errno \<Rightarrow> ('h, errno) dma_op" where
  "plx_dma_probe setup_irq register =
     do {
       put_chan (\<lambda>c. c\<lparr>max_xfer_size := PLX_DESC_SIZE_MASK\<rparr>);
       rc \<leftarrow> plx_dma_init setup_irq;
       if rc \<noteq> EOK then State_Monad.return rc else plx_register_dma_device register
     }"

end
