(* ===== verification/Dma_Ring.thy ===== *)
theory Dma_Ring
  imports Plx_Dma
begin

text \<open>
  The descriptor ring of the DMA engine: the invariant that ties head, tail, valid bits and
  cookies together, what an engine may do to the ring, and the effect of each driver operation
  on the outstanding transactions. The engine is assumed to only complete descriptors
  (\<open>engine_ok\<close>): it clears valid bits and leaves the rest of the ring alone.
\<close>

unbundle bit_operations_syntax

section \<open>Ring arithmetic\<close>

lemma sint_small:
  fixes n :: u32
  assumes "unat n < 2147483648"
  shows "sint n = int (unat n)"
proof -
  have u: "uint n = int (unat n)" by simp
  then have "uint n < 2147483648" using assms by linarith
  then have "signed_take_bit 31 (uint n) = uint n"
    by (intro signed_take_bit_int_eq_self) (rule order_trans [OF _ uint_ge_0], simp_all)
  then have "sint n = uint n" by (simp add: sint_uint)
  then show ?thesis using u by (rule trans)
qed

definition pending :: "u32 \<Rightarrow> u32 \<Rightarrow> nat" where
  "pending t h = (2048 + unat h - unat t) mod 2048"

definition slots :: "nat \<Rightarrow> nat \<Rightarrow> nat list" where
  "slots t n = map (\<lambda>k. (t + k) mod 2048) [0..<n]"

lemma slots_0 [simp]: "slots t 0 = []"
  by (simp add: slots_def)

lemma slots_Suc: "slots t (Suc n) = t mod 2048 # slots (t + 1) n"
  by (simp add: slots_def upt_conv_Cons map_Suc_upt [symmetric] o_def del: upt_Suc map_Suc_upt)

lemma slots_append: "slots t (m + n) = slots t m @ slots (t + m) n"
  by (induction m arbitrary: t) (simp_all add: slots_Suc)

lemma slots_mod [simp]: "slots (t mod 2048) n = slots t n"
  by (simp add: slots_def mod_simps)

lemma set_slots: "i \<in> set (slots t n) \<longleftrightarrow> (\<exists>k < n. i = (t + k) mod 2048)"
  by (auto simp: slots_def)

lemma slots_less: "i \<in> set (slots t n) \<Longrightarrow> i < 2048"
  by (auto simp: set_slots)

lemma mod_ring_inj:
  fixes t k j :: nat
  assumes "(t + k) mod 2048 = (t + j) mod 2048" and "k < 2048" and "j < 2048"
  shows "k = j"
proof -
  have "\<not> a < b" if e: "(t + a) mod 2048 = (t + b) mod 2048" and "b < 2048" for a b
  proof
    assume "a < b"
    then have "2048 dvd b - a" using e mod_eq_dvd_iff_nat [of "t + a" "t + b" 2048] by simp
    then show False using \<open>a < b\<close> \<open>b < 2048\<close> by (auto dest: dvd_imp_le)
  qed
  from this [OF assms(1,3)] this [OF assms(1) [symmetric] assms(2)] show ?thesis by simp
qed

lemma distinct_slots: "n \<le> 2048 \<Longrightarrow> distinct (slots t n)"
  by (auto simp: slots_def distinct_map inj_on_def dest!: mod_ring_inj)

lemma unat_ring_inc: "unat (plx_dma_ring_inc v) = (unat v + 1) mod 2048"
proof -
  have "plx_dma_ring_inc v = take_bit 11 (v + 1)"
    by (simp add: plx_dma_ring_inc_def take_bit_eq_mask mask_eq_exp_minus_1)
  then have "unat (plx_dma_ring_inc v) = take_bit 11 (unat (v + 1))" by (simp add: unsigned_take_bit_eq)
  also have "\<dots> = (unat v + 1) mod 2 ^ 32 mod 2048" by (simp add: take_bit_eq_mod unat_word_ariths)
  also have "\<dots> = (unat v + 1) mod 2048" by (rule mod_mod_cancel) simp
  finally show ?thesis .
qed

lemma unat_ring_dec: "unat v < 2048 \<Longrightarrow> unat (plx_dma_ring_dec v) = (unat v + 2047) mod 2048"
  by (cases "v = 0") (auto simp: plx_dma_ring_dec_def unat_dec unat_gt_0 mod_if)

lemma pending_less: "pending t h < 2048"
  by (simp add: pending_def)

lemma pending_0: "unat t < 2048 \<Longrightarrow> unat h < 2048 \<Longrightarrow> pending t h = 0 \<longleftrightarrow> t = h"
  by (auto simp: pending_def word_unat_eq_iff mod_if split: if_splits)

lemma pending_inc_tail:
  "unat t < 2048 \<Longrightarrow> unat h < 2048 \<Longrightarrow> t \<noteq> h \<Longrightarrow> pending (plx_dma_ring_inc t) h = pending t h - 1"
  by (auto simp: pending_def unat_ring_inc word_unat_eq_iff mod_if split: if_splits)

lemma pending_inc_head:
  "unat t < 2048 \<Longrightarrow> unat h < 2048 \<Longrightarrow> pending t h < 2047 \<Longrightarrow> pending t (plx_dma_ring_inc h) = pending t h + 1"
  by (auto simp: pending_def unat_ring_inc mod_if split: if_splits)

lemma head_slot: "unat t < 2048 \<Longrightarrow> unat h < 2048 \<Longrightarrow> (unat t + pending t h) mod 2048 = unat h"
  by (auto simp: pending_def mod_if split: if_splits)

lemma ring_count: "unat t < 2048 \<Longrightarrow> unat h < 2048 \<Longrightarrow> plx_dma_ring_count h t = 2047 - int (pending t h)"
proof -
  assume th: "unat t < 2048" "unat h < 2048"
  define n :: u32 where "n = (if t \<le> h then t + (2048 - h) else t - h)"
  have n: "unat n = 2048 - pending t h"
  proof (cases "t \<le> h")
    case True
    then have "unat t \<le> unat h" by (simp add: word_le_nat_alt)
    moreover have "unat (2048 - h) = 2048 - unat h" using th by (subst unat_sub) (simp_all add: word_le_nat_alt)
    moreover have "pending t h = unat h - unat t"
      using calculation(1) th mod_add_self1 [of 2048 "unat h - unat t"] by (simp add: pending_def)
    moreover have "unat (t + (2048 - h)) = unat t + unat (2048 - h)"
      using calculation th by (intro unat_plus_small) simp
    ultimately show ?thesis using True th by (simp add: n_def)
  next
    case False
    then have "unat h < unat t" by (simp add: word_le_nat_alt)
    moreover have "unat (t - h) = unat t - unat h" using False by (simp add: unat_sub)
    ultimately show ?thesis using False th by (simp add: n_def pending_def)
  qed
  then have "sint n = int (unat n)" by (intro sint_small) simp
  moreover have "plx_dma_ring_count h t = sint n - 1" by (simp add: plx_dma_ring_count_def n_def)
  ultimately show ?thesis using n pending_less [of t h] by linarith
qed
section \<open>What the engine may do\<close>

text \<open>
  The engine takes valid descriptors only, and gives them back with the valid bit cleared; it
  never touches the others.
\<close>

definition desc_le :: "plx_dma_desc \<Rightarrow> plx_dma_desc \<Rightarrow> bool" where
  "desc_le d d' = (d' = d \<or> (is_valid d \<and> \<not> is_valid d'))"

definition ring_le :: "plx_dma_desc list \<Rightarrow> plx_dma_desc list \<Rightarrow> bool" where
  "ring_le r r' = list_all2 desc_le r r'"

definition engine_ok :: "'h engine_step \<Rightarrow> bool" where
  "engine_ok hw = (\<forall>s. ring_le (desc_ring s) (desc_ring (hw s)))"

lemma ring_le_refl [simp]: "ring_le r r"
  by (simp add: ring_le_def desc_le_def list.rel_refl)

lemma ring_le_trans: "ring_le r r' \<Longrightarrow> ring_le r' r'' \<Longrightarrow> ring_le r r''"
  unfolding ring_le_def by (rule list_all2_trans [of desc_le desc_le desc_le]) (auto simp: desc_le_def)

lemma ring_le_length: "ring_le r r' \<Longrightarrow> length r' = length r"
  by (simp add: ring_le_def list_all2_lengthD [symmetric])

lemma ring_le_nth: "ring_le r r' \<Longrightarrow> i < length r \<Longrightarrow> desc_le (r ! i) (r' ! i)"
  by (simp add: ring_le_def list_all2_nthD)

lemma ring_le_invalid: "ring_le r r' \<Longrightarrow> i < length r \<Longrightarrow> \<not> is_valid (r ! i) \<Longrightarrow> r' ! i = r ! i"
  by (auto dest: ring_le_nth simp: desc_le_def)

section \<open>Steps that leave the channel to the engine\<close>

lemma run_get_chan [simp]: "run_state (get_chan f) c = (f c, c)"
  by (simp add: get_chan_def)

lemma run_put_chan [simp]: "run_state (put_chan f) c = ((), f c)"
  by (simp add: put_chan_def)

lemma run_look: "run_state (look hw f) c = (f (hw (shared c)), c\<lparr>shared := hw (shared c)\<rparr>)"
  by (simp add: look_def Let_def)

lemma run_touch: "run_state (touch hw f) c = ((), c\<lparr>shared := hw (f (shared c))\<rparr>)"
  by (simp add: touch_def)

definition chan_le :: "'h plx_dma_chan \<Rightarrow> 'h plx_dma_chan \<Rightarrow> bool" where
  "chan_le c c' =
     (ring_le (desc_ring (shared c)) (desc_ring (shared c')) \<and>
      c' = c\<lparr>shared := shared c', dbg_dma_hold_cnt := dbg_dma_hold_cnt c'\<rparr>)"

lemma chan_le_refl [simp]: "chan_le c c"
  by (simp add: chan_le_def)

lemma chan_le_fields:
  assumes "chan_le c c'"
  shows "last_tail c' = last_tail c" "head c' = head c" "tx_array c' = tx_array c" "callbacks c' = callbacks c"
    "completed_cookie c' = completed_cookie c" "chan_cookie c' = chan_cookie c" "prep_lock c' = prep_lock c"
    "max_xfer_size c' = max_xfer_size c" "ring_le (desc_ring (shared c)) (desc_ring (shared c'))"
proof -
  have "c' = c\<lparr>shared := shared c', dbg_dma_hold_cnt := dbg_dma_hold_cnt c'\<rparr>"
    using assms by (simp add: chan_le_def)
  note eq = arg_cong [OF this]
  show "last_tail c' = last_tail c" "head c' = head c" "tx_array c' = tx_array c" "callbacks c' = callbacks c"
    "completed_cookie c' = completed_cookie c" "chan_cookie c' = chan_cookie c" "prep_lock c' = prep_lock c"
    "max_xfer_size c' = max_xfer_size c"
    using eq [of last_tail] eq [of head] eq [of tx_array] eq [of callbacks] eq [of completed_cookie]
      eq [of chan_cookie] eq [of prep_lock] eq [of max_xfer_size] by simp_all
  show "ring_le (desc_ring (shared c)) (desc_ring (shared c'))" using assms by (simp add: chan_le_def)
qed

lemma chan_le_trans:
  assumes "chan_le c c'" and "chan_le c' c''"
  shows "chan_le c c''"
proof -
  have "c'' = c'\<lparr>shared := shared c'', dbg_dma_hold_cnt := dbg_dma_hold_cnt c''\<rparr>"
    "c' = c\<lparr>shared := shared c', dbg_dma_hold_cnt := dbg_dma_hold_cnt c'\<rparr>"
    using assms by (simp_all add: chan_le_def)
  then have "c'' = c\<lparr>shared := shared c', dbg_dma_hold_cnt := dbg_dma_hold_cnt c'\<rparr>
      \<lparr>shared := shared c'', dbg_dma_hold_cnt := dbg_dma_hold_cnt c''\<rparr>" by simp
  then have "c'' = c\<lparr>shared := shared c'', dbg_dma_hold_cnt := dbg_dma_hold_cnt c''\<rparr>" by simp
  then show ?thesis
    using assms ring_le_trans by (auto simp: chan_le_def)
qed

text \<open>Operations that do no more than the engine may do, with rules.\<close>

named_theorems quiet_rules

definition quiet :: "('h, 'a) dma_op \<Rightarrow> bool" where
  "quiet p = (\<forall>c. chan_le c (snd (run_state p c)))"

lemma quietD: "quiet p \<Longrightarrow> run_state p c = (r, c') \<Longrightarrow> chan_le c c'"
  by (metis quiet_def snd_conv)

lemma quiet_return [quiet_rules]: "quiet (State_Monad.return v)"
  by (simp add: quiet_def)

lemma quiet_get [quiet_rules]: "quiet (get_chan f)"
  by (simp add: quiet_def)

lemma quiet_bind [quiet_rules]: "quiet p \<Longrightarrow> (\<And>v. quiet (f v)) \<Longrightarrow> quiet (p \<bind> f)"
  by (auto simp: quiet_def case_prod_beta intro: chan_le_trans)

lemma quiet_if [quiet_rules]:
  "(b \<Longrightarrow> quiet p) \<Longrightarrow> (\<not> b \<Longrightarrow> quiet q) \<Longrightarrow> quiet (if b then p else q)"
  by simp

lemma quiet_option [quiet_rules]:
  "(v = None \<Longrightarrow> quiet p) \<Longrightarrow> (\<And>y. v = Some y \<Longrightarrow> quiet (f y)) \<Longrightarrow>
   quiet (case v of None \<Rightarrow> p | Some y \<Rightarrow> f y)"
  by (cases v) simp_all

lemma quiet_look [quiet_rules]: "engine_ok hw \<Longrightarrow> quiet (look hw f)"
  by (simp add: quiet_def run_look chan_le_def engine_ok_def)

lemma quiet_reg_write: "engine_ok hw \<Longrightarrow> quiet (plx_dma_reg_write hw off v)"
proof -
  assume "engine_ok hw"
  then have "ring_le (desc_ring (s\<lparr>dma_regs := r\<rparr>)) (desc_ring (hw (s\<lparr>dma_regs := r\<rparr>)))" for s r
    unfolding engine_ok_def by blast
  then show "quiet (plx_dma_reg_write hw off v)"
    by (simp add: plx_dma_reg_write_def quiet_def run_touch chan_le_def)
qed

lemma quiet_ops [quiet_rules]:
  assumes "engine_ok hw"
  shows "quiet (plx_dma_ch_reg_read hw off)" and "quiet (plx_dma_ch_reg_write hw off v)"
    and "quiet (plx_get_hw_last_desc hw)" and "quiet (plx_dma_issue_pending hw)" and "quiet (read_desc hw i)"
    and "quiet (plx_dma_reg_write hw off v)"
  unfolding plx_dma_ch_reg_read_def plx_dma_ch_reg_write_def plx_dma_reg_read_def plx_get_hw_last_desc_def
    plx_dma_issue_pending_def read_desc_def
  by (intro quiet_rules quiet_reg_write assms)+

lemma quiet_hold_cnt [quiet_rules]: "quiet (put_chan (\<lambda>c. c\<lparr>dbg_dma_hold_cnt := f c\<rparr>))"
  by (simp add: quiet_def chan_le_def)

lemma quiet_still_busy: "engine_ok hw \<Longrightarrow> quiet (still_busy hw i)"
  unfolding still_busy_def by (intro quiet_rules)

section \<open>Completion in order\<close>

text \<open>
  The invariant of the ring: both arrays have their size, the indices are in range, and a
  descriptor outside the stretch from the tail to the head is not valid.
\<close>

definition ring_inv :: "'h plx_dma_chan \<Rightarrow> bool" where
  "ring_inv c =
     (length (desc_ring (shared c)) = 2048 \<and> length (tx_array c) = 2048 \<and>
      unat (last_tail c) < 2048 \<and> unat (head c) < 2048 \<and>
      (\<forall>i < 2048. i \<notin> set (slots (unat (last_tail c)) (pending (last_tail c) (head c))) \<longrightarrow>
         \<not> is_valid (desc_ring (shared c) ! i)))"

text \<open>Cookies are zero or positive.\<close>

definition cookies_ok :: "'h plx_dma_chan \<Rightarrow> bool" where
  "cookies_ok c = (\<forall>tx \<in> set (tx_array c). tx_cookie tx \<noteq> 0 \<longrightarrow> 1 \<le> sint (tx_cookie tx))"

text \<open>The transactions of some slots that wait for completion, as pairs of cookie and callback.\<close>

definition outs :: "dma_async_tx list \<Rightarrow> nat list \<Rightarrow> (u32 \<times> u64 option) list" where
  "outs txs is = map (\<lambda>i. (tx_cookie (txs ! i), tx_callback (txs ! i))) (filter (\<lambda>i. tx_cookie (txs ! i) \<noteq> 0) is)"

definition outstanding :: "'h plx_dma_chan \<Rightarrow> (u32 \<times> u64 option) list" where
  "outstanding c = outs (tx_array c) (slots (unat (last_tail c)) (pending (last_tail c) (head c)))"

lemma outs_simps [simp]:
  "outs txs [] = []"
  "outs txs (i # is) = (if tx_cookie (txs ! i) \<noteq> 0 then [(tx_cookie (txs ! i), tx_callback (txs ! i))] else []) @ outs txs is"
  "outs txs (is @ js) = outs txs is @ outs txs js"
  by (simp_all add: outs_def)

lemma outs_update: "i \<notin> set is \<Longrightarrow> outs (txs[i := tx]) is = outs txs is"
  by (induction "is") auto

lemma still_busy_run:
  assumes "engine_ok hw" and "unat i < length (desc_ring (shared c))" and "run_state (still_busy hw i) c = (r, c')"
  shows "chan_le c c'" and "\<exists>b. r = Some b \<and> (\<not> b \<longrightarrow> \<not> is_valid (desc_ring (shared c') ! unat i))
      \<and> (b \<longrightarrow> is_valid (desc_ring (shared c) ! unat i))"
proof -
  show "chan_le c c'" by (rule quietD [OF quiet_still_busy [OF assms(1)] assms(3)])
  have rd: "\<exists>c'. run_state (read_desc hw i) c = (Some (desc_ring (shared c') ! unat i), c') \<and> chan_le c c'"
    if "unat i < length (desc_ring (shared c))" for c
  proof -
    have le: "ring_le (desc_ring (shared c)) (desc_ring (hw (shared c)))" using assms(1) by (simp add: engine_ok_def)
    then show ?thesis
      using that ring_le_length [OF le] by (auto simp: read_desc_def run_look chan_le_def)
  qed
  obtain c1 where c1: "run_state (read_desc hw i) c = (Some (desc_ring (shared c1) ! unat i), c1)" "chan_le c c1"
    using rd [OF assms(2)] by blast
  obtain l c2 where c2: "run_state (plx_get_hw_last_desc hw) c1 = (l, c2)" by fastforce
  have "chan_le c1 c2" by (rule quietD [OF quiet_ops(3) [OF assms(1)] c2])
  then have "unat i < length (desc_ring (shared c2))"
    using assms(2) chan_le_fields(9) [OF chan_le_trans [OF c1(2)], of c2] ring_le_length by fastforce
  then obtain c3 where c3: "run_state (read_desc hw i) c2 = (Some (desc_ring (shared c3) ! unat i), c3)"
    using rd by blast
  have "is_valid (desc_ring (shared c1) ! unat i) \<Longrightarrow> is_valid (desc_ring (shared c) ! unat i)"
    using ring_le_nth [OF chan_le_fields(9) [OF c1(2)] assms(2)] by (auto simp: desc_le_def)
  then show "\<exists>b. r = Some b \<and> (\<not> b \<longrightarrow> \<not> is_valid (desc_ring (shared c') ! unat i))
      \<and> (b \<longrightarrow> is_valid (desc_ring (shared c) ! unat i))"
    using assms(3) c1(1) c2 c3 by (auto simp: still_busy_def split: if_splits prod.splits)
qed
text \<open>The channel after the completion of \<open>n\<close> slots from \<open>t\<close> on, before the tail is stored.\<close>

definition cbs :: "(u32 \<times> u64 option) list \<Rightarrow> u64 list" where
  "cbs os = concat (map (\<lambda>x. case snd x of None \<Rightarrow> [] | Some p \<Rightarrow> [p]) os)"

definition completes :: "nat \<Rightarrow> nat \<Rightarrow> 'h plx_dma_chan \<Rightarrow> 'h plx_dma_chan \<Rightarrow> bool" where
  "completes t n c c' =
     (ring_le (desc_ring (shared c)) (desc_ring (shared c')) \<and> length (tx_array c') = length (tx_array c)
      \<and> callbacks c' = callbacks c @ cbs (outs (tx_array c) (slots t n))
      \<and> completed_cookie c' = last (completed_cookie c # map fst (outs (tx_array c) (slots t n)))
      \<and> (\<forall>i \<in> set (slots t n). tx_cookie (tx_array c' ! i) = 0 \<and> \<not> is_valid (desc_ring (shared c') ! i))
      \<and> (\<forall>i. i \<notin> set (slots t n) \<longrightarrow> tx_array c' ! i = tx_array c ! i)
      \<and> head c' = head c \<and> last_tail c' = last_tail c \<and> chan_cookie c' = chan_cookie c
      \<and> prep_lock c' = prep_lock c \<and> max_xfer_size c' = max_xfer_size c)"

lemma completes_0: "chan_le c c' \<Longrightarrow> completes t 0 c c'"
  by (simp add: completes_def chan_le_fields cbs_def)

definition finish_slot :: "nat \<Rightarrow> 'h plx_dma_chan \<Rightarrow> 'h plx_dma_chan" where
  "finish_slot i c = (if tx_cookie (tx_array c ! i) = 0 then c else finish_tx i c)"

lemma complete_tx_run:
  assumes "unat i < length (tx_array c)" and "cookies_ok c"
  shows "run_state (complete_tx i) c = (Inr (), finish_slot (unat i) c)"
proof -
  have "tx_cookie (tx_array c ! unat i) \<noteq> 0 \<Longrightarrow> 1 \<le> sint (tx_cookie (tx_array c ! unat i))"
    using assms by (simp add: cookies_ok_def)
  then show ?thesis
    using assms(1) by (cases "tx_cookie (tx_array c ! unat i) = 0") (simp_all add: complete_tx_def finish_slot_def)
qed

lemma finish_slot_ok: "cookies_ok c \<Longrightarrow> cookies_ok (finish_slot i c)"
  unfolding cookies_ok_def finish_slot_def finish_tx_def Let_def
  by (auto dest!: set_update_subset_insert [THEN subsetD])

lemma completes_Suc:
  assumes "chan_le c c1" and "t < 2048" and "n < 2048" and "length (desc_ring (shared c)) = 2048"
    and "length (tx_array c) = 2048" and inv: "\<not> is_valid (desc_ring (shared c1) ! t)"
    and rest: "completes (t + 1) n (finish_slot t c1) c'"
  shows "completes t (Suc n) c c'"
proof -
  note le = chan_le_fields [OF assms(1)]
  have t: "t \<notin> set (slots (t + 1) n)"
    using distinct_slots [of "Suc n" t] assms(2,3) by (simp add: slots_Suc)
  have os: "outs (tx_array (finish_slot t c1)) (slots (t + 1) n) = outs (tx_array c) (slots (t + 1) n)"
    using t by (auto simp: finish_slot_def finish_tx_def Let_def outs_update le)
  have ring: "ring_le (desc_ring (shared c1)) (desc_ring (shared c'))"
    using rest by (auto simp: completes_def finish_slot_def finish_tx_def Let_def split: if_splits)
  then have nv: "\<not> is_valid (desc_ring (shared c') ! t)"
    using inv ring_le_invalid [OF ring, of t] ring_le_length [OF le(9)] assms(2,4) by simp
  have cookie: "tx_cookie (tx_array c' ! t) = 0"
    using rest t assms(2,5) by (auto simp: completes_def finish_slot_def finish_tx_def Let_def le split: if_splits)
  show ?thesis
    unfolding completes_def slots_Suc
    using rest os nv cookie assms(2) ring_le_trans [OF le(9) ring]
    by (auto simp: completes_def finish_slot_def finish_tx_def Let_def le cbs_def
        split: if_splits option.splits)
qed

lemma cleanup_loop_run:
  assumes hw: "engine_ok hw" and "length (desc_ring (shared c)) = 2048" and "length (tx_array c) = 2048"
    and "unat t < 2048" and h: "unat h < 2048" and "pending t h < fuel" and "cookies_ok c"
    and "run_state (cleanup_loop hw fuel h t) c = (r, c')"
  shows "\<exists>n t'. n \<le> pending t h \<and> r = Some (Inr t') \<and> unat t' = (unat t + n) mod 2048
    \<and> pending t' h = pending t h - n \<and> completes (unat t) n c c' \<and> cookies_ok c'
    \<and> (n < pending t h \<longrightarrow> is_valid (desc_ring (shared c) ! ((unat t + n) mod 2048)))"
  using assms(2-4,6-8)
proof (induction fuel arbitrary: c t)
  case (Suc fuel)
  note [simp] = Suc.prems(1-3)
  show ?case
  proof (cases "t = h")
    case True
    then have "r = Some (Inr t) \<and> c' = c" using Suc.prems(6) by simp
    then show ?thesis
      using True Suc.prems(5) completes_0 [of c c] pending_0 [of t h] h by (intro exI [of _ "0 :: nat"] exI [of _ t]) simp
  next
    case False
    obtain b c1 where busy: "run_state (still_busy hw t) c = (b, c1)" by fastforce
    obtain b' where b: "b = Some b'" "\<not> b' \<Longrightarrow> \<not> is_valid (desc_ring (shared c1) ! unat t)"
      "b' \<Longrightarrow> is_valid (desc_ring (shared c) ! unat t)" and le: "chan_le c c1"
      using still_busy_run [OF hw _ busy] by auto
    note f = chan_le_fields [OF le]
    have ok1: "cookies_ok c1" using Suc.prems(5) by (simp add: cookies_ok_def f)
    show ?thesis
    proof (cases b')
      case True
      then have "r = Some (Inr t) \<and> c' = c1" using Suc.prems(6) False busy b(1) by simp
      then show ?thesis
        using ok1 completes_0 [OF le] b(3) [OF True] by (intro exI [of _ "0 :: nat"] exI [of _ t]) simp
    next
      case free: False
      let ?c2 = "finish_slot (unat t) c1" and ?t = "plx_dma_ring_inc t"
      have run: "run_state (cleanup_loop hw fuel h ?t) ?c2 = (r, c')"
        using Suc.prems(6) False busy b(1) free complete_tx_run [of t c1] ok1 by (simp add: f)
      have p: "pending t h \<noteq> 0" "pending ?t h = pending t h - 1"
        using False h pending_0 [of t h] pending_inc_tail [of t h] by auto
      then have lt: "pending ?t h < fuel" using Suc.prems(4) by linarith
      have l: "length (desc_ring (shared ?c2)) = 2048" "length (tx_array ?c2) = 2048" "unat ?t < 2048"
        using ring_le_length [OF f(9)] by (auto simp: finish_slot_def finish_tx_def Let_def f unat_ring_inc)
      obtain n t' where n: "n \<le> pending ?t h" "r = Some (Inr t')" "unat t' = (unat ?t + n) mod 2048"
        "pending t' h = pending ?t h - n" "completes (unat ?t) n ?c2 c'" "cookies_ok c'"
        "n < pending ?t h \<longrightarrow> is_valid (desc_ring (shared ?c2) ! ((unat ?t + n) mod 2048))"
        using Suc.IH [OF l lt finish_slot_ok [OF ok1] run] by blast
      have "completes (unat t + 1) n ?c2 c'"
        using n(5) by (simp add: completes_def unat_ring_inc)
      then have "completes (unat t) (Suc n) c c'"
        using completes_Suc [OF le] b(2) [OF free] n(1) pending_less [of ?t h] by simp
      moreover have "unat t' = (unat t + Suc n) mod 2048" using n(3) by (simp add: unat_ring_inc mod_simps)
      moreover have "is_valid (desc_ring (shared c) ! ((unat t + Suc n) mod 2048))" if "Suc n < pending t h"
      proof -
        have "is_valid (desc_ring (shared c1) ! ((unat t + Suc n) mod 2048))"
          using n(7) that p
          by (simp add: unat_ring_inc mod_simps finish_slot_def finish_tx_def Let_def split: if_splits)
        then show ?thesis using ring_le_nth [OF f(9), of "(unat t + Suc n) mod 2048"] by (auto simp: desc_le_def)
      qed
      ultimately show ?thesis
        using n(1,2,4,6) p by (intro exI [of _ "Suc n"] exI [of _ t']) auto
    qed
  qed
qed simp
lemma plx_dma_cleanup_run:
  assumes "engine_ok hw" and inv: "ring_inv c" and "cookies_ok c" and "2048 \<le> fuel"
  shows "\<exists>n t c1. run_state (plx_dma_cleanup hw fuel) c = (Some (Inr ()), c1\<lparr>last_tail := t\<rparr>)
    \<and> n \<le> pending (last_tail c) (head c) \<and> unat t = (unat (last_tail c) + n) mod 2048
    \<and> pending t (head c) = pending (last_tail c) (head c) - n \<and> completes (unat (last_tail c)) n c c1
    \<and> cookies_ok c1
    \<and> (n < pending (last_tail c) (head c) \<longrightarrow>
        is_valid (desc_ring (shared c) ! ((unat (last_tail c) + n) mod 2048)))"
proof -
  obtain r c1 where r: "run_state (cleanup_loop hw fuel (head c) (last_tail c)) c = (r, c1)" by fastforce
  have "pending (last_tail c) (head c) < fuel" using pending_less [of "last_tail c" "head c"] assms(4) by linarith
  then show ?thesis
    using cleanup_loop_run [OF assms(1) _ _ _ _ _ assms(3) r] inv r
    by (fastforce simp: ring_inv_def plx_dma_cleanup_def)
qed

lemma completes_inv:
  assumes inv: "ring_inv c" and c1: "completes (unat (last_tail c)) n c c1"
    and n: "n \<le> pending (last_tail c) (head c)" and t: "unat t = (unat (last_tail c) + n) mod 2048"
    and p: "pending t (head c) = pending (last_tail c) (head c) - n"
  shows "ring_inv (c1\<lparr>last_tail := t\<rparr>)"
    and "outstanding c = outs (tx_array c) (slots (unat (last_tail c)) n) @ outstanding (c1\<lparr>last_tail := t\<rparr>)"
proof -
  let ?t = "unat (last_tail c)" and ?p = "pending (last_tail c) (head c)"
  have s: "slots ?t ?p = slots ?t n @ slots (unat t) (?p - n)"
    using slots_append [of ?t n "?p - n"] n t by simp
  have ring: "ring_le (desc_ring (shared c)) (desc_ring (shared c1))" using c1 by (simp add: completes_def)
  have "\<not> is_valid (desc_ring (shared c1) ! i)" if "i < 2048" "i \<notin> set (slots (unat t) (?p - n))" for i
  proof (cases "i \<in> set (slots ?t n)")
    case False
    then have "i \<notin> set (slots ?t ?p)" using s that(2) by simp
    then have "\<not> is_valid (desc_ring (shared c) ! i)" using inv that(1) by (simp add: ring_inv_def)
    then show ?thesis using ring_le_invalid [OF ring, of i] inv that(1) by (simp add: ring_inv_def)
  qed (use c1 in \<open>simp add: completes_def\<close>)
  then show "ring_inv (c1\<lparr>last_tail := t\<rparr>)"
    using inv c1 p t ring_le_length [OF ring] by (simp add: ring_inv_def completes_def)
  have "set (slots ?t n) \<inter> set (slots (unat t) (?p - n)) = {}"
    using distinct_slots [of ?p ?t] pending_less [of "last_tail c" "head c"] unfolding s by simp
  then have "outs (tx_array c1) (slots (unat t) (?p - n)) = outs (tx_array c) (slots (unat t) (?p - n))"
    using c1 unfolding outs_def completes_def by (intro arg_cong2 [where f = map] filter_cong map_cong) auto
  then show "outstanding c = outs (tx_array c) (slots ?t n) @ outstanding (c1\<lparr>last_tail := t\<rparr>)"
    using c1 p by (simp add: outstanding_def s completes_def)
qed
section \<open>Writing descriptors\<close>

lemma is_valid_bit: "is_valid d = bit (dw0 d) 31"
  using and_exp_eq_0_iff_not_bit [of "dw0 d" 31] by (simp add: is_valid_def)

lemma desc_dw0_valid: "is_valid d \<longleftrightarrow> v" if "dw0 d = desc_dw0 sz flags v"
proof -
  have "\<not> bit (ucast (sz AND 0x7FFFFFF) :: u32) 31"
  proof -
    have "(0x7FFFFFF :: u64) = mask 27" by (simp add: mask_eq_exp_minus_1)
    then show ?thesis by (simp add: bit_simps)
  qed
  moreover have "bit (0x80000000 :: u32) 31" "\<not> bit (0x40000000 :: u32) 31"
    by code_simp+
  ultimately show ?thesis using that by (auto simp: is_valid_bit desc_dw0_def bit_or_iff)
qed

definition new_desc :: "u64 \<Rightarrow> u64 \<Rightarrow> u64 \<Rightarrow> u32 \<Rightarrow> bool \<Rightarrow> plx_dma_desc" where
  "new_desc src dst sz flags v =
     \<lparr>dw0 = desc_dw0 sz flags v, dw1 = desc_dw1 src dst, dw2 = ucast (dst AND 0xffffffff), dw3 = ucast (src AND 0xffffffff)\<rparr>"

lemma new_desc_valid [simp]: "is_valid (new_desc src dst sz flags v) = v"
  by (rule desc_dw0_valid) (simp add: new_desc_def)

lemma ring_le_update:
  assumes "ring_le r r'"
  shows "ring_le (r[i := d]) (r'[i := d])"
  using assms unfolding ring_le_def by (intro list_all2_update_cong) (simp_all add: desc_le_def)

lemma engine_step_ring: "engine_ok hw \<Longrightarrow> desc_ring s = r \<Longrightarrow> ring_le r (desc_ring (hw s))"
  by (auto simp: engine_ok_def)

text \<open>A write to a descriptor that is not valid, while the engine goes on with the others.\<close>

lemma plx_dma_memcpy_desc_run:
  assumes hw: "engine_ok hw" and i: "unat i < length (desc_ring (shared c))"
    and nv: "\<not> is_valid (desc_ring (shared c) ! unat i)"
  shows "\<exists>s. run_state (plx_dma_memcpy_desc hw i src dst sz flags v) c = (Inr (), c\<lparr>shared := s\<rparr>)
    \<and> ring_le ((desc_ring (shared c))[unat i := new_desc src dst sz flags v]) (desc_ring s)"
proof -
  let ?r = "desc_ring (shared c)" and ?s = "hw (shared c)"
  let ?mid = "(?r ! unat i)\<lparr>dw1 := desc_dw1 src dst, dw2 := ucast (dst AND 0xffffffff), dw3 := ucast (src AND 0xffffffff)\<rparr>"
  let ?t = "?s\<lparr>desc_ring := (desc_ring ?s)[unat i := (desc_ring ?s ! unat i)
      \<lparr>dw1 := desc_dw1 src dst, dw2 := ucast (dst AND 0xffffffff), dw3 := ucast (src AND 0xffffffff)\<rparr>]\<rparr>"
  have s: "ring_le ?r (desc_ring ?s)" using engine_step_ring [OF hw] by blast
  have si: "desc_ring ?s ! unat i = ?r ! unat i" "unat i < length (desc_ring ?s)"
    using ring_le_invalid [OF s i nv] ring_le_length [OF s] i by simp_all
  have t: "ring_le (?r[unat i := ?mid]) (desc_ring (hw ?t))"
    using ring_le_trans [OF ring_le_update [OF s] engine_step_ring [OF hw, of ?t]] si(1) by simp
  have "\<not> is_valid (?r[unat i := ?mid] ! unat i)" using nv i by (simp add: is_valid_def)
  then have ti: "desc_ring (hw ?t) ! unat i = ?mid" using ring_le_invalid [OF t] i by simp
  let ?u = "hw ?t\<lparr>desc_ring := (desc_ring (hw ?t))[unat i := (desc_ring (hw ?t) ! unat i)\<lparr>dw0 := desc_dw0 sz flags v\<rparr>]\<rparr>"
  have "new_desc src dst sz flags v = ?mid\<lparr>dw0 := desc_dw0 sz flags v\<rparr>" by (simp add: new_desc_def)
  then have "ring_le (?r[unat i := new_desc src dst sz flags v]) (desc_ring (hw ?u))"
    using ring_le_trans [OF ring_le_update [OF t, of "unat i" "new_desc src dst sz flags v"]
        engine_step_ring [OF hw, of ?u]] ti by simp
  moreover have "run_state (plx_dma_memcpy_desc hw i src dst sz flags v) c = (Inr (), c\<lparr>shared := hw ?u\<rparr>)"
    using si by (simp add: plx_dma_memcpy_desc_def read_desc_def run_look run_touch)
  ultimately show ?thesis by blast
qed

text \<open>The ring stays well formed when the head slot gets a descriptor, with or without the step of the head.\<close>

lemma ring_inv_head:
  assumes inv: "ring_inv c" and le: "ring_le ((desc_ring (shared c))[unat (head c) := d]) (desc_ring s)"
    and room: "pending (last_tail c) (head c) < 2047"
  shows "\<not> is_valid d \<Longrightarrow> ring_inv (c\<lparr>shared := s\<rparr>)"
    and "ring_inv (c\<lparr>shared := s, head := plx_dma_ring_inc (head c)\<rparr>)"
proof -
  let ?t = "last_tail c" and ?h = "head c"
  have l: "length (desc_ring s) = 2048" using ring_le_length [OF le] inv by (simp add: ring_inv_def)
  have th: "unat ?t < 2048" "unat ?h < 2048" using inv by (simp_all add: ring_inv_def)
  have old: "\<not> is_valid (desc_ring s ! i)"
    if "i < 2048" "i \<notin> set (slots (unat ?t) (pending ?t ?h))" "i \<noteq> unat ?h \<or> \<not> is_valid d" for i
  proof -
    have "\<not> is_valid (((desc_ring (shared c))[unat ?h := d]) ! i)"
      using that inv by (cases "i = unat ?h") (auto simp: ring_inv_def)
    then show ?thesis using ring_le_invalid [OF le, of i] that(1) inv by (simp add: ring_inv_def)
  qed
  then show "ring_inv (c\<lparr>shared := s\<rparr>)" if "\<not> is_valid d"
    using inv l that by (auto simp: ring_inv_def)
  have "slots (unat ?t) (pending ?t (plx_dma_ring_inc ?h)) = slots (unat ?t) (pending ?t ?h) @ [unat ?h]"
    using pending_inc_head [OF th room] slots_append [of "unat ?t" "pending ?t ?h" 1] head_slot [OF th]
    by (simp add: slots_Suc)
  then show "ring_inv (c\<lparr>shared := s, head := plx_dma_ring_inc ?h\<rparr>)"
    using inv l old by (auto simp: ring_inv_def unat_ring_inc)
qed
text \<open>The descriptors of a transfer, and the ring with them written from a slot on.\<close>

fun transfer_descs :: "u64 \<Rightarrow> nat \<Rightarrow> u64 \<Rightarrow> u64 \<Rightarrow> u64 \<Rightarrow> u32 \<Rightarrow> plx_dma_desc list" where
  "transfer_descs mx 0 src dst len flags = []"
| "transfer_descs mx (Suc n) src dst len flags =
     new_desc src dst (min len mx) (if n \<noteq> 0 then 0 else flags) (n \<noteq> 0 \<or> flags = 0)
       # transfer_descs mx n (src + min len mx) (dst + min len mx) (len - min len mx) flags"

fun write_descs :: "plx_dma_desc list \<Rightarrow> nat \<Rightarrow> plx_dma_desc list \<Rightarrow> plx_dma_desc list" where
  "write_descs r h [] = r"
| "write_descs r h (d # ds) = write_descs (r[h mod 2048 := d]) (h + 1) ds"

lemma write_descs_le: "ring_le r r' \<Longrightarrow> ring_le (write_descs r h ds) (write_descs r' h ds)"
  by (induction ds arbitrary: h r r') (simp_all add: ring_le_update)

lemma length_write_descs [simp]: "length (write_descs r h ds) = length r"
  by (induction ds arbitrary: h r) simp_all

lemma write_descs_mod: "write_descs r (h mod 2048) ds = write_descs r h ds"
proof (induction ds arbitrary: h r)
  case (Cons d ds)
  show ?case
    using Cons.IH [of _ "h mod 2048 + 1"] Cons.IH [of _ "h + 1"] by (simp add: mod_simps)
qed simp

lemma write_descs_other: "i \<notin> set (slots h (length ds)) \<Longrightarrow> write_descs r h ds ! i = r ! i"
  by (induction ds arbitrary: h r) (simp_all add: slots_Suc)

lemma write_descs_nth:
  assumes "length r = 2048" and "k < length ds" and "length ds \<le> 2048"
  shows "write_descs r h ds ! ((h + k) mod 2048) = ds ! k"
  using assms
proof (induction ds arbitrary: h r k)
  case (Cons d ds)
  show ?case
  proof (cases k)
    case 0
    have "h mod 2048 \<notin> set (slots (h + 1) (length ds))"
      using distinct_slots [of "Suc (length ds)" h] Cons.prems(3) by (simp add: slots_Suc)
    then show ?thesis using 0 Cons.prems(1) by (simp add: write_descs_other)
  next
    case (Suc j)
    then show ?thesis using Cons.IH [of "r[h mod 2048 := d]" j "h + 1"] Cons.prems by simp
  qed
qed simp

lemma length_transfer_descs [simp]: "length (transfer_descs mx n src dst len flags) = n"
  by (induction n arbitrary: src dst len) simp_all

definition ring_steps :: "nat \<Rightarrow> u32 \<Rightarrow> nat" where
  "ring_steps n flags = (if flags = 0 then n else n - 1)"

lemma prog_loop_run:
  assumes hw: "engine_ok hw"
  shows "ring_inv c \<Longrightarrow> pending (last_tail c) (head c) + n \<le> 2047 \<Longrightarrow>
    \<exists>s h. run_state (prog_loop hw n src dst len flags) c = (Inr (), c\<lparr>shared := s, head := h\<rparr>)
      \<and> ring_inv (c\<lparr>shared := s, head := h\<rparr>)
      \<and> ring_le (write_descs (desc_ring (shared c)) (unat (head c))
          (transfer_descs (max_xfer_size c) n src dst len flags)) (desc_ring s)
      \<and> unat h = (unat (head c) + ring_steps n flags) mod 2048
      \<and> pending (last_tail c) h = pending (last_tail c) (head c) + ring_steps n flags"
proof (induction n arbitrary: c src dst len)
  case 0
  then show ?case
    by (intro exI [of _ "shared c"] exI [of _ "head c"]) (simp add: ring_steps_def ring_inv_def)
next
  case (Suc n)
  let ?l = "min len (max_xfer_size c)" and ?v = "n \<noteq> 0 \<or> flags = 0"
  let ?d = "new_desc src dst ?l (if n \<noteq> 0 then 0 else flags) ?v"
  have th: "unat (last_tail c) < 2048" "unat (head c) < 2048" "length (desc_ring (shared c)) = 2048"
    and room: "pending (last_tail c) (head c) < 2047"
    using Suc.prems by (simp_all add: ring_inv_def)
  have "unat (head c) \<notin> set (slots (unat (last_tail c)) (pending (last_tail c) (head c)))"
    using distinct_slots [of "pending (last_tail c) (head c) + 1" "unat (last_tail c)"] room head_slot [OF th(1,2)]
    unfolding slots_append by (simp add: slots_Suc)
  then have nv: "\<not> is_valid (desc_ring (shared c) ! unat (head c))"
    using Suc.prems(1) th(2) by (simp add: ring_inv_def)
  have hl: "unat (head c) < length (desc_ring (shared c))" using th by simp
  obtain s1 where s1: "run_state (plx_dma_memcpy_desc hw (head c) src dst ?l (if n \<noteq> 0 then 0 else flags) ?v) c =
      (Inr (), c\<lparr>shared := s1\<rparr>)" "ring_le ((desc_ring (shared c))[unat (head c) := ?d]) (desc_ring s1)"
    using plx_dma_memcpy_desc_run [OF hw hl nv] by blast
  show ?case
  proof (cases ?v)
    case True
    let ?c1 = "c\<lparr>shared := s1, head := plx_dma_ring_inc (head c)\<rparr>"
    have p: "pending (last_tail c) (plx_dma_ring_inc (head c)) = pending (last_tail c) (head c) + 1"
      using pending_inc_head th room by simp
    have "ring_inv ?c1" by (rule ring_inv_head(2) [OF Suc.prems(1) s1(2) room])
    from Suc.IH [OF this, of "src + ?l" "dst + ?l" "len - ?l"] obtain s h where
      sh: "run_state (prog_loop hw n (src + ?l) (dst + ?l) (len - ?l) flags) ?c1 = (Inr (), ?c1\<lparr>shared := s, head := h\<rparr>)"
      "ring_inv (?c1\<lparr>shared := s, head := h\<rparr>)"
      "ring_le (write_descs (desc_ring s1) (unat (plx_dma_ring_inc (head c)))
         (transfer_descs (max_xfer_size c) n (src + ?l) (dst + ?l) (len - ?l) flags)) (desc_ring s)"
      "unat h = (unat (plx_dma_ring_inc (head c)) + ring_steps n flags) mod 2048"
      "pending (last_tail c) h = pending (last_tail c) (plx_dma_ring_inc (head c)) + ring_steps n flags"
      using p Suc.prems(2) by auto
    have steps: "ring_steps (Suc n) flags = ring_steps n flags + 1" using True by (auto simp: ring_steps_def)
    have "run_state (prog_loop hw (Suc n) src dst len flags) c = (Inr (), c\<lparr>shared := s, head := h\<rparr>)"
      using s1(1) sh(1) True by (simp add: plx_dma_inc_head_def Let_def)
    moreover have "ring_le (write_descs (desc_ring (shared c)) (unat (head c))
        (transfer_descs (max_xfer_size c) (Suc n) src dst len flags)) (desc_ring s)"
      using ring_le_trans [OF write_descs_le [OF s1(2)] sh(3)] th(2)
      by (simp add: unat_ring_inc write_descs_mod)
    ultimately show ?thesis
      using sh(2,4,5) p by (intro exI [of _ s] exI [of _ h]) (simp add: steps unat_ring_inc mod_simps)
  next
    case False
    then have "run_state (prog_loop hw (Suc n) src dst len flags) c = (Inr (), c\<lparr>shared := s1, head := head c\<rparr>)"
      using s1(1) by (simp add: Let_def)
    moreover have "ring_inv (c\<lparr>shared := s1, head := head c\<rparr>)"
      using ring_inv_head(1) [OF Suc.prems(1) s1(2) room] False by simp
    ultimately show ?thesis
      using False s1(2) th(2) by (intro exI [of _ s1] exI [of _ "head c"]) (simp add: ring_steps_def)
  qed
qed
section \<open>The invariant of a channel\<close>

text \<open>
  Besides the ring: slots outside the ring's stretch carry no cookie, and the transfer size is that
  of probing.
\<close>

abbreviation (input) busy_slots :: "'h plx_dma_chan \<Rightarrow> nat list" where
  "busy_slots c \<equiv> slots (unat (last_tail c)) (pending (last_tail c) (head c))"

definition dma_inv :: "'h plx_dma_chan \<Rightarrow> bool" where
  "dma_inv c =
     (ring_inv c \<and> cookies_ok c \<and> max_xfer_size c = PLX_DESC_SIZE_MASK
      \<and> (\<forall>i < 2048. i \<notin> set (busy_slots c) \<longrightarrow> tx_cookie (tx_array c ! i) = 0))"

text \<open>
  Progress of the completion side: some outstanding transactions, from the front, are done, their
  callbacks have run in order, and nothing else has changed.
\<close>

definition progress :: "'h plx_dma_chan \<Rightarrow> 'h plx_dma_chan \<Rightarrow> bool" where
  "progress c c' =
     (head c' = head c \<and> prep_lock c' = prep_lock c \<and> chan_cookie c' = chan_cookie c
      \<and> pending (last_tail c') (head c) \<le> pending (last_tail c) (head c)
      \<and> (\<forall>i. i \<notin> set (busy_slots c) \<longrightarrow> tx_array c' ! i = tx_array c ! i)
      \<and> set (busy_slots c') \<subseteq> set (busy_slots c)
      \<and> (\<exists>os. outstanding c = os @ outstanding c' \<and> callbacks c' = callbacks c @ cbs os
           \<and> completed_cookie c' = last (completed_cookie c # map fst os)))"

lemma progress_refl: "progress c c"
  by (auto simp: progress_def cbs_def)

lemma progress_trans:
  assumes "progress c c'" and "progress c' c''"
  shows "progress c c''"
proof -
  obtain os os' where "outstanding c = os @ outstanding c'" "callbacks c' = callbacks c @ cbs os"
    "completed_cookie c' = last (completed_cookie c # map fst os)"
    "outstanding c' = os' @ outstanding c''" "callbacks c'' = callbacks c' @ cbs os'"
    "completed_cookie c'' = last (completed_cookie c' # map fst os')"
    using assms by (auto simp: progress_def)
  then have "outstanding c = (os @ os') @ outstanding c''" "callbacks c'' = callbacks c @ cbs (os @ os')"
    "completed_cookie c'' = last (completed_cookie c # map fst (os @ os'))"
    by (auto simp: cbs_def)
  moreover have sub: "set (busy_slots c'') \<subseteq> set (busy_slots c')" "set (busy_slots c') \<subseteq> set (busy_slots c)"
    and tx: "i \<notin> set (busy_slots c') \<Longrightarrow> tx_array c'' ! i = tx_array c' ! i"
      "i \<notin> set (busy_slots c) \<Longrightarrow> tx_array c' ! i = tx_array c ! i" for i
    using assms unfolding progress_def by blast+
  moreover have "\<forall>i. i \<notin> set (busy_slots c) \<longrightarrow> tx_array c'' ! i = tx_array c ! i"
  proof (intro allI impI)
    fix i assume i: "i \<notin> set (busy_slots c)"
    then have "i \<notin> set (busy_slots c')" using sub(2) by blast
    then show "tx_array c'' ! i = tx_array c ! i" using tx(1) tx(2) [OF i] by simp
  qed
  moreover have "set (busy_slots c'') \<subseteq> set (busy_slots c)" using sub by (rule subset_trans)
  moreover have "head c'' = head c" "prep_lock c'' = prep_lock c" "chan_cookie c'' = chan_cookie c"
    "pending (last_tail c'') (head c) \<le> pending (last_tail c) (head c)"
    using assms unfolding progress_def by auto
  ultimately show ?thesis unfolding progress_def by blast
qed

lemma chan_le_progress:
  assumes "chan_le c c'" and "dma_inv c"
  shows "dma_inv c'" and "progress c c'"
proof -
  note f = chan_le_fields [OF assms(1)]
  have "\<not> is_valid (desc_ring (shared c') ! i)" if "i < 2048" "i \<notin> set (busy_slots c)" for i
    using ring_le_invalid [OF f(9), of i] assms(2) that by (simp add: dma_inv_def ring_inv_def)
  then show "dma_inv c'"
    using assms(2) ring_le_length [OF f(9)] by (auto simp: dma_inv_def ring_inv_def cookies_ok_def f)
  show "progress c c'" by (auto simp: progress_def f outstanding_def cbs_def)
qed

lemma cleanup_progress:
  assumes "engine_ok hw" and inv: "dma_inv c" and "2048 \<le> fuel"
  shows "\<exists>c'. run_state (plx_dma_cleanup hw fuel) c = (Some (Inr ()), c') \<and> dma_inv c' \<and> progress c c'
    \<and> (last_tail c' \<noteq> head c \<longrightarrow> is_valid (desc_ring (shared c) ! unat (last_tail c')))"
proof -
  let ?t = "unat (last_tail c)" and ?p = "pending (last_tail c) (head c)"
  have r: "ring_inv c" "cookies_ok c" using inv by (simp_all add: dma_inv_def)
  obtain n t c1 where n: "run_state (plx_dma_cleanup hw fuel) c = (Some (Inr ()), c1\<lparr>last_tail := t\<rparr>)"
    "n \<le> ?p" "unat t = (?t + n) mod 2048" "pending t (head c) = ?p - n" "completes ?t n c c1" "cookies_ok c1"
    "n < ?p \<longrightarrow> is_valid (desc_ring (shared c) ! ((?t + n) mod 2048))"
    using plx_dma_cleanup_run [OF assms(1) r assms(3)] by blast
  note inv1 = completes_inv [OF r(1) n(5,2,3,4)]
  have busy: "set (busy_slots c) = set (slots ?t n) \<union> set (slots (unat t) (?p - n))"
    using slots_append [of ?t n "?p - n"] n(2,3) by simp
  have "tx_cookie (tx_array c1 ! i) = 0" if "i < 2048" "i \<notin> set (slots (unat t) (?p - n))" for i
    using that n(5) inv busy by (cases "i \<in> set (slots ?t n)") (auto simp: completes_def dma_inv_def)
  then have "dma_inv (c1\<lparr>last_tail := t\<rparr>)"
    using inv inv1(1) n(4,5,6) by (auto simp: dma_inv_def completes_def cookies_ok_def)
  moreover have "progress c (c1\<lparr>last_tail := t\<rparr>)"
    using n(4,5) inv1(2) busy unfolding progress_def completes_def by auto
  moreover have "t = head c" if "n = ?p"
    using n(3) that head_slot [of "last_tail c" "head c"] r(1) by (simp add: ring_inv_def word_unat_eq_iff)
  ultimately show ?thesis using n(1,2,3,7) by (intro exI [of _ "c1\<lparr>last_tail := t\<rparr>"]) force
qed

lemma avail_space_run:
  assumes "engine_ok hw" and inv: "dma_inv c" and "2048 \<le> fuel"
  shows "\<exists>c' v. run_state (plx_dma_avail_desc_ring_space hw fuel req) c = (Some (Inr v), c')
    \<and> dma_inv c' \<and> progress c c'
    \<and> v = (if 2047 - int (pending (last_tail c') (head c')) < req then Inl ENOMEM
           else Inr (2047 - int (pending (last_tail c') (head c'))))"
proof -
  have count: "plx_dma_ring_count (head c) (last_tail c) = 2047 - int (pending (last_tail c) (head c))"
    if "dma_inv c" for c :: "'a plx_dma_chan" using that by (intro ring_count) (simp_all add: dma_inv_def ring_inv_def)
  show ?thesis
  proof (cases "plx_dma_ring_count (head c) (last_tail c) < req")
    case True
    obtain c1 where c1: "run_state (plx_dma_issue_pending hw) c = ((), c1)"
      by (cases "run_state (plx_dma_issue_pending hw) c") auto
    note p1 = chan_le_progress [OF quietD [OF quiet_ops(4) [OF assms(1)] c1] inv]
    obtain c2 where c2: "run_state (plx_dma_cleanup hw fuel) c1 = (Some (Inr ()), c2)" "dma_inv c2" "progress c1 c2"
      using cleanup_progress [OF assms(1) p1(1) assms(3)] by blast
    have "progress c c2" by (rule progress_trans [OF p1(2) c2(3)])
    then show ?thesis
      using True c1 c2 count [OF c2(2)] by (auto simp: plx_dma_avail_desc_ring_space_def Let_def)
  next
    case False
    then show ?thesis
      using inv progress_refl [of c] count [OF inv] by (auto simp: plx_dma_avail_desc_ring_space_def Let_def)
  qed
qed
section \<open>Preparing and submitting\<close>

lemma num_desc:
  assumes "unat len < 2 ^ 50"
  shows "unat (num_desc_of len 0x7FFFFFF) = (if len = 0 then 1 else (unat len + 0x7FFFFFE) div 0x7FFFFFF)"
    and "sint (num_desc_of len 0x7FFFFFF) = int (unat (num_desc_of len 0x7FFFFFF))"
    and "1 \<le> unat (num_desc_of len 0x7FFFFFF)"
proof -
  have "unat (0x7FFFFFE + len) = unat len + 0x7FFFFFE"
    using assms unat_plus_small [of "0x7FFFFFE" len] by simp
  moreover have q: "(unat len + 0x7FFFFFE) div 0x7FFFFFF < 2 ^ 31"
    using assms by (intro div_less_iff_less_mult [THEN iffD2]) simp_all
  ultimately show n: "unat (num_desc_of len 0x7FFFFFF) = (if len = 0 then 1 else (unat len + 0x7FFFFFE) div 0x7FFFFFF)"
    by (auto simp: num_desc_of_def unsigned_ucast_eq take_bit_eq_mod unat_div)
  show "sint (num_desc_of len 0x7FFFFFF) = int (unat (num_desc_of len 0x7FFFFFF))"
    using q by (intro sint_small) (simp add: n)
  have "len \<noteq> 0 \<Longrightarrow> 1 \<le> unat len" using unat_gt_0 [of len] by simp
  then show "1 \<le> unat (num_desc_of len 0x7FFFFFF)"
    unfolding n using div_le_mono [of "0x7FFFFFF" "unat len + 0x7FFFFFE" "0x7FFFFFF"] by auto
qed
text \<open>New descriptors in the ring belong to no transaction until one is submitted.\<close>

lemma grow_head:
  assumes inv: "dma_inv c" and ring: "ring_inv (c\<lparr>shared := s, head := h\<rparr>)"
    and p: "pending (last_tail c) h = pending (last_tail c) (head c) + k"
  shows "dma_inv (c\<lparr>shared := s, head := h\<rparr>)" and "outstanding (c\<lparr>shared := s, head := h\<rparr>) = outstanding c"
proof -
  let ?t = "unat (last_tail c)" and ?p = "pending (last_tail c) (head c)"
  have busy: "slots ?t (pending (last_tail c) h) = slots ?t ?p @ slots (?t + ?p) k"
    using slots_append [of ?t ?p k] p by simp
  show "dma_inv (c\<lparr>shared := s, head := h\<rparr>)"
    using inv ring unfolding dma_inv_def by (auto simp: busy cookies_ok_def)
  have "set (slots ?t ?p) \<inter> set (slots (?t + ?p) k) = {}"
    using distinct_slots [of "?p + k" ?t] pending_less [of "last_tail c" h] p unfolding slots_append by simp
  then have "i \<in> set (slots (?t + ?p) k) \<Longrightarrow> i \<notin> set (slots ?t ?p) \<and> i < 2048" for i
    using slots_less by blast
  then have "\<forall>i \<in> set (slots (?t + ?p) k). tx_cookie (tx_array c ! i) = 0"
    using inv by (simp add: dma_inv_def)
  then have "outs (tx_array c) (slots (?t + ?p) k) = []" by (simp add: outs_def)
  then show "outstanding (c\<lparr>shared := s, head := h\<rparr>) = outstanding c"
    by (simp add: outstanding_def busy)
qed

lemma prog_run:
  fixes c :: "'h plx_dma_chan"
  assumes hw: "engine_ok hw" and inv: "dma_inv c" and "2048 \<le> fuel" and "unat len < 2 ^ 50"
  defines "n \<equiv> unat (num_desc_of len 0x7FFFFFF)"
  shows "\<exists>c1. dma_inv c1 \<and> progress c c1 \<and>
    (run_state (plx_dma_prog_memcpy_desc hw fuel src dst len flags) c = (Some (Inr ENOMEM), c1)
     \<or> pending (last_tail c1) (head c1) + n \<le> 2047 \<and>
       (\<exists>s h. run_state (plx_dma_prog_memcpy_desc hw fuel src dst len flags) c =
            (Some (Inr EOK), c1\<lparr>shared := s, head := h\<rparr>)
          \<and> dma_inv (c1\<lparr>shared := s, head := h\<rparr>)
          \<and> outstanding (c1\<lparr>shared := s, head := h\<rparr>) = outstanding c1
          \<and> ring_le (write_descs (desc_ring (shared c1)) (unat (head c1))
              (transfer_descs 0x7FFFFFF n src dst len flags)) (desc_ring s)
          \<and> unat h = (unat (head c1) + ring_steps n flags) mod 2048
          \<and> pending (last_tail c1) h = pending (last_tail c1) (head c1) + ring_steps n flags))"
proof -
  have mx: "max_xfer_size c = 0x7FFFFFF" if "dma_inv c" for c :: "'h plx_dma_chan"
    using that by (simp add: dma_inv_def)
  note nd = num_desc(2,3) [OF assms(4), folded n_def]
  obtain c1 v where c1: "run_state (plx_dma_avail_desc_ring_space hw fuel (int n)) c = (Some (Inr v), c1)"
    "dma_inv c1" "progress c c1"
    "v = (if 2047 - int (pending (last_tail c1) (head c1)) < int n then Inl ENOMEM
      else Inr (2047 - int (pending (last_tail c1) (head c1))))"
    using avail_space_run [OF hw inv assms(3)] by blast
  show ?thesis
  proof (cases "2047 - int (pending (last_tail c1) (head c1)) < int n")
    case True
    then have "run_state (plx_dma_prog_memcpy_desc hw fuel src dst len flags) c = (Some (Inr ENOMEM), c1)"
      using c1(1,4) mx [OF inv] nd(1) by (simp add: plx_dma_prog_memcpy_desc_def Let_def)
    then show ?thesis using c1(2,3) by blast
  next
    case False
    then have room: "pending (last_tail c1) (head c1) + n \<le> 2047" by linarith
    have "ring_inv c1" using c1(2) by (simp add: dma_inv_def)
    from prog_loop_run [OF hw this room] obtain s h where
      sh: "run_state (prog_loop hw n src dst len flags) c1 = (Inr (), c1\<lparr>shared := s, head := h\<rparr>)"
      "ring_inv (c1\<lparr>shared := s, head := h\<rparr>)"
      "ring_le (write_descs (desc_ring (shared c1)) (unat (head c1)) (transfer_descs 0x7FFFFFF n src dst len flags)) (desc_ring s)"
      "unat h = (unat (head c1) + ring_steps n flags) mod 2048"
      "pending (last_tail c1) h = pending (last_tail c1) (head c1) + ring_steps n flags"
      using mx [OF c1(2)] by metis
    have "run_state (plx_dma_prog_memcpy_desc hw fuel src dst len flags) c = (Some (Inr EOK), c1\<lparr>shared := s, head := h\<rparr>)"
      using c1(1,4) mx [OF inv] nd False sh(1) by (simp add: plx_dma_prog_memcpy_desc_def Let_def n_def [symmetric])
    then show ?thesis
      using c1(2,3) room sh(3,4,5) grow_head [OF c1(2) sh(2,5)] by blast
  qed
qed
text \<open>A channel between steps: a prepared transaction has its slot at the head, and room there.\<close>

definition dma_ok :: "'h plx_dma_chan \<Rightarrow> bool" where
  "dma_ok c =
     (dma_inv c \<and> (prep_lock c \<longrightarrow>
        pending (last_tail c) (head c) < 2047 \<and> tx_flags (tx_array c ! unat (head c)) \<noteq> 0))"

lemma head_free:
  assumes "dma_inv c" and "pending (last_tail c) (head c) < 2047"
  shows "unat (head c) \<notin> set (busy_slots c)" and "unat (head c) < 2048"
    and "\<not> is_valid (desc_ring (shared c) ! unat (head c))" and "tx_cookie (tx_array c ! unat (head c)) = 0"
proof -
  have th: "unat (last_tail c) < 2048" "unat (head c) < 2048" using assms(1) by (simp_all add: dma_inv_def ring_inv_def)
  show free: "unat (head c) \<notin> set (busy_slots c)"
    using distinct_slots [of "pending (last_tail c) (head c) + 1" "unat (last_tail c)"] assms(2) head_slot [OF th]
    unfolding slots_append by (simp add: slots_Suc)
  show "unat (head c) < 2048" by (rule th(2))
  show "\<not> is_valid (desc_ring (shared c) ! unat (head c))" "tx_cookie (tx_array c ! unat (head c)) = 0"
    using assms(1) free th(2) by (simp_all add: dma_inv_def ring_inv_def)
qed

lemma progress_ok:
  assumes "dma_ok c" and "dma_inv c'" and "progress c c'"
  shows "dma_ok c'"
proof -
  have "tx_array c' ! unat (head c) = tx_array c ! unat (head c)" if "prep_lock c"
    using assms that head_free(1) [of c] by (auto simp: dma_ok_def progress_def)
  then show ?thesis using assms unfolding dma_ok_def progress_def by auto
qed

lemma tx_update_inv:
  assumes "dma_inv c" and "tx_cookie tx = tx_cookie (tx_array c ! i)"
  shows "dma_inv (c\<lparr>tx_array := (tx_array c)[i := tx]\<rparr>)"
proof (cases "i < length (tx_array c)")
  case True
  have "tx_cookie ((tx_array c)[i := tx] ! j) = tx_cookie (tx_array c ! j)" for j
    using assms(2) True by (cases "j = i") simp_all
  moreover have "cookies_ok (c\<lparr>tx_array := (tx_array c)[i := tx]\<rparr>)"
    using assms True unfolding dma_inv_def cookies_ok_def
    by (auto dest!: set_update_subset_insert [THEN subsetD])
  ultimately show ?thesis using assms(1) by (simp add: dma_inv_def ring_inv_def)
qed (use assms(1) in \<open>simp add: list_update_beyond\<close>)

lemma prep_run:
  assumes hw: "engine_ok hw" and ok: "dma_ok c" "\<not> prep_lock c" and "2048 \<le> fuel" and "unat len < 2 ^ 50"
    and fl: "(ucast flags :: u32) \<noteq> 0"
  shows "\<exists>r c1 c'. run_state (plx_dma_prep_memcpy_lock hw fuel dst src len flags) c = (Some (Inr r), c')
    \<and> progress (c\<lparr>prep_lock := True\<rparr>) c1 \<and> dma_ok c' \<and> outstanding c' = outstanding c1
    \<and> callbacks c' = callbacks c1 \<and> completed_cookie c' = completed_cookie c1 \<and> chan_cookie c' = chan_cookie c1
    \<and> (case r of
         None \<Rightarrow> \<not> prep_lock c'
       | Some i \<Rightarrow> i = head c' \<and> prep_lock c' \<and>
           (let n = unat (num_desc_of len 0x7FFFFFF)
            in n \<le> 2047 \<and> unat (head c') = (unat (head c) + (n - 1)) mod 2048
               \<and> ring_le (write_descs (desc_ring (shared c1)) (unat (head c))
                   (transfer_descs 0x7FFFFFF n src dst len (ucast flags))) (desc_ring (shared c'))))"
proof -
  let ?c0 = "c\<lparr>prep_lock := True\<rparr>" and ?n = "unat (num_desc_of len 0x7FFFFFF)" and ?f = "ucast flags :: u32"
  have inv0: "dma_inv ?c0" using ok by (simp add: dma_ok_def dma_inv_def ring_inv_def cookies_ok_def)
  obtain c1 where c1: "dma_inv c1" "progress ?c0 c1" and cases:
    "run_state (plx_dma_prog_memcpy_desc hw fuel src dst len ?f) ?c0 = (Some (Inr ENOMEM), c1)
     \<or> pending (last_tail c1) (head c1) + ?n \<le> 2047 \<and>
       (\<exists>s h. run_state (plx_dma_prog_memcpy_desc hw fuel src dst len ?f) ?c0 =
            (Some (Inr EOK), c1\<lparr>shared := s, head := h\<rparr>)
          \<and> dma_inv (c1\<lparr>shared := s, head := h\<rparr>)
          \<and> outstanding (c1\<lparr>shared := s, head := h\<rparr>) = outstanding c1
          \<and> ring_le (write_descs (desc_ring (shared c1)) (unat (head c1))
              (transfer_descs 0x7FFFFFF ?n src dst len ?f)) (desc_ring s)
          \<and> unat h = (unat (head c1) + ring_steps ?n ?f) mod 2048
          \<and> pending (last_tail c1) h = pending (last_tail c1) (head c1) + ring_steps ?n ?f)"
    using prog_run [OF hw inv0 assms(4,5)] by blast
  show ?thesis
    using cases
  proof (elim disjE conjE exE)
    assume "run_state (plx_dma_prog_memcpy_desc hw fuel src dst len ?f) ?c0 = (Some (Inr ENOMEM), c1)"
    then have "run_state (plx_dma_prep_memcpy_lock hw fuel dst src len flags) c =
        (Some (Inr None), c1\<lparr>prep_lock := False\<rparr>)" by (simp add: plx_dma_prep_memcpy_lock_def)
    moreover have "dma_ok (c1\<lparr>prep_lock := False\<rparr>)"
      using c1(1) by (simp add: dma_ok_def dma_inv_def ring_inv_def cookies_ok_def)
    ultimately show ?thesis
      using c1(2) by (intro exI [of _ None] exI [of _ c1] exI [of _ "c1\<lparr>prep_lock := False\<rparr>"]) (simp add: outstanding_def)
  next
    fix s h
    let ?c2 = "c1\<lparr>shared := s, head := h\<rparr>"
    assume room: "pending (last_tail c1) (head c1) + ?n \<le> 2047"
      and run: "run_state (plx_dma_prog_memcpy_desc hw fuel src dst len ?f) ?c0 = (Some (Inr EOK), ?c2)"
      and c2: "dma_inv ?c2" "outstanding ?c2 = outstanding c1"
      and le: "ring_le (write_descs (desc_ring (shared c1)) (unat (head c1))
          (transfer_descs 0x7FFFFFF ?n src dst len ?f)) (desc_ring s)"
      and h: "unat h = (unat (head c1) + ring_steps ?n ?f) mod 2048"
        "pending (last_tail c1) h = pending (last_tail c1) (head c1) + ring_steps ?n ?f"
    let ?c3 = "?c2\<lparr>tx_array := (tx_array c1)[unat h := (tx_array c1 ! unat h)\<lparr>tx_flags := ?f\<rparr>]\<rparr>"
    have fl': "flags \<noteq> 0" using fl by auto
    have hc: "head c1 = head c" "prep_lock c1" using c1(2) by (simp_all add: progress_def)
    have run3: "run_state (plx_dma_prep_memcpy_lock hw fuel dst src len flags) c = (Some (Inr (Some h)), ?c3)"
      using run fl' by (simp add: plx_dma_prep_memcpy_lock_def allocate_tx_def Let_def)
    have p: "pending (last_tail c1) h < 2047"
      using room h(2) num_desc(3) [OF assms(5)] fl by (simp add: ring_steps_def)
    have hl: "unat h < 2048" "length (tx_array c1) = 2048" using c2(1) by (simp_all add: dma_inv_def ring_inv_def)
    have "dma_inv ?c3"
      using tx_update_inv [OF c2(1), of "(tx_array c1 ! unat h)\<lparr>tx_flags := ?f\<rparr>" "unat h"] by simp
    then have ok3: "dma_ok ?c3" using p hl fl by (simp add: dma_ok_def)
    have "unat h \<notin> set (busy_slots ?c2)" using head_free(1) [OF c2(1)] p by simp
    then have out3: "outstanding ?c3 = outstanding c1" using c2(2) by (simp add: outstanding_def outs_update)
    have "unat (head ?c3) = (unat (head c) + (?n - 1)) mod 2048" using h(1) fl hc(1) by (simp add: ring_steps_def)
    moreover have "ring_le (write_descs (desc_ring (shared c1)) (unat (head c))
        (transfer_descs 0x7FFFFFF ?n src dst len ?f)) (desc_ring (shared ?c3))" using le hc(1) by simp
    ultimately show ?thesis
      using run3 c1(2) ok3 out3 hc(2) room
      by (intro exI [of _ "Some h"] exI [of _ c1] exI [of _ ?c3] conjI) (simp_all add: Let_def)
  qed
qed

lemma next_cookie_pos: "1 \<le> sint (next_cookie k)" "next_cookie k \<noteq> 0"
proof -
  show s: "1 \<le> sint (next_cookie k)" by (simp add: next_cookie_def)
  show "next_cookie k \<noteq> 0"
  proof
    assume "next_cookie k = 0"
    then show False using s by simp
  qed
qed

lemma valid_desc_run:
  assumes hw: "engine_ok hw" and i: "unat i < length (desc_ring (shared c))"
    and nv: "\<not> is_valid (desc_ring (shared c) ! unat i)"
  shows "\<exists>s d. run_state (plx_dma_valid_desc hw i) c = (Inr (), c\<lparr>shared := s\<rparr>)
    \<and> ring_le ((desc_ring (shared c))[unat i := d]) (desc_ring s)"
proof -
  let ?r = "desc_ring (shared c)" and ?s = "hw (shared c)"
  let ?d = "(?r ! unat i)\<lparr>dw0 := dw0 (?r ! unat i) OR 0x80000000\<rparr>"
  let ?t = "?s\<lparr>desc_ring := (desc_ring ?s)[unat i := ?d]\<rparr>"
  have s: "ring_le ?r (desc_ring ?s)" using engine_step_ring [OF hw] by blast
  have si: "desc_ring ?s ! unat i = ?r ! unat i" "unat i < length (desc_ring ?s)"
    using ring_le_invalid [OF s i nv] ring_le_length [OF s] i by simp_all
  have "ring_le (?r[unat i := ?d]) (desc_ring (hw ?t))"
    using ring_le_trans [OF ring_le_update [OF s] engine_step_ring [OF hw, of ?t]] by simp
  moreover have "run_state (plx_dma_valid_desc hw i) c = (Inr (), c\<lparr>shared := hw ?t\<rparr>)"
    using si by (simp add: plx_dma_valid_desc_def read_desc_def run_look run_touch)
  ultimately show ?thesis by blast
qed

lemma submit_run:
  assumes hw: "engine_ok hw" and ok: "dma_ok c" "prep_lock c"
  shows "\<exists>c'. run_state (plx_dma_tx_submit_unlock hw (head c)) c = (Inr (next_cookie (chan_cookie c)), c')
    \<and> dma_ok c' \<and> \<not> prep_lock c' \<and> chan_cookie c' = next_cookie (chan_cookie c) \<and> callbacks c' = callbacks c
    \<and> completed_cookie c' = completed_cookie c
    \<and> outstanding c' = outstanding c @ [(next_cookie (chan_cookie c), tx_callback (tx_array c ! unat (head c)))]"
proof -
  let ?k = "next_cookie (chan_cookie c)" and ?h = "unat (head c)"
  let ?tx = "(tx_array c ! ?h)\<lparr>tx_cookie := ?k\<rparr>"
  let ?c1 = "c\<lparr>chan_cookie := ?k, tx_array := (tx_array c)[?h := ?tx]\<rparr>"
  have inv: "dma_inv c" and room: "pending (last_tail c) (head c) < 2047" and fl: "tx_flags (tx_array c ! ?h) \<noteq> 0"
    using ok by (simp_all add: dma_ok_def)
  note free = head_free [OF inv room]
  have len: "length (desc_ring (shared c)) = 2048" "length (tx_array c) = 2048" "unat (last_tail c) < 2048"
    using inv by (simp_all add: dma_inv_def ring_inv_def)
  obtain s d where s: "run_state (plx_dma_valid_desc hw (head c)) ?c1 = (Inr (), ?c1\<lparr>shared := s\<rparr>)"
    "ring_le ((desc_ring (shared c))[?h := d]) (desc_ring s)"
    using valid_desc_run [OF hw, of "head c" ?c1] free(2,3) len(1) by auto
  let ?c' = "c\<lparr>shared := s, head := plx_dma_ring_inc (head c), chan_cookie := ?k,
    tx_array := (tx_array c)[?h := ?tx\<lparr>tx_flags := 0\<rparr>], prep_lock := False\<rparr>"
  have run: "run_state (plx_dma_tx_submit_unlock hw (head c)) c = (Inr ?k, ?c')"
    using s(1) fl free(2) len(2) by (simp add: plx_dma_tx_submit_unlock_def plx_dma_inc_head_def)
  have ring: "ring_inv (c\<lparr>shared := s, head := plx_dma_ring_inc (head c)\<rparr>)"
    using ring_inv_head(2) [OF _ s(2) room] inv by (simp add: dma_inv_def)
  have busy: "slots (unat (last_tail c)) (pending (last_tail c) (plx_dma_ring_inc (head c))) = busy_slots c @ [?h]"
    using pending_inc_head [OF len(3) free(2) room] head_slot [OF len(3) free(2)]
      slots_append [of "unat (last_tail c)" "pending (last_tail c) (head c)" 1] by (simp add: slots_Suc)
  have "cookies_ok ?c'"
    using inv next_cookie_pos [of "chan_cookie c"] unfolding dma_inv_def cookies_ok_def
    by (auto dest!: set_update_subset_insert [THEN subsetD])
  then have "dma_ok ?c'"
    using inv ring unfolding dma_ok_def dma_inv_def by (auto simp: busy ring_inv_def nth_list_update)
  moreover have "outstanding ?c' = outstanding c @ [(?k, tx_callback (tx_array c ! ?h))]"
    using free(1,2) len(2) next_cookie_pos(2) [of "chan_cookie c"] by (simp add: outstanding_def busy outs_update)
  ultimately show ?thesis using run by (intro exI [of _ ?c'] conjI) simp_all
qed

end
