(* ===== verification/Runs.thy ===== *)
theory Runs
  imports Main
begin

text \<open>
  Runs of labelled step systems, and two interfaces with what follows from them for whole runs:
  completion queues, and forward simulations.
\<close>

section \<open>Steps\<close>

text \<open>Sequences of steps; every step has a list of labels.\<close>

inductive steps :: "('c \<Rightarrow> 'l list \<Rightarrow> 'c \<Rightarrow> bool) \<Rightarrow> 'c \<Rightarrow> 'l list \<Rightarrow> 'c \<Rightarrow> bool" for step where
  steps_none: "steps step c [] c"
| steps_more: "steps step c l c' \<Longrightarrow> step c' l' c'' \<Longrightarrow> steps step c (l @ l') c''"

section \<open>Completion queues\<close>

text \<open>
  An interface of completion queues: labels are submitted to a queue, and every step moves some
  of them from the front of the queue into a log, which absorbs them in order.
\<close>

locale completion_queue =
  fixes ok :: "'c \<Rightarrow> bool" and step :: "'c \<Rightarrow> 'l list \<Rightarrow> 'c \<Rightarrow> bool" and queue :: "'c \<Rightarrow> 'l list"
    and log :: "'c \<Rightarrow> 'e" and absorb :: "'e \<Rightarrow> 'l list \<Rightarrow> 'e"
  assumes absorb_none: "absorb e [] = e"
    and absorb_more: "absorb (absorb e xs) ys = absorb e (xs @ ys)"
    and step_queue: "ok c \<Longrightarrow> step c l c' \<Longrightarrow>
      ok c' \<and> (\<exists>os. queue c @ l = os @ queue c' \<and> log c' = absorb (log c) os)"
begin

lemma in_order:
  assumes "steps step c l c'" and "ok c"
  shows "ok c' \<and> (\<exists>os. queue c @ l = os @ queue c' \<and> log c' = absorb (log c) os)"
  using assms
proof (induction rule: steps.induct)
  case (steps_none c)
  then show ?case by (auto simp: absorb_none)
next
  case (steps_more c l c' l' c'')
  then obtain os where os: "ok c'" "queue c @ l = os @ queue c'" "log c' = absorb (log c) os" by blast
  then obtain os' where os': "ok c''" "queue c' @ l' = os' @ queue c''" "log c'' = absorb (log c') os'"
    using step_queue [of c' l' c''] steps_more.hyps(2) by blast
  have "queue c @ (l @ l') = (os @ os') @ queue c''"
    using os(2) os'(2) by (metis append_assoc)
  moreover have "log c'' = absorb (log c) (os @ os')" using os(3) os'(3) by (simp add: absorb_more)
  ultimately show ?case using os'(1) by blast
qed

end

section \<open>Simulation\<close>

text \<open>
  An interface of systems that implement an abstract one: a relation between their states that
  every step preserves, with a step of the abstract system under the same labels.
\<close>

locale forward_simulation =
  fixes cstep :: "'c \<Rightarrow> 'l list \<Rightarrow> 'c \<Rightarrow> bool" and astep :: "'a \<Rightarrow> 'l list \<Rightarrow> 'a \<Rightarrow> bool" and rel :: "'c \<Rightarrow> 'a \<Rightarrow> bool"
  assumes simulates: "rel c a \<Longrightarrow> cstep c l c' \<Longrightarrow> \<exists>a'. astep a l a' \<and> rel c' a'"
begin

lemma runs_refine:
  assumes "steps cstep c l c'" and "rel c a"
  shows "\<exists>a'. steps astep a l a' \<and> rel c' a'"
  using assms
proof (induction rule: steps.induct)
  case (steps_none c)
  then have "steps astep a [] a \<and> rel c a" by (simp add: steps.steps_none)
  then show ?case ..
next
  case (steps_more c l c' l' c'')
  then obtain a' where a': "steps astep a l a'" "rel c' a'" by blast
  obtain a'' where a'': "astep a' l' a''" "rel c'' a''"
    using simulates [OF a'(2) steps_more.hyps(2)] by blast
  have "steps astep a (l @ l') a'' \<and> rel c'' a''"
    using steps.steps_more [where step = astep, OF a'(1) a''(1)] a''(2) by simp
  then show ?case ..
qed

end

end
