(* ===== verification/Dma_Queue.thy ===== *)
theory Dma_Queue
  imports Dma_Ring Runs
begin

text \<open>
  The channel of the DMA engine in use: the steps of a channel as a completion queue, a fresh channel
  after probing and allocation, and the memory that
  the descriptors of a prepared transfer copy. The last two sections hold the properties.
\<close>

unbundle bit_operations_syntax

section \<open>Steps of a channel\<close>

text \<open>
  What happens to a channel between its allocation and its release: the engine runs, the driver's
  operations are called. A submission is labelled with its cookie and callback. A transaction
  is prepared while the lock is free and asks for an interrupt or carries other flags; until it is
  submitted the lock keeps other clients from preparing one.
\<close>

inductive dma_step ::
  "'h engine_step \<Rightarrow> nat \<Rightarrow> 'h plx_dma_chan \<Rightarrow> (u32 \<times> u64 option) list \<Rightarrow> 'h plx_dma_chan \<Rightarrow> bool" for hw fuel where
  step_engine: "dma_step hw fuel c [] (c\<lparr>shared := hw (shared c)\<rparr>)"
| step_cleanup: "run_state (plx_dma_cleanup hw fuel) c = (r, c') \<Longrightarrow> dma_step hw fuel c [] c'"
| step_interrupt: "run_state (plx_dma_thread_fn hw fuel) c = (r, c') \<Longrightarrow> dma_step hw fuel c [] c'"
| step_status: "run_state (plx_dma_tx_status hw fuel order k) c = (s, c') \<Longrightarrow> dma_step hw fuel c [] c'"
| step_issue: "run_state (plx_dma_issue_pending hw) c = (u, c') \<Longrightarrow> dma_step hw fuel c [] c'"
| step_prepare: "\<not> prep_lock c \<Longrightarrow> unat len < 2 ^ 50 \<Longrightarrow> (ucast flags :: u32) \<noteq> 0 \<Longrightarrow>
    run_state (plx_dma_prep_memcpy_lock hw fuel dst src len flags) c = (p, c') \<Longrightarrow> dma_step hw fuel c [] c'"
| step_callback: "prep_lock c \<Longrightarrow> run_state (set_callback (head c) cb) c = (u, c') \<Longrightarrow> dma_step hw fuel c [] c'"
| step_submit: "prep_lock c \<Longrightarrow> run_state (plx_dma_tx_submit_unlock hw (head c)) c = (Inr k, c') \<Longrightarrow>
    dma_step hw fuel c [(k, tx_callback (tx_array c ! unat (head c)))] c'"

definition dma_log :: "'h plx_dma_chan \<Rightarrow> u64 list \<times> u32" where
  "dma_log c = (callbacks c, completed_cookie c)"

definition absorb_tx :: "u64 list \<times> u32 \<Rightarrow> (u32 \<times> u64 option) list \<Rightarrow> u64 list \<times> u32" where
  "absorb_tx e os = (fst e @ cbs os, last (snd e # map fst os))"

lemma progress_queue:
  "progress c c' \<Longrightarrow> \<exists>os. outstanding c = os @ outstanding c' \<and> dma_log c' = absorb_tx (dma_log c) os"
  by (auto simp: progress_def dma_log_def absorb_tx_def)

definition moves :: "'h plx_dma_chan \<Rightarrow> (u32 \<times> u64 option) list \<Rightarrow> 'h plx_dma_chan \<Rightarrow> bool" where
  "moves c l c' =
     (dma_ok c' \<and> (\<exists>os. outstanding c @ l = os @ outstanding c' \<and> dma_log c' = absorb_tx (dma_log c) os))"

lemma progress_moves: "dma_ok c \<Longrightarrow> dma_inv c' \<Longrightarrow> progress c c' \<Longrightarrow> moves c [] c'"
  unfolding moves_def using progress_ok progress_queue by fastforce

lemma quiet_moves: "quiet p \<Longrightarrow> run_state p c = (r, c') \<Longrightarrow> dma_ok c \<Longrightarrow> moves c [] c'"
  using chan_le_progress [OF quietD] progress_moves by (metis dma_ok_def)

lemma inv_hang_flush [simp]:
  "dma_inv (c\<lparr>dma_hang := h\<rparr>) = dma_inv c" "dma_inv (c\<lparr>dbg_flush := h\<rparr>) = dma_inv c"
  by (simp_all add: dma_inv_def ring_inv_def cookies_ok_def)

lemma progress_hang_flush [simp]:
  "progress c (c'\<lparr>dma_hang := h\<rparr>) = progress c c'" "progress c (c'\<lparr>dbg_flush := h\<rparr>) = progress c c'"
  by (simp_all add: progress_def outstanding_def)

lemma ack_quiet: "engine_ok hw \<Longrightarrow> quiet (plx_dma_ack_interrupt hw)"
  unfolding plx_dma_ack_interrupt_def by (intro quiet_rules)

lemma thread_fn_run:
  assumes hw: "engine_ok hw" and inv: "dma_inv c" and fuel: "2048 \<le> fuel"
  shows "\<exists>c'. run_state (plx_dma_thread_fn hw fuel) c = (Some (Inr ()), c') \<and> dma_inv c' \<and> progress c c'"
proof (cases "dma_hang c")
  case True
  then show ?thesis using inv progress_refl by (auto simp: plx_dma_thread_fn_def)
next
  case False
  obtain c1 where c1: "run_state (plx_dma_cleanup hw fuel) c = (Some (Inr ()), c1)" "dma_inv c1" "progress c c1"
    using cleanup_progress [OF hw inv fuel] by blast
  obtain reg c2 where c2: "run_state (plx_dma_ack_interrupt hw) c1 = (reg, c2)" by fastforce
  have ok2: "dma_inv c2" "progress c c2"
    using chan_le_progress [OF quietD [OF ack_quiet [OF hw] c2] c1(2)] progress_trans [OF c1(3)] by blast+
  let ?c3 = "c2\<lparr>dbg_flush := False\<rparr>"
  obtain c4 where c4: "run_state (plx_dma_cleanup hw fuel) ?c3 = (Some (Inr ()), c4)" "dma_inv c4" "progress ?c3 c4"
    using cleanup_progress [OF hw, of ?c3] ok2(1) fuel by auto
  have ok4: "progress c c4" using progress_trans [of c ?c3 c4] ok2(2) c4(3) by simp
  show ?thesis
    using False c1(1) c2 ok2 c4(1,2) ok4
    by (cases "reg AND 0x2B0000 = 0"; cases "reg AND 0x40000 = 0") (simp_all add: plx_dma_thread_fn_def)
qed

lemma tx_status_run:
  assumes hw: "engine_ok hw" and inv: "dma_inv c" and fuel: "2048 \<le> fuel"
  shows "\<exists>s c'. run_state (plx_dma_tx_status hw fuel order k) c = (Some (Inr s), c') \<and> dma_inv c' \<and> progress c c'
    \<and> s = (order k (completed_cookie c') (chan_cookie c'), completed_cookie c', chan_cookie c')"
proof -
  obtain c1 where "run_state (plx_dma_cleanup hw fuel) c = (Some (Inr ()), c1)" "dma_inv c1" "progress c c1"
    using cleanup_progress [OF hw inv fuel] by blast
  then show ?thesis
    using inv progress_refl [of c]
    by (cases "order k (completed_cookie c) (chan_cookie c)")
      (simp_all add: plx_dma_tx_status_def plx_dma_is_tx_complete_def plx_dma_cookie_status_def)
qed

lemma callback_moves:
  assumes ok: "dma_ok c" "prep_lock c" and run: "run_state (set_callback (head c) cb) c = (r, c')"
  shows "moves c [] c'"
proof -
  let ?h = "unat (head c)"
  have c': "c' = c\<lparr>tx_array := (tx_array c)[?h := (tx_array c ! ?h)\<lparr>tx_callback := cb\<rparr>]\<rparr>"
    using run by (simp add: set_callback_def)
  have inv: "dma_inv c" "pending (last_tail c) (head c) < 2047" using ok by (simp_all add: dma_ok_def)
  note free = head_free [OF inv]
  have len: "length (tx_array c) = 2048" using inv(1) by (simp add: dma_inv_def ring_inv_def)
  have "dma_inv c'" unfolding c' by (rule tx_update_inv [OF inv(1)]) simp
  then have "dma_ok c'" using ok free(2) len unfolding dma_ok_def c' by simp
  moreover have "outstanding c' = outstanding c" using free(1) by (simp add: c' outstanding_def outs_update)
  moreover have "dma_log c' = absorb_tx (dma_log c) []" by (simp add: c' dma_log_def absorb_tx_def cbs_def)
  ultimately show ?thesis by (simp add: moves_def)
qed

lemma prepare_moves:
  assumes "engine_ok hw" and ok: "dma_ok c" "\<not> prep_lock c" and "2048 \<le> fuel" and "unat len < 2 ^ 50"
    and "(ucast flags :: u32) \<noteq> 0" and run: "run_state (plx_dma_prep_memcpy_lock hw fuel dst src len flags) c = (r, c')"
  shows "moves c [] c'"
proof -
  obtain c1 where c1: "progress (c\<lparr>prep_lock := True\<rparr>) c1" "dma_ok c'" "outstanding c' = outstanding c1"
      "callbacks c' = callbacks c1" "completed_cookie c' = completed_cookie c1"
    using prep_run [OF assms(1-6), of dst src] run by auto
  obtain os where "outstanding (c\<lparr>prep_lock := True\<rparr>) = os @ outstanding c1"
      "dma_log c1 = absorb_tx (dma_log (c\<lparr>prep_lock := True\<rparr>)) os"
    using progress_queue [OF c1(1)] by blast
  then show ?thesis using c1(2-5) unfolding moves_def by (simp add: outstanding_def dma_log_def)
qed

lemma dma_step_moves:
  assumes "engine_ok hw" and "2048 \<le> fuel" and "dma_ok c" and "dma_step hw fuel c l c'"
  shows "moves c l c'"
proof -
  have inv: "dma_inv c" using assms(3) by (simp add: dma_ok_def)
  show ?thesis
    using assms(4,3)
  proof (cases rule: dma_step.cases)
    case step_engine
    have "quiet (look hw (\<lambda>s. ()))" by (rule quiet_look [OF assms(1)])
    then show ?thesis using quiet_moves [OF _ run_look assms(3)] step_engine by blast
  next
    case (step_cleanup r)
    then show ?thesis using cleanup_progress [OF assms(1) inv assms(2)] progress_moves [OF assms(3)] by auto
  next
    case (step_interrupt r)
    then show ?thesis using thread_fn_run [OF assms(1) inv assms(2)] progress_moves [OF assms(3)] by auto
  next
    case (step_status order k s)
    then show ?thesis
      using tx_status_run [OF assms(1) inv assms(2), of order k] progress_moves [OF assms(3)] by auto
  next
    case (step_issue u)
    then show ?thesis using quiet_moves [OF quiet_ops(4) [OF assms(1)] _ assms(3)] by blast
  next
    case (step_prepare len flags dst src p)
    then show ?thesis using prepare_moves [OF assms(1,3) _ assms(2)] by blast
  next
    case (step_callback cb u)
    then show ?thesis using callback_moves [OF assms(3)] by blast
  next
    case (step_submit k)
    then show ?thesis
      using submit_run [OF assms(1,3)] by (auto simp: moves_def dma_log_def absorb_tx_def cbs_def)
  qed
qed

interpretation dq: completion_queue "\<lambda>c. engine_ok hw \<and> 2048 \<le> fuel \<and> dma_ok c" "dma_step hw fuel"
  outstanding dma_log absorb_tx for hw fuel
proof
  show "absorb_tx e [] = e" for e by (simp add: absorb_tx_def cbs_def)
  show "absorb_tx (absorb_tx e xs) ys = absorb_tx e (xs @ ys)" for e xs ys
    by (cases ys rule: rev_cases) (simp_all add: absorb_tx_def cbs_def)
qed (use dma_step_moves [unfolded moves_def] in blast)

section \<open>A fresh channel\<close>

text \<open>
  Allocating the channel leaves an empty ring: no descriptor is valid and no slot has a cookie.
  The set up of the channel registers does not change that.
\<close>

definition fresh :: "bool \<Rightarrow> 'h plx_dma_chan \<Rightarrow> 'h plx_dma_chan \<Rightarrow> bool" where
  "fresh z c0 c =
     (length (desc_ring (shared c)) = 2048 \<and> (\<forall>i < 2048. \<not> is_valid (desc_ring (shared c) ! i))
      \<and> tx_array c = replicate 2048 \<lparr>tx_cookie = 0, tx_flags = 0, tx_callback = None\<rparr>
      \<and> max_xfer_size c = max_xfer_size c0 \<and> prep_lock c = prep_lock c0 \<and> dma_log c = dma_log c0
      \<and> chan_cookie c = chan_cookie c0 \<and> (z \<longrightarrow> last_tail c = 0 \<and> head c = 0))"

definition keeps_fresh :: "bool \<Rightarrow> 'h plx_dma_chan \<Rightarrow> ('h, 'a) dma_op \<Rightarrow> bool" where
  "keeps_fresh z c0 p = (\<forall>c. fresh z c0 c \<longrightarrow> fresh z c0 (snd (run_state p c)))"

lemma keeps_fresh_bind:
  "keeps_fresh z c0 p \<Longrightarrow> (\<And>v. keeps_fresh z c0 (f v)) \<Longrightarrow> keeps_fresh z c0 (p \<bind> f)"
  by (auto simp: keeps_fresh_def case_prod_beta)

lemma keeps_fresh_put:
  "keeps_fresh z c0 (put_chan (\<lambda>c. c\<lparr>dma_hang := b\<rparr>))" "keeps_fresh z c0 (put_chan (\<lambda>c. c\<lparr>ctrl_reg := v\<rparr>))"
  by (simp_all add: keeps_fresh_def fresh_def dma_log_def)

lemma keeps_fresh_quiet: "quiet p \<Longrightarrow> keeps_fresh z c0 p"
  unfolding keeps_fresh_def quiet_def
proof (intro allI impI)
  fix c
  assume q: "\<forall>c. chan_le c (snd (run_state p c))" and f: "fresh z c0 c"
  have "chan_le c (snd (run_state p c))" using q by blast
  note le = chan_le_fields [OF this]
  have "length (desc_ring (shared (snd (run_state p c)))) = 2048"
    using ring_le_length [OF le(9)] f by (simp add: fresh_def)
  moreover have "\<not> is_valid (desc_ring (shared (snd (run_state p c))) ! i)" if "i < 2048" for i
    using ring_le_invalid [OF le(9), of i] f that by (simp add: fresh_def)
  ultimately show "fresh z c0 (snd (run_state p c))" using f le by (simp add: fresh_def dma_log_def)
qed

lemma setup_quiet:
  assumes "engine_ok hw"
  shows "quiet (plx_dma_chan_set_desc_ring hw)" and "quiet (plx_dma_chan_unmask_intr hw)"
    and "quiet (plx_dma_chan_mask_intr hw)"
  unfolding plx_dma_chan_set_desc_ring_def plx_dma_chan_clear_desc_ring_def plx_dma_chan_unmask_intr_def
    plx_dma_chan_mask_intr_def Let_def
  by (intro quiet_rules assms)+

lemma enable_fresh:
  assumes hw: "engine_ok hw"
  shows "keeps_fresh z c0 (plx_dma_enable_chan hw)"
proof -
  have hang: "keeps_fresh z c0 (if b then put_chan (\<lambda>c. c\<lparr>dma_hang := True\<rparr>) else State_Monad.return ())" for b
    by (simp add: keeps_fresh_put keeps_fresh_quiet quiet_return)
  show ?thesis
    unfolding plx_dma_enable_chan_def Let_def
    by (intro keeps_fresh_bind keeps_fresh_put hang keeps_fresh_quiet quiet_ops hw)
qed

lemma setup_fresh:
  assumes hw: "engine_ok hw" and "fresh False c0 c"
  shows "fresh True c0 (snd (run_state (plx_dma_chan_setup hw) c))"
proof -
  let ?a = "plx_dma_reg_write hw 0x90 0x10 \<bind> (\<lambda>_. plx_dma_chan_set_desc_ring hw)"
  let ?b = "plx_dma_chan_unmask_intr hw \<bind> (\<lambda>_. plx_dma_enable_chan hw)"
  let ?zero = "\<lambda>c. c\<lparr>last_tail := 0, head := 0\<rparr>"
  have "keeps_fresh False c0 ?a"
    by (intro keeps_fresh_bind keeps_fresh_quiet setup_quiet quiet_ops hw)
  then have "fresh True c0 (?zero (snd (run_state ?a c)))"
    using assms(2) by (simp add: keeps_fresh_def fresh_def dma_log_def)
  moreover have "keeps_fresh True c0 ?b"
    by (intro keeps_fresh_bind enable_fresh keeps_fresh_quiet setup_quiet hw)
  ultimately have "fresh True c0 (snd (run_state ?b (?zero (snd (run_state ?a c)))))"
    unfolding keeps_fresh_def by blast
  then show ?thesis by (simp add: plx_dma_chan_setup_def case_prod_beta)
qed

lemma fresh_ok:
  assumes f: "fresh True c0 c" and "max_xfer_size c0 = PLX_DESC_SIZE_MASK" and "\<not> prep_lock c0"
  shows "dma_ok c" and "outstanding c = []"
proof -
  have z: "last_tail c = 0" "head c = 0" using f by (simp_all add: fresh_def)
  have p: "pending (last_tail c) (head c) = 0" by (simp add: z pending_def)
  show "outstanding c = []" by (simp add: outstanding_def p)
  show "dma_ok c"
    using f assms(2,3) unfolding dma_ok_def dma_inv_def ring_inv_def cookies_ok_def p
    by (simp add: fresh_def)
qed

lemma alloc_run:
  assumes hw: "engine_ok hw" and "max_xfer_size c = PLX_DESC_SIZE_MASK" and "\<not> prep_lock c"
  shows "\<exists>c'. run_state (plx_dma_alloc_chan_resources hw (Some da) True) c = (Inr 2048, c')
    \<and> dma_ok c' \<and> \<not> prep_lock c' \<and> outstanding c' = [] \<and> dma_log c' = dma_log c \<and> chan_cookie c' = chan_cookie c"
proof -
  let ?c1 = "c\<lparr>desc_ring_da := da,
    shared := (shared c)\<lparr>desc_ring := replicate 2048 \<lparr>dw0 = 0, dw1 = 0, dw2 = 0, dw3 = 0\<rparr>\<rparr>,
    tx_array := replicate 2048 \<lparr>tx_cookie = 0, tx_flags = 0, tx_callback = None\<rparr>\<rparr>"
  let ?c' = "snd (run_state (plx_dma_chan_setup hw) ?c1)"
  have "fresh False c ?c1" by (simp add: fresh_def is_valid_def dma_log_def)
  then have f: "fresh True c ?c'" by (rule setup_fresh [OF hw])
  have "run_state (plx_dma_alloc_chan_resources hw (Some da) True) c = (Inr 2048, ?c')"
    by (simp add: plx_dma_alloc_chan_resources_def plx_dma_chan_init_def plx_dma_alloc_desc_ring_def case_prod_beta)
  then show ?thesis using fresh_ok [OF f assms(2,3)] f assms(3) by (simp add: fresh_def)
qed

section \<open>Runs of a channel\<close>

definition dma_run ::
  "'h engine_step \<Rightarrow> nat \<Rightarrow> u64 \<Rightarrow> 'h plx_dma_chan \<Rightarrow> (u32 \<times> u64 option) list \<Rightarrow> 'h plx_dma_chan \<Rightarrow> bool" where
  "dma_run hw fuel da z l c' =
     (\<exists>c0 c. run_state (plx_dma_probe EOK EOK) z = (EOK, c0)
        \<and> run_state (plx_dma_alloc_chan_resources hw (Some da) True) c0 = (Inr 2048, c)
        \<and> steps (dma_step hw fuel) c l c')"

lemma dma_run_silent: "dma_run hw fuel da z l c \<Longrightarrow> dma_step hw fuel c [] c' \<Longrightarrow> dma_run hw fuel da z l c'"
  unfolding dma_run_def using steps_more [where step = "dma_step hw fuel" and l' = "[]"] by fastforce

lemma dma_run_submit: "dma_run hw fuel da z l c \<Longrightarrow> dma_step hw fuel c [x] c' \<Longrightarrow> dma_run hw fuel da z (l @ [x]) c'"
  unfolding dma_run_def using steps_more [where step = "dma_step hw fuel" and l' = "[x]"] by blast

lemma dma_run_ok:
  assumes "engine_ok hw" and "2048 \<le> fuel" and "dma_run hw fuel da z l c'"
  shows "dma_ok c'" and "\<exists>os. l = os @ outstanding c' \<and> dma_log c' = absorb_tx (callbacks z, 1) os"
proof -
  obtain c0 c where c0: "run_state (plx_dma_probe EOK EOK) z = (EOK, c0)"
    and c: "run_state (plx_dma_alloc_chan_resources hw (Some da) True) c0 = (Inr 2048, c)"
    and s: "steps (dma_step hw fuel) c l c'"
    using assms(3) unfolding dma_run_def by blast
  have z: "max_xfer_size c0 = 0x7FFFFFF" "\<not> prep_lock c0" "dma_log c0 = (callbacks z, 1)"
    using c0 by (auto simp: plx_dma_probe_def plx_dma_init_def plx_register_dma_device_def dma_log_def)
  have ok: "dma_ok c" "outstanding c = []" "dma_log c = (callbacks z, 1)"
    using alloc_run [OF assms(1) z(1,2), of da] c z(3) by auto
  have "dma_ok c' \<and> (\<exists>os. outstanding c @ l = os @ outstanding c' \<and> dma_log c' = absorb_tx (dma_log c) os)"
    using dq.in_order [OF s] assms(1,2) ok(1) by blast
  then show "dma_ok c'" and "\<exists>os. l = os @ outstanding c' \<and> dma_log c' = absorb_tx (callbacks z, 1) os"
    using ok by simp_all
qed

text \<open>
  An engine that completes every descriptor at once, a channel before it is probed, and the channel
  as a client finds it after allocation, after preparing a transfer of 16 bytes with an interrupt,
  after setting its callback and after submitting it.
\<close>

definition instant_engine :: "unit engine_step" where
  "instant_engine s =
     s\<lparr>dma_regs := \<lambda>_. 0, desc_ring := map (\<lambda>d. if is_valid d then d\<lparr>dw0 := 0\<rparr> else d) (desc_ring s)\<rparr>"

definition blank_chan :: "unit plx_dma_chan" where
  "blank_chan =
     \<lparr>shared = \<lparr>dma_regs = \<lambda>_. 0, desc_ring = [], engine = ()\<rparr>, last_tail = 0, head = 0, desc_ring_da = 0,
      ch_base_addr = 0, ctrl_reg = 0, tx_array = [], prep_lock = False, dma_hang = False, dbg_flush = False,
      dbg_dma_hold_cnt = 0, chan_cookie = 0, completed_cookie = 0, max_xfer_size = 0, callbacks = []\<rparr>"

definition demo_chan :: "u32 \<Rightarrow> plx_dma_desc \<Rightarrow> u32 \<Rightarrow> dma_async_tx \<Rightarrow> bool \<Rightarrow> unit plx_dma_chan" where
  "demo_chan h d k tx lock = blank_chan
     \<lparr>shared := (shared blank_chan)\<lparr>desc_ring := d # replicate 2047 \<lparr>dw0 = 0, dw1 = 0, dw2 = 0, dw3 = 0\<rparr>\<rparr>,
      ch_base_addr := 0x200, ctrl_reg := 0x44, head := h, max_xfer_size := 0x7FFFFFF, prep_lock := lock,
      tx_array := tx # replicate 2047 \<lparr>tx_cookie = 0, tx_flags = 0, tx_callback = None\<rparr>,
      chan_cookie := k, completed_cookie := 1\<rparr>"

definition demo_fresh_chan :: "unit plx_dma_chan" where
  "demo_fresh_chan =
     demo_chan 0 \<lparr>dw0 = 0, dw1 = 0, dw2 = 0, dw3 = 0\<rparr> 1 \<lparr>tx_cookie = 0, tx_flags = 0, tx_callback = None\<rparr> False"

definition demo_prepared :: "unit plx_dma_chan" where
  "demo_prepared = demo_chan 0 \<lparr>dw0 = 0x40000010, dw1 = 0, dw2 = 0x5000, dw3 = 0x1000\<rparr> 1
     \<lparr>tx_cookie = 0, tx_flags = 1, tx_callback = None\<rparr> True"

definition demo_submitted :: "unit plx_dma_chan" where
  "demo_submitted = demo_chan 1 \<lparr>dw0 = 0, dw1 = 0, dw2 = 0x5000, dw3 = 0x1000\<rparr> 2
     \<lparr>tx_cookie = 2, tx_flags = 0, tx_callback = Some 7\<rparr> False"

definition demo_unflagged_chan :: "unit plx_dma_chan" where
  "demo_unflagged_chan = demo_chan 1 \<lparr>dw0 = 0, dw1 = 0, dw2 = 0x5000, dw3 = 0x1000\<rparr> 1
     \<lparr>tx_cookie = 0, tx_flags = 0, tx_callback = None\<rparr> True"

lemma instant_engine_ok: "engine_ok instant_engine"
  by (simp add: engine_ok_def instant_engine_def ring_le_def list_all2_conv_all_nth desc_le_def is_valid_def)

lemma instant_engine_fields [simp]:
  "desc_ring (instant_engine s) = map (\<lambda>d. if is_valid d then d\<lparr>dw0 := 0\<rparr> else d) (desc_ring s)"
  "dma_regs (instant_engine s) = (\<lambda>_. 0)"
  by (simp_all add: instant_engine_def)

lemma demo_fresh:
  "run_state (plx_dma_probe EOK EOK) blank_chan =
     (EOK, blank_chan\<lparr>ch_base_addr := 0x200, max_xfer_size := 0x7FFFFFF, chan_cookie := 1, completed_cookie := 1\<rparr>)"
  "run_state (plx_dma_alloc_chan_resources instant_engine (Some 0) True)
     (blank_chan\<lparr>ch_base_addr := 0x200, max_xfer_size := 0x7FFFFFF, chan_cookie := 1, completed_cookie := 1\<rparr>) =
   (Inr 2048, demo_fresh_chan)"
proof -
  show "run_state (plx_dma_probe EOK EOK) blank_chan =
     (EOK, blank_chan\<lparr>ch_base_addr := 0x200, max_xfer_size := 0x7FFFFFF, chan_cookie := 1, completed_cookie := 1\<rparr>)"
    by (simp add: plx_dma_probe_def plx_dma_init_def plx_register_dma_device_def blank_chan_def)
  have r: "replicate 2048 x = x # replicate 2047 x" for x :: 'b
    using replicate_Suc [of 2047 x] by simp
  show "run_state (plx_dma_alloc_chan_resources instant_engine (Some 0) True)
     (blank_chan\<lparr>ch_base_addr := 0x200, max_xfer_size := 0x7FFFFFF, chan_cookie := 1, completed_cookie := 1\<rparr>) =
   (Inr 2048, demo_fresh_chan)"
    by (simp add: demo_fresh_chan_def demo_chan_def blank_chan_def r
     plx_dma_alloc_chan_resources_def plx_dma_chan_init_def plx_dma_alloc_desc_ring_def plx_dma_chan_setup_def
     plx_dma_chan_set_desc_ring_def plx_dma_chan_clear_desc_ring_def plx_dma_ch_reg_write_def plx_dma_reg_write_def run_touch
     instant_engine_def plx_dma_chan_unmask_intr_def plx_dma_ch_reg_read_def plx_dma_reg_read_def run_look plx_dma_enable_chan_def
     Let_def is_valid_def cong: if_weak_cong)
qed

lemma demo_prepare:
  "run_state (plx_dma_prep_memcpy_lock instant_engine 2048 0x5000 0x1000 16 1)
     demo_fresh_chan =
   (Some (Inr (Some 0)), demo_prepared)"
proof -
  have n: "num_desc_of 16 0x7FFFFFF = 1" "plx_dma_ring_count 0 0 = 2047"
    "desc_dw0 16 1 False = 0x40000010" "desc_dw1 0x1000 0x5000 = 0" by code_simp+
  show ?thesis
    by (simp add: plx_dma_prep_memcpy_lock_def plx_dma_prog_memcpy_desc_def n plx_dma_avail_desc_ring_space_def
       demo_fresh_chan_def demo_prepared_def demo_chan_def blank_chan_def Let_def plx_dma_memcpy_desc_def read_desc_def run_look run_touch is_valid_def
       instant_engine_def allocate_tx_def cong: if_weak_cong)
qed

lemma demo_submit:
  "run_state (set_callback 0 (Some 7)) (demo_chan 0 d 1 \<lparr>tx_cookie = 0, tx_flags = 1, tx_callback = None\<rparr> True) =
     ((), demo_chan 0 d 1 \<lparr>tx_cookie = 0, tx_flags = 1, tx_callback = Some 7\<rparr> True)"
  "run_state (plx_dma_tx_submit_unlock instant_engine 0)
     (demo_chan 0 \<lparr>dw0 = 0x40000010, dw1 = 0, dw2 = 0x5000, dw3 = 0x1000\<rparr> 1
       \<lparr>tx_cookie = 0, tx_flags = 1, tx_callback = Some 7\<rparr> True) =
   (Inr 2, demo_chan 1 \<lparr>dw0 = 0, dw1 = 0, dw2 = 0x5000, dw3 = 0x1000\<rparr> 2
     \<lparr>tx_cookie = 2, tx_flags = 0, tx_callback = Some 7\<rparr> False)"
proof -
  have n: "next_cookie 1 = 2" "plx_dma_ring_inc 0 = 1" by code_simp+
  show "run_state (set_callback 0 (Some 7)) (demo_chan 0 d 1 \<lparr>tx_cookie = 0, tx_flags = 1, tx_callback = None\<rparr> True) =
     ((), demo_chan 0 d 1 \<lparr>tx_cookie = 0, tx_flags = 1, tx_callback = Some 7\<rparr> True)"
    by (simp add: set_callback_def demo_chan_def)
  show "run_state (plx_dma_tx_submit_unlock instant_engine 0)
     (demo_chan 0 \<lparr>dw0 = 0x40000010, dw1 = 0, dw2 = 0x5000, dw3 = 0x1000\<rparr> 1
       \<lparr>tx_cookie = 0, tx_flags = 1, tx_callback = Some 7\<rparr> True) =
   (Inr 2, demo_chan 1 \<lparr>dw0 = 0, dw1 = 0, dw2 = 0x5000, dw3 = 0x1000\<rparr> 2
     \<lparr>tx_cookie = 2, tx_flags = 0, tx_callback = Some 7\<rparr> False)"
    by (simp add: plx_dma_tx_submit_unlock_def n demo_chan_def blank_chan_def plx_dma_valid_desc_def read_desc_def
        run_look run_touch is_valid_def instant_engine_def plx_dma_inc_head_def cong: if_weak_cong)
qed

lemma demo_fields:
  "head (demo_chan h d k tx lock) = h" "prep_lock (demo_chan h d k tx lock) = lock"
  "tx_array (demo_chan h d k tx lock) ! 0 = tx"
  by (simp_all add: demo_chan_def)

lemma demo_fresh_run: "dma_run instant_engine 2048 0 blank_chan [] demo_fresh_chan"
  unfolding dma_run_def by (rule exI conjI demo_fresh steps_none)+

lemma demo_run: "dma_run instant_engine 2048 0 blank_chan [(2, Some 7)] demo_submitted"
proof -
  have "\<not> prep_lock demo_fresh_chan" by (simp add: demo_fresh_chan_def demo_fields)
  then have "dma_run instant_engine 2048 0 blank_chan [] demo_prepared"
    using dma_run_silent [OF demo_fresh_run step_prepare [OF _ _ _ demo_prepare]] by simp
  then have "dma_run instant_engine 2048 0 blank_chan [] (demo_chan 0 \<lparr>dw0 = 0x40000010, dw1 = 0, dw2 = 0x5000, dw3 = 0x1000\<rparr> 1
      \<lparr>tx_cookie = 0, tx_flags = 1, tx_callback = Some 7\<rparr> True)"
    by (rule dma_run_silent [OF _ step_callback [of _ "Some 7"]])
      (simp_all add: demo_prepared_def demo_fields demo_submit(1))
  from dma_run_submit [OF this step_submit [of _ _ 2]] show ?thesis
    unfolding demo_submitted_def by (simp add: demo_fields demo_submit(2))
qed

section \<open>Properties\<close>

text \<open>
  C2. Whatever the engine, the interrupt thread and the clients of a channel do, in any order,
  transactions complete in the order they were submitted and each at most once: those that have
  completed are a prefix of those submitted, the rest is outstanding in the ring, exactly the
  callbacks of the completed ones have run, in order, and the completed cookie is that of the last
  of them.
\<close>

theorem plx_dma_completions_in_order:
  assumes "engine_ok hw" and "2048 \<le> fuel" and "dma_run hw fuel da z submitted c"
  shows "\<exists>os. submitted = os @ outstanding c \<and> callbacks c = callbacks z @ cbs os
    \<and> completed_cookie c = last (1 # map fst os)"
  using dma_run_ok [OF assms] by (auto simp: dma_log_def absorb_tx_def)

theorem plx_dma_completions_in_order_witness:
  "\<exists>os. [(2, Some 7)] = os @ outstanding demo_submitted \<and> callbacks demo_submitted = callbacks blank_chan @ cbs os
    \<and> completed_cookie demo_submitted = last (1 # map fst os)"
  by (rule plx_dma_completions_in_order [OF instant_engine_ok order_refl demo_run])

text \<open>
  C7. No completion is lost: once the engine has finished all descriptors, one call of
  \<open>plx_dma_cleanup\<close> ends, empties the ring, and leaves every transaction ever submitted completed and
  every callback run once, in the order of submission.
\<close>

theorem plx_dma_cleanup_completes_all:
  assumes "engine_ok hw" and "2048 \<le> fuel" and "dma_run hw fuel da z submitted c"
    and "\<forall>d \<in> set (desc_ring (shared c)). \<not> is_valid d"
  shows "\<exists>c'. run_state (plx_dma_cleanup hw fuel) c = (Some (Inr ()), c') \<and> last_tail c' = head c'
    \<and> outstanding c' = [] \<and> callbacks c' = callbacks z @ cbs submitted
    \<and> completed_cookie c' = last (1 # map fst submitted)"
proof -
  have ok: "dma_ok c" by (rule dma_run_ok(1) [OF assms(1-3)])
  then have inv: "dma_inv c" by (simp add: dma_ok_def)
  obtain c' where c': "run_state (plx_dma_cleanup hw fuel) c = (Some (Inr ()), c')" "dma_inv c'" "progress c c'"
      "last_tail c' \<noteq> head c \<Longrightarrow> is_valid (desc_ring (shared c) ! unat (last_tail c'))"
    using cleanup_progress [OF assms(1) inv assms(2)] by blast
  have "unat (last_tail c') < length (desc_ring (shared c))"
    using c'(2) inv by (simp add: dma_inv_def ring_inv_def)
  then have e: "last_tail c' = head c'" using c'(3,4) assms(4) by (auto simp: progress_def)
  then have o: "outstanding c' = []" by (simp add: outstanding_def pending_def)
  have "dma_run hw fuel da z submitted c'"
    by (rule dma_run_silent [OF assms(3) step_cleanup [OF c'(1)]])
  then show ?thesis using dma_run_ok(2) [OF assms(1,2), of da z submitted c'] c'(1) e o
    by (auto simp: dma_log_def absorb_tx_def)
qed

theorem plx_dma_cleanup_completes_all_witness:
  "\<exists>c'. run_state (plx_dma_cleanup instant_engine 2048) demo_submitted = (Some (Inr ()), c') \<and> last_tail c' = head c'
    \<and> outstanding c' = [] \<and> callbacks c' = [7] \<and> completed_cookie c' = 2"
proof -
  have "\<forall>d \<in> set (desc_ring (shared demo_submitted)). \<not> is_valid d"
    by (simp add: demo_submitted_def demo_chan_def is_valid_def)
  then show ?thesis
    using plx_dma_cleanup_completes_all [OF instant_engine_ok order_refl demo_run]
    by (simp add: cbs_def blank_chan_def)
qed

section \<open>What a descriptor says\<close>

text \<open>
  A descriptor read back, as the driver prints it and the engine takes it: the upper half of its second
  word is the upper half of the source address, the lower half that of the destination, and 27
  bits of its first word are the size.
\<close>

definition desc_src :: "plx_dma_desc \<Rightarrow> u64" where
  "desc_src d = ucast (dw3 d) OR push_bit 16 (ucast (dw1 d) AND 0xFFFFFFFFFFFF0000)"

definition desc_dst :: "plx_dma_desc \<Rightarrow> u64" where
  "desc_dst d = ucast (dw2 d) OR push_bit 32 (ucast (dw1 d AND 0xFFFF))"

definition desc_size :: "plx_dma_desc \<Rightarrow> u64" where
  "desc_size d = ucast (dw0 d) AND PLX_DESC_SIZE_MASK"

lemma masks:
  "(0xFFFFFFFFFFFF0000 :: u64) = NOT (mask 16)" "(0xffffffff :: u64) = mask 32" "(0x7FFFFFF :: u64) = mask 27"
  "(0xFFFF :: u32) = mask 16"
  by (simp_all add: mask_eq_exp_minus_1)

lemma flag_bits: "bit (0x80000000 :: int) n \<longleftrightarrow> n = 31" "bit (0x40000000 :: int) n \<longleftrightarrow> n = 30"
proof -
  have "(0x80000000 :: int) = push_bit 31 1" "(0x40000000 :: int) = push_bit 30 1" by simp_all
  then show "bit (0x80000000 :: int) n \<longleftrightarrow> n = 31" "bit (0x40000000 :: int) n \<longleftrightarrow> n = 30"
    by (simp_all only: bit_push_bit_iff bit_1_iff) auto
qed

lemma desc_src_new: "desc_src (new_desc src dst sz fl v) = take_bit 48 src OR push_bit 32 (drop_bit 48 dst)"
  unfolding desc_src_def new_desc_def desc_dw1_def masks
  by (rule bit_word_eqI) (auto simp: bit_simps dest: bit_imp_le_length)

lemma desc_dst_new: "desc_dst (new_desc src dst sz fl v) = take_bit 48 dst"
  unfolding desc_dst_def new_desc_def desc_dw1_def masks
  by (rule bit_word_eqI) (auto simp: bit_simps dest: bit_imp_le_length)

lemma desc_size_new: "desc_size (new_desc src dst sz fl v) = take_bit 27 sz"
  unfolding desc_size_def new_desc_def desc_dw0_def masks
  by (rule bit_word_eqI) (auto simp: bit_simps flag_bits)

text \<open>What the engine does with a descriptor: it copies bytes of memory.\<close>

definition copy_bytes :: "(nat \<Rightarrow> 'b) \<Rightarrow> nat \<Rightarrow> nat \<Rightarrow> nat \<Rightarrow> nat \<Rightarrow> 'b" where
  "copy_bytes m src dst n = (\<lambda>a. if dst \<le> a \<and> a < dst + n then m (src + (a - dst)) else m a)"

definition run_desc :: "plx_dma_desc \<Rightarrow> (nat \<Rightarrow> 'b) \<Rightarrow> nat \<Rightarrow> 'b" where
  "run_desc d m = copy_bytes m (unat (desc_src d)) (unat (desc_dst d)) (unat (desc_size d))"

abbreviation (input) apart :: "nat \<Rightarrow> nat \<Rightarrow> nat \<Rightarrow> bool" where
  "apart src dst n \<equiv> src + n \<le> dst \<or> dst + n \<le> src"

lemma copy_bytes_split:
  "apart src dst n \<Longrightarrow> k \<le> n \<Longrightarrow>
     copy_bytes (copy_bytes m src dst k) (src + k) (dst + k) (n - k) = copy_bytes m src dst n"
  unfolding copy_bytes_def by (rule ext) (auto simp: not_less)

lemma take_bit_small: "unat x < 2 ^ n \<Longrightarrow> take_bit n x = (x :: u64)"
  by (simp add: word_unat_eq_iff unsigned_take_bit_eq take_bit_nat_eq_self)

lemma drop_bit_small: "unat x < 2 ^ n \<Longrightarrow> drop_bit n x = (0 :: u64)"
  using drop_bit_take_bit [of n n x] by (simp add: take_bit_small)

lemma run_new_desc:
  assumes "unat src < 2 ^ 48" and "unat dst < 2 ^ 48" and "unat sz \<le> 0x7FFFFFF"
  shows "run_desc (new_desc src dst sz fl v) m = copy_bytes m (unat src) (unat dst) (unat sz)"
  using assms by (simp add: run_desc_def desc_src_new desc_dst_new desc_size_new take_bit_small drop_bit_small)

lemma copy_bytes_0 [simp]: "copy_bytes m src dst 0 = m"
  by (rule ext) (auto simp: copy_bytes_def)

lemma transfer_descs_copy:
  assumes "unat src + unat len < 2 ^ 48" and "unat dst + unat len < 2 ^ 48" and "apart (unat src) (unat dst) (unat len)"
    and "unat len \<le> n * 0x7FFFFFF"
  shows "fold run_desc (transfer_descs 0x7FFFFFF n src dst len fl) m = copy_bytes m (unat src) (unat dst) (unat len)"
  using assms
proof (induction n arbitrary: src dst len m)
  case (Suc n)
  let ?k = "min len 0x7FFFFFF"
  have k: "unat ?k = min (unat len) 0x7FFFFFF" by (simp add: min_def word_le_nat_alt)
  then have kl: "unat ?k \<le> unat len" by simp
  have s: "unat (src + ?k) = unat src + unat ?k" "unat (dst + ?k) = unat dst + unat ?k"
    using Suc.prems(1,2) kl by (simp_all add: unat_word_ariths)
  have l: "unat (len - ?k) = unat len - unat ?k"
    by (rule unat_sub) (simp add: word_le_nat_alt kl)
  have "fold run_desc (transfer_descs 0x7FFFFFF n (src + ?k) (dst + ?k) (len - ?k) fl)
      (copy_bytes m (unat src) (unat dst) (unat ?k))
    = copy_bytes (copy_bytes m (unat src) (unat dst) (unat ?k)) (unat (src + ?k)) (unat (dst + ?k)) (unat (len - ?k))"
    by (rule Suc.IH; use Suc.prems kl k in \<open>auto simp: s l\<close>)
  also have "\<dots> = copy_bytes m (unat src) (unat dst) (unat len)"
    unfolding s l by (rule copy_bytes_split [OF Suc.prems(3) kl])
  finally show ?case
    using Suc.prems(1,2) k by (simp add: run_new_desc)
qed simp

lemma transfer_descs_valid:
  "flags \<noteq> 0 \<Longrightarrow> k < n \<Longrightarrow> is_valid (transfer_descs mx n src dst len flags ! k) \<longleftrightarrow> k < n - 1"
proof (induction n arbitrary: src dst len k)
  case (Suc n)
  then show ?case by (cases k) auto
qed simp

definition prepared :: "plx_dma_desc list \<Rightarrow> nat \<Rightarrow> nat \<Rightarrow> plx_dma_desc list" where
  "prepared r h n = map (\<lambda>k. r ! ((h + k) mod 2048)) [0..<n]"

lemma prepared_write:
  assumes "length r = 2048" and "length ds \<le> 2048"
  shows "prepared (write_descs r h ds) h (length ds) = ds"
  using write_descs_nth [OF assms(1) _ assms(2)] by (intro nth_equalityI) (simp_all add: prepared_def)

text \<open>
  C13. A prepared transfer is the transfer asked for: the descriptors written from the old head on, as
  the engine reads them, together copy exactly the \<open>len\<close> bytes from \<open>src\<close> to \<open>dst\<close>; all but the last
  are valid, the last is at the new head and waits for the submission. The engine can only have
  completed some of them since. Bus addresses have 48 bits and the two ranges do not overlap.
\<close>

theorem plx_dma_prep_memcpy_copies:
  fixes hw :: "'h engine_step"
  assumes "engine_ok hw" and "2048 \<le> fuel" and "dma_run hw fuel da z l c" and "\<not> prep_lock c"
    and fl: "(ucast flags :: u32) \<noteq> 0"
    and "unat src + unat len < 2 ^ 48" and "unat dst + unat len < 2 ^ 48"
    and "unat src + unat len \<le> unat dst \<or> unat dst + unat len \<le> unat src"
    and run: "run_state (plx_dma_prep_memcpy_lock hw fuel dst src len flags) c = (Some (Inr (Some i)), c')"
  shows "\<exists>r n. ring_le r (desc_ring (shared c')) \<and> i = head c' \<and> unat i = (unat (head c) + n) mod 2048
    \<and> fold run_desc (prepared r (unat (head c)) (n + 1)) m = copy_bytes m (unat src) (unat dst) (unat len)
    \<and> map is_valid (prepared r (unat (head c)) (n + 1)) = replicate n True @ [False]"
proof -
  let ?n = "unat (num_desc_of len 0x7FFFFFF)" and ?h = "unat (head c)"
  let ?ds = "transfer_descs 0x7FFFFFF ?n src dst len (ucast flags)"
  have ok: "dma_ok c" by (rule dma_run_ok(1) [OF assms(1-3)])
  have len: "unat len < 2 ^ 50" using assms(6) by simp
  obtain c1 :: "'h plx_dma_chan" where ok': "dma_ok c'" and n': "?n \<le> 2047" and i: "i = head c'" "unat i = (?h + (?n - 1)) mod 2048"
    and le: "ring_le (write_descs (desc_ring (shared c1)) ?h ?ds) (desc_ring (shared c'))"
    using prep_run [OF assms(1) ok assms(4,2) len fl, of dst src] run by (auto simp: Let_def)
  have n: "1 \<le> ?n" "unat len \<le> ?n * 0x7FFFFFF" "?n \<le> 2048"
    using num_desc [OF len] n' by (auto split: if_splits)
  have "length (desc_ring (shared c1)) = 2048"
    using ring_le_length [OF le] ok' by (simp add: dma_ok_def dma_inv_def ring_inv_def)
  then have p: "prepared (write_descs (desc_ring (shared c1)) ?h ?ds) ?h ?n = ?ds"
    using prepared_write [of "desc_ring (shared c1)" ?ds ?h] n(3) by simp
  have "map is_valid ?ds = replicate (?n - 1) True @ [False]"
    using transfer_descs_valid [OF fl] n(1) by (intro nth_equalityI) (auto simp: nth_append)
  then show ?thesis
    using le i p n(1) transfer_descs_copy [OF assms(6-8) n(2)]
    by (intro exI [of _ "write_descs (desc_ring (shared c1)) ?h ?ds"] exI [of _ "?n - 1"]) simp
qed

theorem plx_dma_prep_memcpy_copies_witness:
  "\<exists>r n. ring_le r (desc_ring (shared demo_prepared)) \<and> 0 = head demo_prepared
    \<and> unat (0 :: u32) = (unat (head demo_fresh_chan) + n) mod 2048
    \<and> fold run_desc (prepared r (unat (head demo_fresh_chan)) (n + 1)) (\<lambda>a. a)
      = copy_bytes (\<lambda>a. a) (unat (0x1000 :: u64)) (unat (0x5000 :: u64)) (unat (16 :: u64))
    \<and> map is_valid (prepared r (unat (head demo_fresh_chan)) (n + 1)) = replicate n True @ [False]"
proof (rule plx_dma_prep_memcpy_copies [where m = "\<lambda>a. a", OF instant_engine_ok order_refl demo_fresh_run _ _ _ _ _ demo_prepare])
  show "\<not> prep_lock demo_fresh_chan" by (simp add: demo_fresh_chan_def demo_chan_def)
qed simp_all

text \<open>
  C34. What a descriptor keeps of a transfer: an engine reads the destination and the size back
  as they were given, up to 48 and 27 bits. The source address is read back with the bits of the
  destination address above 48 mixed in.
\<close>

theorem plx_dma_desc_readback:
  assumes "engine_ok hw" and "unat i < length (desc_ring (shared c))"
    and "\<not> is_valid (desc_ring (shared c) ! unat i)"
  shows "\<exists>s. run_state (plx_dma_memcpy_desc hw i src dst sz flags False) c = (Inr (), c\<lparr>shared := s\<rparr>)
    \<and> desc_src (desc_ring s ! unat i) = take_bit 48 src OR push_bit 32 (drop_bit 48 dst)
    \<and> desc_dst (desc_ring s ! unat i) = take_bit 48 dst
    \<and> desc_size (desc_ring s ! unat i) = take_bit 27 sz"
proof -
  obtain s where s: "run_state (plx_dma_memcpy_desc hw i src dst sz flags False) c = (Inr (), c\<lparr>shared := s\<rparr>)"
    "ring_le ((desc_ring (shared c))[unat i := new_desc src dst sz flags False]) (desc_ring s)"
    using plx_dma_memcpy_desc_run [OF assms] by blast
  have "desc_ring s ! unat i = new_desc src dst sz flags False"
    using ring_le_invalid [OF s(2), of "unat i"] assms(2) by simp
  then show ?thesis using s(1) by (intro exI [of _ s]) (simp add: desc_src_new desc_dst_new desc_size_new)
qed

theorem plx_dma_desc_readback_witness:
  "\<exists>s. run_state (plx_dma_memcpy_desc instant_engine 0 0x1000 0x1000000005000 16 1 False) demo_fresh_chan
      = (Inr (), demo_fresh_chan\<lparr>shared := s\<rparr>)
    \<and> desc_src (desc_ring s ! 0) = 0x100001000 \<and> desc_dst (desc_ring s ! 0) = 0x5000 \<and> desc_size (desc_ring s ! 0) = 16"
proof -
  have "unat (0 :: u32) < length (desc_ring (shared demo_fresh_chan))"
    "\<not> is_valid (desc_ring (shared demo_fresh_chan) ! unat (0 :: u32))"
    by (simp_all add: demo_fresh_chan_def demo_chan_def is_valid_def)
  note r = plx_dma_desc_readback [OF instant_engine_ok this, of "0x1000" "0x1000000005000" 16 1]
  have "take_bit 48 0x1000 OR push_bit 32 (drop_bit 48 0x1000000005000) = (0x100001000 :: u64)"
    "take_bit 48 0x1000000005000 = (0x5000 :: u64)" "take_bit 27 16 = (16 :: u64)" by code_simp+
  with r show ?thesis by simp
qed


text \<open>A client without flags, whose transfer is done and cleaned up when it submits.\<close>

lemma demo_unflagged:
  "run_state (plx_dma_prep_memcpy_lock instant_engine 2048 0x5000 0x1000 16 0) demo_fresh_chan =
     (Some (Inr (Some 0)), demo_unflagged_chan)"
  "run_state (plx_dma_cleanup instant_engine 2) demo_unflagged_chan = (Some (Inr ()), demo_unflagged_chan\<lparr>last_tail := 1\<rparr>)"
proof -
  have n: "num_desc_of 16 0x7FFFFFF = 1" "plx_dma_ring_count 0 0 = 2047" "plx_dma_ring_inc 0 = 1" "plx_dma_ring_dec 1 = 0"
    "desc_dw0 16 0 True = 0x80000010" "desc_dw1 0x1000 0x5000 = 0" by code_simp+
  show "run_state (plx_dma_prep_memcpy_lock instant_engine 2048 0x5000 0x1000 16 0) demo_fresh_chan =
     (Some (Inr (Some 0)), demo_unflagged_chan)"
    by (simp add: plx_dma_prep_memcpy_lock_def plx_dma_prog_memcpy_desc_def n plx_dma_avail_desc_ring_space_def
       demo_fresh_chan_def demo_unflagged_chan_def demo_chan_def blank_chan_def Let_def plx_dma_memcpy_desc_def read_desc_def
       run_look run_touch is_valid_def instant_engine_def allocate_tx_def plx_dma_inc_head_def cong: if_weak_cong)
  show "run_state (plx_dma_cleanup instant_engine 2) demo_unflagged_chan = (Some (Inr ()), demo_unflagged_chan\<lparr>last_tail := 1\<rparr>)"
    by (simp add: plx_dma_cleanup_def numeral_2_eq_2 demo_unflagged_chan_def demo_chan_def blank_chan_def still_busy_def
       read_desc_def run_look is_valid_def instant_engine_def complete_tx_def n cong: if_weak_cong)
qed


end
