(* ===== verification/Vring.thy ===== *)
theory Vring
  imports Vca_Prelude
begin

text \<open>
  The memory of a virtio ring (\<open>vca_virtio/uapi/vca_virtio_ring.h\<close>), shared by the driver of a
  virtual device and its other side: the descriptor table, the ring of available heads and the
  ring of used ones with their free running indices, and the two event indices behind the rings.
  The byte order of the ring is that of the processor on both sides.
\<close>

unbundle bit_operations_syntax

section \<open>Layout\<close>

abbreviation (input) VRING_DESC_F_NEXT :: u16 where "VRING_DESC_F_NEXT \<equiv> 1"
abbreviation (input) VRING_DESC_F_WRITE :: u16 where "VRING_DESC_F_WRITE \<equiv> 2"
abbreviation (input) VRING_DESC_F_INDIRECT :: u16 where "VRING_DESC_F_INDIRECT \<equiv> 4"
abbreviation (input) VRING_USED_F_NO_NOTIFY :: u16 where "VRING_USED_F_NO_NOTIFY \<equiv> 1"
abbreviation (input) VRING_AVAIL_F_NO_INTERRUPT :: u16 where "VRING_AVAIL_F_NO_INTERRUPT \<equiv> 1"
abbreviation (input) VIRTIO_RING_F_INDIRECT_DESC :: nat where "VIRTIO_RING_F_INDIRECT_DESC \<equiv> 28"
abbreviation (input) VIRTIO_RING_F_EVENT_IDX :: nat where "VIRTIO_RING_F_EVENT_IDX \<equiv> 29"
abbreviation (input) VIRTIO_RING_F_DMA_MAP :: nat where "VIRTIO_RING_F_DMA_MAP \<equiv> 30"
abbreviation (input) VIRTIO_F_VERSION_1 :: nat where "VIRTIO_F_VERSION_1 \<equiv> 32"

record vring_desc =
  d_addr :: u64
  d_len :: u32
  d_flags :: u16
  d_next :: u16

record vring_used_elem =
  ue_id :: u32
  ue_len :: u32

text \<open>The three parts of a ring in memory.\<close>

record vring =
  desc :: "vring_desc list"
  avail_flags :: u16
  avail_idx :: u16
  avail_ring :: "u16 list"
  used_event :: u16
  used_flags :: u16
  used_idx :: u16
  used_ring :: "vring_used_elem list"
  avail_event :: u16

text \<open>The offsets of the parts from the start of the ring, and its size, for 64 bit pointers.\<close>

definition vring_init_avail :: "u32 \<Rightarrow> u64 \<Rightarrow> u64" where
  "vring_init_avail num p = p + ucast num * 16"

definition vring_init_used :: "u32 \<Rightarrow> u64 \<Rightarrow> u64 \<Rightarrow> u64" where
  "vring_init_used num p align =
     (vring_init_avail num p + 4 + 2 * ucast num + 2 + align - 1) AND NOT (align - 1)"

definition vring_size :: "u32 \<Rightarrow> u64 \<Rightarrow> u32" where
  "vring_size num align =
     ucast (((16 * ucast num + 2 * ucast (3 + num) + align - 1) AND NOT (align - 1)) + 6 + 8 * ucast num)"

section \<open>Event indices\<close>

definition vring_need_event :: "u16 \<Rightarrow> u16 \<Rightarrow> u16 \<Rightarrow> bool" where
  "vring_need_event event_idx new_idx old = (new_idx - event_idx - 1 < new_idx - old)"

lemma word_window:
  fixes n e :: u16
  shows "n - e - 1 < n \<longleftrightarrow> e < n"
proof (cases "e < n")
  case True
  then have "unat e < unat n" by (simp add: word_less_nat_alt)
  moreover have "unat (n - e) = unat n - unat e" using True by (intro unat_sub) simp
  ultimately have "unat (n - e - 1) = unat n - unat e - 1"
    by (subst unat_sub) (simp_all add: word_le_nat_alt)
  then show ?thesis using True \<open>unat e < unat n\<close> by (simp add: word_less_nat_alt)
next
  case False
  define a where "a = e - n"
  have e: "unat a = unat e - unat n" "unat n \<le> unat e"
    using False by (simp_all add: a_def unat_sub not_less word_le_nat_alt)
  have m: "unat (- 1 :: u16) = 65535" by (simp add: unsigned_minus_1_eq_mask mask_eq_exp_minus_1)
  have b: "unat w < 65536" for w :: u16 using unsigned_less [of w, where 'a = nat] by simp
  have "unat (- 1 - a) = 65535 - unat a"
    using unat_sub [of a "- 1"] m b [of a] by (simp add: word_le_nat_alt)
  moreover have "n - e - 1 = - 1 - a" by (simp add: a_def)
  ultimately have "unat (n - e - 1) = 65535 - unat a" by (simp only:)
  then have "\<not> unat (n - e - 1) < unat n" using e b [of e] by linarith
  then show ?thesis using False by (simp only: word_less_nat_alt)
qed

text \<open>
  \<open>vring_need_event\<close> answers, in wrapping 16 bit arithmetic, whether the step from the old to the
  new index passes the event index: whether the event index is one of the entries published.
\<close>

theorem vring_need_event_window:
  "vring_need_event event_idx new_idx old \<longleftrightarrow> (\<exists>k < unat (new_idx - old). event_idx = old + of_nat k)"
proof -
  let ?n = "new_idx - old" and ?e = "event_idx - old"
  have d: "new_idx - event_idx - 1 = ?n - ?e - 1" by simp
  have "?e < ?n \<longleftrightarrow> (\<exists>k < unat ?n. event_idx = old + of_nat k)"
  proof
    assume "?e < ?n"
    then show "\<exists>k < unat ?n. event_idx = old + of_nat k"
      by (intro exI [of _ "unat ?e"]) (simp add: word_less_nat_alt)
  next
    assume "\<exists>k < unat ?n. event_idx = old + of_nat k"
    then obtain k where k: "k < unat ?n" "event_idx = old + of_nat k" by blast
    have "unat (of_nat k :: u16) = k" using k(1) unsigned_less [of ?n, where 'a = nat] by (intro unat_of_nat_small) simp
    then show "?e < ?n" using k by (simp add: word_less_nat_alt)
  qed
  then show ?thesis unfolding vring_need_event_def d word_window .
qed

end
