(* ===== verification/Virtqueue.thy ===== *)
theory Virtqueue
  imports Vring
begin

text \<open>
  The driver side of a virtio ring (\<open>vca_virtio/vca_virtio_ring.c\<close>): buffers are added as chains
  of descriptors taken from a free list and published in the ring of available heads; used
  chains are taken back and returned to the free list. The DMA interface of the kernel, the
  allocator and the notification of the other side are parameters, by the number of their call.
\<close>

unbundle bit_operations_syntax

section \<open>State\<close>

text \<open>
  One entry of a scatter list; a list is an array whose last entry carries the end mark. Chained
  arrays are not used by the callers.
\<close>

record scatterlist =
  sg_virt :: u64
  sg_phys :: u64
  sg_length :: u32
  sg_end :: bool
  dma_address :: u64

text \<open>A live DMA mapping: address, length and whether the device writes to it.\<close>

type_synonym dma_mapping = "u64 \<times> u32 \<times> bool"

text \<open>
  \<open>data\<close> holds the tokens of the callers, 0 for none. \<open>tables\<close> are the indirect tables in memory,
  by physical address. \<open>mapped\<close> are the live DMA mappings; the counters are the numbers of calls
  to the world outside.
\<close>

record vring_virtqueue =
  num :: u32
  num_free :: u32
  vring :: vring
  broken :: bool
  indirect :: bool
  event :: bool
  dma_map :: bool
  has_parent :: bool
  has_callback :: bool
  free_head :: u32
  num_added :: u32
  last_used_idx :: u16
  data :: "u64 list"
  tables :: "(u64 \<times> vring_desc list) list"
  mapped :: "dma_mapping list"
  dma_calls :: nat
  alloc_calls :: nat
  notifications :: nat
  callbacks_run :: nat

text \<open>
  The kernel around the driver: the address \<open>dma_map_single\<close> gives (0 is a failure), the memory
  that \<open>kmalloc\<close> gives for a table (its physical address and its old contents), and whether a
  notification reaches the other side.
\<close>

record vq_env =
  env_map :: "nat \<Rightarrow> u64 \<Rightarrow> u32 \<Rightarrow> bool \<Rightarrow> u64"
  env_table :: "nat \<Rightarrow> nat \<Rightarrow> (u64 \<times> vring_desc list) option"
  env_notify :: "nat \<Rightarrow> bool"

abbreviation (input) ring_upd :: "(vring \<Rightarrow> vring) \<Rightarrow> vring_virtqueue \<Rightarrow> vring_virtqueue" where
  "ring_upd f vq \<equiv> vq\<lparr>vring := f (vring vq)\<rparr>"

section \<open>Scatter lists\<close>

text \<open>The entries up to the end mark; \<open>None\<close> when the array ends before.\<close>

fun sg_entries :: "scatterlist list \<Rightarrow> scatterlist list option" where
  "sg_entries [] = None"
| "sg_entries (s # ss) = (if sg_end s then Some [s] else map_option ((#) s) (sg_entries ss))"

text \<open>Unmarks all of the first \<open>num\<close> entries and marks the last of them.\<close>

definition sg_terminate_arr :: "scatterlist list \<Rightarrow> nat \<Rightarrow> scatterlist list option" where
  "sg_terminate_arr sg n =
     (if n = 0 \<or> length sg < n then None
      else
        (let sg1 = map (\<lambda>s. s\<lparr>sg_end := False\<rparr>) (take n sg) @ drop n sg
         in Some (sg1[n - 1 := (sg1 ! (n - 1))\<lparr>sg_end := True\<rparr>])))"

definition dma_map_single :: "vq_env \<Rightarrow> u64 \<Rightarrow> u32 \<Rightarrow> bool \<Rightarrow> vring_virtqueue \<Rightarrow> u64 \<times> vring_virtqueue" where
  "dma_map_single env virt n dir vq =
     (let a = env_map env (dma_calls vq) virt n dir
      in (a, vq\<lparr>dma_calls := dma_calls vq + 1,
                mapped := (if a = 0 then mapped vq else (a, n, dir) # mapped vq)\<rparr>))"

definition dma_unmap_single :: "u64 \<Rightarrow> u32 \<Rightarrow> bool \<Rightarrow> vring_virtqueue \<Rightarrow> vring_virtqueue" where
  "dma_unmap_single a n dir vq = vq\<lparr>mapped := remove1 (a, n, dir) (mapped vq)\<rparr>"

text \<open>
  The loop of \<open>_dma_map_sg\<close> over the entries from \<open>i\<close> on. After a failure the entries before are
  unmapped, the error is kept, and the loop goes on with the next entry.
\<close>

fun dma_map_loop ::
  "vq_env \<Rightarrow> bool \<Rightarrow> nat list \<Rightarrow> scatterlist list \<Rightarrow> errno \<Rightarrow> vring_virtqueue \<Rightarrow> errno \<times> scatterlist list \<times> vring_virtqueue" where
  "dma_map_loop env dir [] sg ret vq = (ret, sg, vq)"
| "dma_map_loop env dir (i # is) sg ret vq =
     (let (a, vq) = dma_map_single env (sg_virt (sg ! i)) (sg_length (sg ! i)) dir vq;
          sg = sg[i := (sg ! i)\<lparr>dma_address := a\<rparr>]
      in if a = 0
         then dma_map_loop env dir is sg ENOMEM
                (fold (\<lambda>s. dma_unmap_single (dma_address s) (sg_length s) dir) (take i sg) vq)
         else dma_map_loop env dir is sg ret vq)"

definition dma_map_sg ::
  "vq_env \<Rightarrow> scatterlist list \<Rightarrow> bool \<Rightarrow> vring_virtqueue \<Rightarrow> (errno \<times> scatterlist list \<times> vring_virtqueue) option" where
  "dma_map_sg env sg dir vq =
     (case sg_entries sg of
        None \<Rightarrow> None
      | Some es \<Rightarrow> Some (dma_map_loop env dir [0..<length es] sg EOK vq))"

definition dma_unmap_sg :: "scatterlist list \<Rightarrow> bool \<Rightarrow> vring_virtqueue \<Rightarrow> vring_virtqueue option" where
  "dma_unmap_sg sg dir vq =
     (case sg_entries sg of
        None \<Rightarrow> None
      | Some es \<Rightarrow> Some (fold (\<lambda>s. dma_unmap_single (dma_address s) (sg_length s) dir) es vq))"

text \<open>
  The loop of \<open>vring_map_sg\<close>: the lists before \<open>n\<close> are mapped. A failure unmaps them, and the list
  that failed is left as \<open>_dma_map_sg\<close> left it.
\<close>

fun unmap_lists :: "(scatterlist list \<times> bool) list \<Rightarrow> vring_virtqueue \<Rightarrow> vring_virtqueue option" where
  "unmap_lists [] vq = Some vq"
| "unmap_lists ((sg, dir) # r) vq = Option.bind (dma_unmap_sg sg dir vq) (unmap_lists r)"

fun map_lists ::
  "vq_env \<Rightarrow> nat \<Rightarrow> nat list \<Rightarrow> scatterlist list list \<Rightarrow> vring_virtqueue
    \<Rightarrow> (errno \<times> scatterlist list list \<times> vring_virtqueue) option" where
  "map_lists env out_sgs [] sgs vq = Some (EOK, sgs, vq)"
| "map_lists env out_sgs (n # ns) sgs vq =
     (case dma_map_sg env (sgs ! n) (\<not> n < out_sgs) vq of
        None \<Rightarrow> None
      | Some (err, sg, vq) \<Rightarrow>
          if err \<noteq> EOK
          then map_option (\<lambda>vq. (ENOMEM, sgs[n := sg], vq))
                 (unmap_lists (map (\<lambda>i. (sgs ! i, \<not> i < out_sgs)) [0..<n]) vq)
          else map_lists env out_sgs ns (sgs[n := sg]) vq)"

definition vring_map_sg ::
  "vq_env \<Rightarrow> scatterlist list list \<Rightarrow> nat \<Rightarrow> nat \<Rightarrow> nat \<Rightarrow> vring_virtqueue
    \<Rightarrow> (errno \<times> scatterlist list list \<times> vring_virtqueue) option" where
  "vring_map_sg env sgs total_sg out_sgs in_sgs vq =
     (let term0 = (\<lambda>b sgs. if b then map_option (\<lambda>sg. sgs[0 := sg]) (sg_terminate_arr (sgs ! 0) total_sg) else Some sgs)
      in case Option.bind (term0 (out_sgs = 1) sgs) (term0 (in_sgs = 1)) of
           None \<Rightarrow> None
         | Some sgs \<Rightarrow>
             if \<not> has_parent vq then Some (ENOMEM, sgs, vq)
             else map_lists env out_sgs [0..<out_sgs + in_sgs] sgs vq)"

section \<open>Kicking the other side\<close>

text \<open>\<open>vq->notify\<close> of the transport.\<close>

definition notify :: "vq_env \<Rightarrow> vring_virtqueue \<Rightarrow> bool \<times> vring_virtqueue" where
  "notify env vq = (env_notify env (notifications vq), vq\<lparr>notifications := notifications vq + 1\<rparr>)"

definition vca_virtqueue_kick_prepare :: "vring_virtqueue \<Rightarrow> bool \<times> vring_virtqueue" where
  "vca_virtqueue_kick_prepare vq =
     (let r = vring vq;
          old = avail_idx r - ucast (num_added vq);
          new = avail_idx r
      in (if event vq then vring_need_event (avail_event r) new old
          else used_flags r AND VRING_USED_F_NO_NOTIFY = 0,
          vq\<lparr>num_added := 0\<rparr>))"

definition vca_virtqueue_notify :: "vq_env \<Rightarrow> vring_virtqueue \<Rightarrow> bool \<times> vring_virtqueue" where
  "vca_virtqueue_notify env vq =
     (if broken vq then (False, vq)
      else
        (let (ok, vq) = notify env vq
         in if ok then (True, vq) else (False, vq\<lparr>broken := True\<rparr>)))"

definition vca_virtqueue_kick :: "vq_env \<Rightarrow> vring_virtqueue \<Rightarrow> bool \<times> vring_virtqueue" where
  "vca_virtqueue_kick env vq =
     (let (needs_kick, vq) = vca_virtqueue_kick_prepare vq
      in if needs_kick then vca_virtqueue_notify env vq else (True, vq))"

section \<open>Adding buffers\<close>

definition alloc_indirect :: "vq_env \<Rightarrow> nat \<Rightarrow> vring_virtqueue \<Rightarrow> (u64 \<times> vring_desc list) option \<times> vring_virtqueue" where
  "alloc_indirect env total_sg vq =
     (map_option (\<lambda>(pa, mem). (pa, map (\<lambda>i. (mem ! i)\<lparr>d_next := of_nat i + 1\<rparr>) [0..<total_sg]))
        (env_table env (alloc_calls vq) total_sg),
      vq\<lparr>alloc_calls := alloc_calls vq + 1\<rparr>)"

text \<open>
  The two loops of \<open>virtqueue_add\<close> over the scatter lists: the entries, each with its flags, address
  and length, fill the descriptors along the \<open>next\<close> fields. The result is the table, the
  descriptor after the last one, and the last one.
\<close>

fun fill_descs ::
  "vring_desc list \<Rightarrow> u32 \<Rightarrow> u32 \<Rightarrow> (u16 \<times> u64 \<times> u32) list \<Rightarrow> crash + (vring_desc list \<times> u32 \<times> u32)" where
  "fill_descs ds i prev [] = Inr (ds, i, prev)"
| "fill_descs ds i prev ((f, a, l) # r) =
     (if unat i < length ds then
        fill_descs (ds[unat i := (ds ! unat i)\<lparr>d_flags := f, d_addr := a, d_len := l\<rparr>])
          (ucast (d_next (ds ! unat i))) i r
      else Inl WILD_ACCESS)"

definition sg_segments :: "bool \<Rightarrow> nat \<Rightarrow> scatterlist list list \<Rightarrow> (u16 \<times> u64 \<times> u32) list option" where
  "sg_segments dma out_sgs sgs =
     (if list_all (\<lambda>sg. sg_entries sg \<noteq> None) sgs then
        Some (concat (map (\<lambda>n. map (\<lambda>s.
            (if n < out_sgs then VRING_DESC_F_NEXT else VRING_DESC_F_NEXT OR VRING_DESC_F_WRITE,
             if dma then dma_address s else sg_phys s, sg_length s)) (the (sg_entries (sgs ! n)))) [0..<length sgs]))
      else None)"

text \<open>The last descriptor of a chain does not continue.\<close>

definition end_chain :: "vring_desc list \<Rightarrow> u32 \<Rightarrow> vring_desc list" where
  "end_chain ds prev = ds[unat prev := (ds ! unat prev)\<lparr>d_flags := d_flags (ds ! unat prev) AND NOT VRING_DESC_F_NEXT\<rparr>]"

text \<open>
  The end of \<open>virtqueue_add\<close>: the new head of the free list, the token, the entry in the available
  ring, and its index.
\<close>

definition publish :: "vq_env \<Rightarrow> u32 \<Rightarrow> u32 \<Rightarrow> u64 \<Rightarrow> vring_virtqueue \<Rightarrow> vring_virtqueue" where
  "publish env h nxt dat vq =
     (let r = vring vq;
          avail = (ucast (avail_idx r) :: u32) AND (num vq - 1);
          vq = vq\<lparr>free_head := nxt, data := (data vq)[unat h := dat],
                  vring := r\<lparr>avail_ring := (avail_ring r)[unat avail := ucast h], avail_idx := avail_idx r + 1\<rparr>,
                  num_added := num_added vq + 1\<rparr>
      in if num_added vq = 0xFFFF then snd (vca_virtqueue_kick env vq) else vq)"

text \<open>
  \<open>virtqueue_add\<close> returns an error code, with the scatter lists as they are then; a queue that
  cannot take the buffer notifies the other side when there is something to read for it.
\<close>

definition virtqueue_add ::
  "vq_env \<Rightarrow> scatterlist list list \<Rightarrow> nat \<Rightarrow> nat \<Rightarrow> nat \<Rightarrow> u64 \<Rightarrow> vring_virtqueue
    \<Rightarrow> crash + (errno \<times> scatterlist list list \<times> vring_virtqueue)" where
  "virtqueue_add env sgs total_sg out_sgs in_sgs dat vq =
     (if dat = 0 then Inl BUG
      else if broken vq then Inr (EIO, sgs, vq)
      else if unat (num vq) < total_sg \<or> total_sg = 0 then Inl BUG
      else
        (let h = free_head vq;
             (table, vq) = (if indirect vq \<and> 1 < total_sg \<and> num_free vq \<noteq> 0
                            then alloc_indirect env total_sg vq else (None, vq));
             descs_used = (if table = None then total_sg else 1);
             vq = (case table of
                     None \<Rightarrow> vq
                   | Some (pa, ds) \<Rightarrow>
                       ring_upd (\<lambda>r. r\<lparr>desc := (desc r)[unat h := (desc r ! unat h)
                         \<lparr>d_flags := VRING_DESC_F_INDIRECT, d_addr := pa, d_len := of_nat (total_sg * 16)\<rparr>]\<rparr>)
                         (vq\<lparr>tables := (pa, ds) # tables vq\<rparr>))
         in if unat (num_free vq) < descs_used
            then Inr (ENOSPC, sgs, if out_sgs \<noteq> 0 then snd (notify env vq) else vq)
            else if length sgs < out_sgs + in_sgs then Inl WILD_ACCESS
            else
              (case (if dma_map vq then vring_map_sg env sgs total_sg out_sgs in_sgs vq else Some (EOK, sgs, vq)) of
                 None \<Rightarrow> Inl WILD_ACCESS
               | Some (err, sgs, vq) \<Rightarrow>
                   if err \<noteq> EOK then Inr (ENOMEM, sgs, vq)
                   else
                     (case sg_segments (dma_map vq) out_sgs (take (out_sgs + in_sgs) sgs) of
                        None \<Rightarrow> Inl WILD_ACCESS
                      | Some segs \<Rightarrow>
                          (let vq = vq\<lparr>num_free := num_free vq - of_nat descs_used\<rparr>
                           in case table of
                                None \<Rightarrow>
                                  (case fill_descs (desc (vring vq)) h 0 segs of
                                     Inl e \<Rightarrow> Inl e
                                   | Inr (ds, i, prev) \<Rightarrow>
                                       Inr (EOK, sgs,
                                         publish env h i dat (ring_upd (\<lambda>r. r\<lparr>desc := end_chain ds prev\<rparr>) vq)))
                              | Some (pa, ds) \<Rightarrow>
                                  (case fill_descs ds 0 0 segs of
                                     Inl e \<Rightarrow> Inl e
                                   | Inr (ds, i, prev) \<Rightarrow>
                                       Inr (EOK, sgs,
                                         publish env h (ucast (d_next (desc (vring vq) ! unat h))) dat
                                           (vq\<lparr>tables := (pa, end_chain ds prev) # tl (tables vq)\<rparr>)))))))) "

text \<open>The number of entries of several scatter lists.\<close>

definition vca_virtqueue_add_sgs ::
  "vq_env \<Rightarrow> scatterlist list list \<Rightarrow> nat \<Rightarrow> nat \<Rightarrow> u64 \<Rightarrow> vring_virtqueue
    \<Rightarrow> crash + (errno \<times> scatterlist list list \<times> vring_virtqueue)" where
  "vca_virtqueue_add_sgs env sgs out_sgs in_sgs dat vq =
     (if length sgs < out_sgs + in_sgs \<or> \<not> list_all (\<lambda>sg. sg_entries sg \<noteq> None) (take (out_sgs + in_sgs) sgs)
      then Inl WILD_ACCESS
      else virtqueue_add env sgs
             (sum_list (map (\<lambda>sg. length (the (sg_entries sg))) (take (out_sgs + in_sgs) sgs))) out_sgs in_sgs dat vq)"

definition vca_virtqueue_add_outbuf where
  "vca_virtqueue_add_outbuf env sg n dat vq = virtqueue_add env [sg] n 1 0 dat vq"

definition vca_virtqueue_add_inbuf where
  "vca_virtqueue_add_inbuf env sg n dat vq = virtqueue_add env [sg] n 0 1 dat vq"

section \<open>Taking buffers back\<close>

definition unmap_single :: "vring_desc \<Rightarrow> vring_virtqueue \<Rightarrow> vring_virtqueue" where
  "unmap_single d vq = dma_unmap_single (d_addr d) (d_len d) (d_flags d AND VRING_DESC_F_WRITE \<noteq> 0) vq"

text \<open>
  The loop of \<open>detach_buf\<close> along a chain to its last descriptor, with \<open>None\<close> when it has not ended
  after \<open>fuel\<close> rounds.
\<close>

fun detach_loop :: "nat \<Rightarrow> u32 \<Rightarrow> vring_virtqueue \<Rightarrow> (crash + (u32 \<times> vring_virtqueue)) option" where
  "detach_loop 0 i vq = None"
| "detach_loop (Suc fuel) i vq =
     (if \<not> unat i < length (desc (vring vq)) then Some (Inl WILD_ACCESS)
      else
        (let d = desc (vring vq) ! unat i
         in if d_flags d AND VRING_DESC_F_NEXT = 0 then Some (Inr (i, vq))
            else
              (let vq = (if dma_map vq then unmap_single d vq else vq)
               in detach_loop fuel (ucast (d_next d)) (vq\<lparr>num_free := num_free vq + 1\<rparr>))))"

definition detach_buf :: "nat \<Rightarrow> u32 \<Rightarrow> vring_virtqueue \<Rightarrow> (crash + vring_virtqueue) option" where
  "detach_buf fuel h vq =
     (if \<not> unat h < length (desc (vring vq)) then Some (Inl WILD_ACCESS)
      else
        (let d = desc (vring vq) ! unat h;
             vq = vq\<lparr>data := (data vq)[unat h := 0]\<rparr>;
             vq = (if d_flags d AND VRING_DESC_F_INDIRECT \<noteq> 0
                   then vq\<lparr>tables := filter (\<lambda>t. fst t \<noteq> d_addr d) (tables vq)\<rparr> else vq)
         in case detach_loop fuel h vq of
              None \<Rightarrow> None
            | Some (Inl e) \<Rightarrow> Some (Inl e)
            | Some (Inr (i, vq)) \<Rightarrow>
                (let ds = desc (vring vq);
                     vq = vq\<lparr>vring := (vring vq)\<lparr>desc := ds[unat i := (ds ! unat i)\<lparr>d_next := ucast (free_head vq)\<rparr>]\<rparr>,
                             free_head := h, num_free := num_free vq + 1\<rparr>
                 in Some (Inr (if dma_map vq then unmap_single (desc (vring vq) ! unat i) vq else vq)))))"

definition more_used :: "vring_virtqueue \<Rightarrow> bool" where
  "more_used vq = (last_used_idx vq \<noteq> used_idx (vring vq))"

text \<open>
  \<open>vca_virtqueue_get_buf\<close>: the token, 0 for none, and the length when it was read. An index that the
  other side made up breaks the queue.
\<close>

definition vca_virtqueue_get_buf ::
  "nat \<Rightarrow> vring_virtqueue \<Rightarrow> (crash + (u64 \<times> u32 option \<times> vring_virtqueue)) option" where
  "vca_virtqueue_get_buf fuel vq =
     (if broken vq then Some (Inr (0, None, vq))
      else if \<not> more_used vq then Some (Inr (0, None, vq))
      else
        (let last_used = (ucast (last_used_idx vq) :: u32) AND (num vq - 1);
             ue = used_ring (vring vq) ! unat last_used;
             i = ue_id ue
         in if num vq \<le> i then Some (Inr (0, Some (ue_len ue), vq\<lparr>broken := True\<rparr>))
            else if data vq ! unat i = 0 then Some (Inr (0, Some (ue_len ue), vq\<lparr>broken := True\<rparr>))
            else
              (case detach_buf fuel i vq of
                 None \<Rightarrow> None
               | Some (Inl e) \<Rightarrow> Some (Inl e)
               | Some (Inr vq') \<Rightarrow>
                   (let vq' = vq'\<lparr>last_used_idx := last_used_idx vq' + 1\<rparr>
                    in Some (Inr (data vq ! unat i, Some (ue_len ue),
                         if avail_flags (vring vq') AND VRING_AVAIL_F_NO_INTERRUPT = 0
                         then ring_upd (\<lambda>r. r\<lparr>used_event := last_used_idx vq'\<rparr>) vq' else vq'))))))"

definition vca_virtqueue_disable_cb :: "vring_virtqueue \<Rightarrow> vring_virtqueue" where
  "vca_virtqueue_disable_cb = ring_upd (\<lambda>r. r\<lparr>avail_flags := avail_flags r OR VRING_AVAIL_F_NO_INTERRUPT\<rparr>)"

definition vca_virtqueue_enable_cb_prepare :: "vring_virtqueue \<Rightarrow> u16 \<times> vring_virtqueue" where
  "vca_virtqueue_enable_cb_prepare vq =
     (last_used_idx vq,
      ring_upd (\<lambda>r. r\<lparr>avail_flags := avail_flags r AND NOT VRING_AVAIL_F_NO_INTERRUPT, used_event := last_used_idx vq\<rparr>) vq)"

definition vca_virtqueue_poll :: "u16 \<Rightarrow> vring_virtqueue \<Rightarrow> bool" where
  "vca_virtqueue_poll seen vq = (seen \<noteq> used_idx (vring vq))"

definition vca_virtqueue_enable_cb :: "vring_virtqueue \<Rightarrow> bool \<times> vring_virtqueue" where
  "vca_virtqueue_enable_cb vq =
     (let (seen, vq) = vca_virtqueue_enable_cb_prepare vq in (\<not> vca_virtqueue_poll seen vq, vq))"

text \<open>The product in \<open>bufs\<close> is computed in the wider type \<open>int\<close> and truncated to 16 bits.\<close>

definition vca_virtqueue_enable_cb_delayed :: "vring_virtqueue \<Rightarrow> bool \<times> vring_virtqueue" where
  "vca_virtqueue_enable_cb_delayed vq =
     (let r = vring vq;
          bufs = of_nat (unat (avail_idx r - last_used_idx vq) * 3 div 4) :: u16;
          vq = vq\<lparr>vring := r\<lparr>avail_flags := avail_flags r AND NOT VRING_AVAIL_F_NO_INTERRUPT,
                              used_event := last_used_idx vq + bufs\<rparr>\<rparr>
      in (\<not> bufs < used_idx r - last_used_idx vq, vq))"

text \<open>The loop of \<open>vca_virtqueue_detach_unused_buf\<close> over the heads.\<close>

fun detach_unused_loop :: "nat \<Rightarrow> nat list \<Rightarrow> vring_virtqueue \<Rightarrow> (crash + (u64 \<times> vring_virtqueue)) option" where
  "detach_unused_loop fuel [] vq = (if num_free vq \<noteq> num vq then Some (Inl BUG) else Some (Inr (0, vq)))"
| "detach_unused_loop fuel (i # is) vq =
     (if data vq ! i = 0 then detach_unused_loop fuel is vq
      else
        (case detach_buf fuel (of_nat i) vq of
           None \<Rightarrow> None
         | Some (Inl e) \<Rightarrow> Some (Inl e)
         | Some (Inr vq') \<Rightarrow>
             Some (Inr (data vq ! i, ring_upd (\<lambda>r. r\<lparr>avail_idx := avail_idx r - 1\<rparr>) vq'))))"

definition vca_virtqueue_detach_unused_buf :: "nat \<Rightarrow> vring_virtqueue \<Rightarrow> (crash + (u64 \<times> vring_virtqueue)) option" where
  "vca_virtqueue_detach_unused_buf fuel vq = detach_unused_loop fuel [0..<unat (num vq)] vq"

text \<open>The interrupt: whether it was for this queue.\<close>

definition vca_vring_interrupt :: "vring_virtqueue \<Rightarrow> bool \<times> vring_virtqueue" where
  "vca_vring_interrupt vq =
     (if \<not> more_used vq then (False, vq)
      else if broken vq then (True, vq)
      else (True, if has_callback vq then vq\<lparr>callbacks_run := callbacks_run vq + 1\<rparr> else vq))"

section \<open>Queues\<close>

abbreviation (input) virtio_has_feature :: "u64 \<Rightarrow> nat \<Rightarrow> bool" where
  "virtio_has_feature features b \<equiv> bit features b"

text \<open>
  A new queue on a ring in memory, which the transport has set up; \<open>mem\<close> is whether memory for the
  queue can be allocated. A length of 0 passes the test for powers of two.
\<close>

definition vca_vring_new_virtqueue ::
  "u32 \<Rightarrow> u64 \<Rightarrow> bool \<Rightarrow> bool \<Rightarrow> vring \<Rightarrow> bool \<Rightarrow> (crash + vring_virtqueue) option" where
  "vca_vring_new_virtqueue n features parent callback pages mem =
     (if n AND (n - 1) \<noteq> 0 then None
      else if \<not> mem then None
      else if length (desc pages) \<le> unat (n - 1) then Some (Inl WILD_ACCESS)
      else
        Some (Inr
          \<lparr>num = n, num_free = n,
           vring = pages
             \<lparr>avail_flags := (if callback then avail_flags pages else avail_flags pages OR VRING_AVAIL_F_NO_INTERRUPT),
              desc := map (\<lambda>i. if i < unat (n - 1) then (desc pages ! i)\<lparr>d_next := of_nat i + 1\<rparr> else desc pages ! i)
                [0..<length (desc pages)]\<rparr>,
           broken = False,
           indirect = virtio_has_feature features VIRTIO_RING_F_INDIRECT_DESC,
           event = virtio_has_feature features VIRTIO_RING_F_EVENT_IDX,
           dma_map = virtio_has_feature features VIRTIO_RING_F_DMA_MAP,
           has_parent = parent, has_callback = callback, free_head = 0, num_added = 0, last_used_idx = 0,
           data = replicate (unat n) 0, tables = [], mapped = [],
           dma_calls = 0, alloc_calls = 0, notifications = 0, callbacks_run = 0\<rparr>))"

text \<open>The transport features that the ring supports; indirect tables and DMA mapping exclude each other.\<close>

definition vca_vring_transport_features :: "u64 \<Rightarrow> u64" where
  "vca_vring_transport_features features =
     (let f = fold (\<lambda>i f. if i = VIRTIO_RING_F_INDIRECT_DESC \<or> i = VIRTIO_RING_F_EVENT_IDX \<or> i = VIRTIO_F_VERSION_1
                \<or> i = VIRTIO_RING_F_DMA_MAP then f else unset_bit i f) [28..<33] features
      in if virtio_has_feature f VIRTIO_RING_F_DMA_MAP \<and> virtio_has_feature f VIRTIO_RING_F_INDIRECT_DESC
         then unset_bit VIRTIO_RING_F_INDIRECT_DESC f else f)"

definition vca_virtqueue_get_vring_size :: "vring_virtqueue \<Rightarrow> u32" where
  "vca_virtqueue_get_vring_size vq = num vq"

definition vca_virtqueue_is_broken :: "vring_virtqueue \<Rightarrow> bool" where
  "vca_virtqueue_is_broken vq = broken vq"

definition vca_virtio_break_device :: "vring_virtqueue list \<Rightarrow> vring_virtqueue list" where
  "vca_virtio_break_device = map (\<lambda>vq. vq\<lparr>broken := True\<rparr>)"

section \<open>Failed mappings\<close>

text \<open>
  C36. When the middle one of three entries cannot be mapped, \<open>vring_map_sg\<close> reports the failure, undoes
  the mapping of the first entry, goes on with the third one and leaves it mapped, although the caller
  is told that nothing is.
\<close>

theorem vring_map_failure_leaks:
  assumes "has_parent vq"
    and "env_map env (dma_calls vq) (sg_virt a) (sg_length a) False \<noteq> 0"
    and "env_map env (dma_calls vq + 1) (sg_virt b) (sg_length b) False = 0"
    and "env_map env (dma_calls vq + 2) (sg_virt c) (sg_length c) False = z" and "z \<noteq> 0"
  shows "\<exists>sgs vq'. vring_map_sg env [[a, b, c]] 3 1 0 vq = Some (ENOMEM, sgs, vq')
    \<and> mapped vq' = (z, sg_length c, False) # mapped vq"
  using assms
  by (simp add: vring_map_sg_def sg_terminate_arr_def dma_map_sg_def dma_map_single_def dma_unmap_single_def upt_rec numeral_3_eq_3 Let_def)

definition leak_env :: vq_env where
  "leak_env = \<lparr>env_map = (\<lambda>k _ _ _. if k = 1 then 0 else 0x7000 + of_nat k), env_table = (\<lambda>_ _. None), env_notify = (\<lambda>_. True)\<rparr>"

definition leak_sg :: scatterlist where
  "leak_sg = \<lparr>sg_virt = 0x1000, sg_phys = 0x5000, sg_length = 64, sg_end = False, dma_address = 0\<rparr>"

definition leak_vq :: vring_virtqueue where
  "leak_vq = \<lparr>num = 4, num_free = 4, vring = \<lparr>desc = [], avail_flags = 0, avail_idx = 0, avail_ring = [], used_event = 0,
       used_flags = 0, used_idx = 0, used_ring = [], avail_event = 0\<rparr>,
     broken = False, indirect = False, event = False, dma_map = True, has_parent = True, has_callback = True,
     free_head = 0, num_added = 0, last_used_idx = 0, data = [0, 0, 0, 0], tables = [], mapped = [], dma_calls = 0,
     alloc_calls = 0, notifications = 0, callbacks_run = 0\<rparr>"

theorem vring_map_failure_leaks_witness:
  "\<exists>sgs vq'. vring_map_sg leak_env [[leak_sg, leak_sg, leak_sg]] 3 1 0 leak_vq = Some (ENOMEM, sgs, vq')
     \<and> mapped vq' = [(0x7002, 64, False)]"
  using vring_map_failure_leaks [where vq = leak_vq and env = leak_env and a = leak_sg and b = leak_sg and c = leak_sg and z = "0x7002"]
  by (simp add: leak_env_def leak_sg_def leak_vq_def)

end
