(* ===== verification/Vringh.thy ===== *)
theory Vringh
  imports Vring
begin

text \<open>
  The other side of a virtio ring (\<open>vca_virtio/vca_vringh.c\<close>): it takes heads from the ring of
  available ones, follows their chains of descriptors into vectors of buffers, and gives used
  chains back. The functions are those for rings in kernel memory, the ones the virtio transport of
  the card calls: their accessors read and write memory and do not fail, and they do not check or
  translate addresses.
\<close>

unbundle bit_operations_syntax

section \<open>State\<close>

record vringh =
  event_indices :: bool
  last_avail_idx :: u16
  vh_last_used_idx :: u16
  completed :: u32
  vh_num :: u32

text \<open>A vector of buffers; the array has the length of \<open>max_num\<close> without the flag for allocated memory.\<close>

record kvec =
  iov_base :: u64
  iov_len :: u64

record vringh_kiov =
  iov :: "kvec list"
  iov_consumed :: u64
  iov_i :: u32
  iov_used :: u32
  max_num :: u32

abbreviation (input) VRINGH_IOV_ALLOCATED :: u32 where "VRINGH_IOV_ALLOCATED \<equiv> 0x8000000"

definition vca_vringh_init_kern :: "u64 \<Rightarrow> u32 \<Rightarrow> errno + vringh" where
  "vca_vringh_init_kern features n =
     (if n = 0 \<or> 0xffff < n \<or> n AND (n - 1) \<noteq> 0 then Inl EINVAL
      else Inr \<lparr>event_indices = bit features VIRTIO_RING_F_EVENT_IDX, last_avail_idx = 0, vh_last_used_idx = 0,
                completed = 0, vh_num = n\<rparr>)"

section \<open>Taking chains\<close>

text \<open>The next head, the number of descriptors when there is none.\<close>

definition vringh_get_head :: "vringh \<Rightarrow> vring \<Rightarrow> errno + (u32 \<times> vringh)" where
  "vringh_get_head vrh r =
     (if last_avail_idx vrh = avail_idx r then Inr (vh_num vrh, vrh)
      else
        (let i = (ucast (last_avail_idx vrh) :: u32) AND (vh_num vrh - 1);
             h = ucast (avail_ring r ! unat i)
         in if vh_num vrh \<le> h then Inl EINVAL
            else Inr (h, vrh\<lparr>last_avail_idx := last_avail_idx vrh + 1\<rparr>)))"

text \<open>
  Where descriptors are read: the ring, or an indirect table at an address. The contents of memory
  are a parameter.
\<close>

datatype descs = Ring_Descs | Table_At u64

definition copydesc_kern :: "(u64 \<Rightarrow> nat \<Rightarrow> vring_desc) \<Rightarrow> vring \<Rightarrow> descs \<Rightarrow> u16 \<Rightarrow> crash + vring_desc" where
  "copydesc_kern mem r ds i =
     (case ds of
        Ring_Descs \<Rightarrow> if unat i < length (desc r) then Inr (desc r ! unat i) else Inl WILD_ACCESS
      | Table_At a \<Rightarrow> Inr (mem a (unat i)))"

text \<open>
  \<open>up_next\<close> is -1 in the ring, -2 in a table after which the chain ends, otherwise the descriptor of
  the ring to go on with.
\<close>

definition move_to_indirect :: "int \<Rightarrow> u64 \<Rightarrow> vring_desc \<Rightarrow> errno + (int \<times> descs \<times> int)" where
  "move_to_indirect up_next addr d =
     (if up_next \<noteq> - 1 then Inl EINVAL
      else if d_len d mod 16 \<noteq> 0 then Inl EINVAL
      else Inr (if d_flags d AND VRING_DESC_F_NEXT \<noteq> 0 then int (unat (d_next d)) else - 2,
                Table_At addr, int (unat (d_len d div 16))))"

definition return_from_indirect :: "vringh \<Rightarrow> int \<Rightarrow> u16 \<times> int \<times> descs \<times> int" where
  "return_from_indirect vrh up_next = (of_int up_next, - 1, Ring_Descs, int (unat (vh_num vrh)))"

text \<open>A larger array, when memory for it can be had; the new entries are written before they are read.\<close>

definition resize_iovec :: "bool \<Rightarrow> vringh_kiov \<Rightarrow> errno + vringh_kiov" where
  "resize_iovec mem v =
     (let new_num = (max_num v AND NOT VRINGH_IOV_ALLOCATED) * 2;
          new_num = (if new_num < 8 then 8 else new_num)
      in if \<not> mem then Inl ENOMEM
         else Inr (v\<lparr>iov := take (unat new_num) (iov v @ replicate (unat new_num) \<lparr>iov_base = 0, iov_len = 0\<rparr>),
                     max_num := new_num OR VRINGH_IOV_ALLOCATED\<rparr>))"

text \<open>One buffer at the end of a vector.\<close>

definition iov_push :: "bool \<Rightarrow> u64 \<Rightarrow> u64 \<Rightarrow> vringh_kiov \<Rightarrow> errno + vringh_kiov" where
  "iov_push mem addr n v =
     (case (if iov_used v = max_num v AND NOT VRINGH_IOV_ALLOCATED then resize_iovec mem v else Inr v) of
        Inl e \<Rightarrow> Inl e
      | Inr v \<Rightarrow> Inr (v\<lparr>iov := (iov v)[unat (iov_used v) := \<lparr>iov_base = addr, iov_len = n\<rparr>], iov_used := iov_used v + 1\<rparr>))"

text \<open>
  The loop of \<open>__vringh_iov\<close>. A vector that the caller does not want is \<open>None\<close>; whether an allocation
  succeeds is a parameter, by the number of descriptors before. The result is \<open>None\<close> when the loop has
  not ended after \<open>fuel\<close> rounds.
\<close>

fun vringh_iov_loop ::
  "(u64 \<Rightarrow> nat \<Rightarrow> vring_desc) \<Rightarrow> (nat \<Rightarrow> bool) \<Rightarrow> vringh \<Rightarrow> vring \<Rightarrow> nat \<Rightarrow> u16 \<Rightarrow> nat \<Rightarrow> int \<Rightarrow> descs \<Rightarrow> int
    \<Rightarrow> vringh_kiov option \<Rightarrow> vringh_kiov option
    \<Rightarrow> (crash + (errno \<times> vringh_kiov option \<times> vringh_kiov option)) option" where
  "vringh_iov_loop mem alloc vrh r 0 i count up_next ds desc_max riov wiov = None"
| "vringh_iov_loop mem alloc vrh r (Suc fuel) i count up_next ds desc_max riov wiov =
     (case copydesc_kern mem r ds i of
        Inl e \<Rightarrow> Some (Inl e)
      | Inr d \<Rightarrow>
          if d_flags d AND VRING_DESC_F_INDIRECT \<noteq> 0 then
            (case move_to_indirect up_next (d_addr d) d of
               Inl e \<Rightarrow> Some (Inr (e, riov, wiov))
             | Inr (up_next, ds, desc_max) \<Rightarrow> vringh_iov_loop mem alloc vrh r fuel 0 count up_next ds desc_max riov wiov)
          else if count = unat (vh_num vrh) then Some (Inr (ELOOP, riov, wiov))
          else
            (let write = (d_flags d AND VRING_DESC_F_WRITE \<noteq> 0)
             in if \<not> write \<and> (case wiov of None \<Rightarrow> False | Some w \<Rightarrow> iov_i w \<noteq> 0)
                then Some (Inr (EINVAL, riov, wiov))
                else
                  (case (if write then wiov else riov) of
                     None \<Rightarrow> Some (Inr (EPROTO, riov, wiov))
                   | Some v \<Rightarrow>
                       (case iov_push (alloc count) (d_addr d) (ucast (d_len d)) v of
                          Inl e \<Rightarrow> Some (Inr (e, riov, wiov))
                        | Inr v \<Rightarrow>
                            (let riov = (if write then riov else Some v);
                                 wiov = (if write then Some v else wiov)
                             in case (if d_flags d AND VRING_DESC_F_NEXT \<noteq> 0 then Some (d_next d, up_next, ds, desc_max)
                                      else if 0 < up_next then Some (return_from_indirect vrh up_next)
                                      else None) of
                                  None \<Rightarrow> Some (Inr (EOK, riov, wiov))
                                | Some (i, up_next, ds, desc_max) \<Rightarrow>
                                    if desc_max \<le> int (unat i) then Some (Inr (EINVAL, riov, wiov))
                                    else vringh_iov_loop mem alloc vrh r fuel i (count + 1) up_next ds desc_max riov wiov)))))"

text \<open>Only the first of the two vectors is made empty.\<close>

definition vringh_iov ::
  "(u64 \<Rightarrow> nat \<Rightarrow> vring_desc) \<Rightarrow> (nat \<Rightarrow> bool) \<Rightarrow> nat \<Rightarrow> vringh \<Rightarrow> vring \<Rightarrow> u16 \<Rightarrow> vringh_kiov option \<Rightarrow> vringh_kiov option
    \<Rightarrow> (crash + (errno \<times> vringh_kiov option \<times> vringh_kiov option)) option" where
  "vringh_iov mem alloc fuel vrh r i riov wiov =
     (let start = vringh_iov_loop mem alloc vrh r fuel i 0 (- 1) Ring_Descs (int (unat (vh_num vrh)))
      in case (riov, wiov) of
           (Some v, _) \<Rightarrow> start (Some (v\<lparr>iov_i := 0, iov_used := 0\<rparr>)) wiov
         | (None, Some w) \<Rightarrow> start None (Some (w\<lparr>iov_i := 0, iov_used := 0\<rparr>))
         | (None, None) \<Rightarrow> Some (Inl BUG))"

text \<open>
  \<open>vca_vringh_getdesc_kern\<close> returns 0 when there is no head (\<open>Inr None\<close>) and 1 with a head.
\<close>

definition vca_vringh_getdesc_kern ::
  "(u64 \<Rightarrow> nat \<Rightarrow> vring_desc) \<Rightarrow> (nat \<Rightarrow> bool) \<Rightarrow> nat \<Rightarrow> vring \<Rightarrow> vringh_kiov option \<Rightarrow> vringh_kiov option \<Rightarrow> vringh
    \<Rightarrow> (crash + ((errno + u16 option) \<times> vringh_kiov option \<times> vringh_kiov option \<times> vringh)) option" where
  "vca_vringh_getdesc_kern mem alloc fuel r riov wiov vrh =
     (case vringh_get_head vrh r of
        Inl e \<Rightarrow> Some (Inr (Inl e, riov, wiov, vrh))
      | Inr (h, vrh) \<Rightarrow>
          if h = vh_num vrh then Some (Inr (Inr None, riov, wiov, vrh))
          else
            (case vringh_iov mem alloc fuel vrh r (ucast h) riov wiov of
               None \<Rightarrow> None
             | Some (Inl e) \<Rightarrow> Some (Inl e)
             | Some (Inr (err, riov, wiov)) \<Rightarrow>
                 Some (Inr (if err = EOK then Inr (Some (ucast h)) else Inl err, riov, wiov, vrh))))"

definition vca_vringh_abandon_kern :: "u32 \<Rightarrow> vringh \<Rightarrow> vringh" where
  "vca_vringh_abandon_kern n vrh = vrh\<lparr>last_avail_idx := last_avail_idx vrh - ucast n\<rparr>"

section \<open>Giving chains back\<close>

text \<open>
  \<open>__vringh_complete\<close> for several entries: those that do not fit before the end of the ring are
  written at its start.
\<close>

definition putused :: "vring_used_elem list \<Rightarrow> nat \<Rightarrow> vring \<Rightarrow> vring" where
  "putused us off r = r\<lparr>used_ring := take off (used_ring r) @ us @ drop (off + length us) (used_ring r)\<rparr>"

definition vringh_complete :: "vring_used_elem list \<Rightarrow> vringh \<Rightarrow> vring \<Rightarrow> vringh \<times> vring" where
  "vringh_complete us vrh r =
     (let used_idx0 = vh_last_used_idx vrh + ucast (completed vrh);
          off = unat used_idx0 mod unat (vh_num vrh);
          n = length us;
          part = unat (vh_num vrh) - off;
          r = (if 1 < n \<and> unat (vh_num vrh) \<le> off + n
               then putused (drop part us) 0 (putused (take part us) off r)
               else putused us off r)
      in (vrh\<lparr>completed := completed vrh + of_nat n\<rparr>, r\<lparr>used_idx := used_idx0 + of_nat n\<rparr>))"

definition vca_vringh_complete_kern :: "u16 \<Rightarrow> u32 \<Rightarrow> vringh \<Rightarrow> vring \<Rightarrow> vringh \<times> vring" where
  "vca_vringh_complete_kern h n vrh r = vringh_complete [\<lparr>ue_id = ucast h, ue_len = n\<rparr>] vrh r"

definition vca_vringh_need_notify_kern :: "vring \<Rightarrow> vringh \<Rightarrow> bool \<times> vringh" where
  "vca_vringh_need_notify_kern r vrh =
     (if \<not> event_indices vrh then (avail_flags r AND VRING_AVAIL_F_NO_INTERRUPT = 0, vrh)
      else
        (0xffff < completed vrh \<or>
           vring_need_event (used_event r) (vh_last_used_idx vrh + ucast (completed vrh)) (vh_last_used_idx vrh),
         vrh\<lparr>vh_last_used_idx := vh_last_used_idx vrh + ucast (completed vrh), completed := 0\<rparr>))"

definition vca_vringh_notify_enable_kern :: "vringh \<Rightarrow> vring \<Rightarrow> bool \<times> vring" where
  "vca_vringh_notify_enable_kern vrh r =
     (avail_idx r = last_avail_idx vrh,
      if \<not> event_indices vrh then r\<lparr>used_flags := 0\<rparr> else r\<lparr>avail_event := last_avail_idx vrh\<rparr>)"

definition vca_vringh_notify_disable_kern :: "vringh \<Rightarrow> vring \<Rightarrow> vring" where
  "vca_vringh_notify_disable_kern vrh r =
     (if \<not> event_indices vrh then r\<lparr>used_flags := VRING_USED_F_NO_NOTIFY\<rparr> else r)"

section \<open>Copying bytes\<close>

definition vringh_kiov_init :: "kvec list \<Rightarrow> u32 \<Rightarrow> vringh_kiov" where
  "vringh_kiov_init v n = \<lparr>iov = v, iov_consumed = 0, iov_i = 0, iov_used = 0, max_num = n\<rparr>"

definition vringh_kiov_reset :: "vringh_kiov \<Rightarrow> vringh_kiov" where
  "vringh_kiov_reset v =
     (let e = iov v ! unat (iov_i v)
      in v\<lparr>iov := (iov v)[unat (iov_i v) := \<lparr>iov_base = iov_base e - iov_consumed v, iov_len = iov_len e + iov_consumed v\<rparr>],
           iov_consumed := 0, iov_i := 0\<rparr>)"

definition vringh_kiov_cleanup :: "vringh_kiov" where
  "vringh_kiov_cleanup = \<lparr>iov = [], iov_consumed = 0, iov_i = 0, iov_used = 0, max_num = 0\<rparr>"

text \<open>
  \<open>vringh_iov_xfer\<close>: the pieces it copies, as pairs of an address in the vector and an offset in
  the buffer of the caller with a length. The loop ends since every round passes a buffer of the
  vector or ends the copy; \<open>fuel\<close> bounds its rounds.
\<close>

fun vringh_iov_xfer :: "nat \<Rightarrow> u64 \<Rightarrow> u64 \<Rightarrow> vringh_kiov \<Rightarrow> ((u64 \<times> u64 \<times> u64) list \<times> vringh_kiov) option" where
  "vringh_iov_xfer 0 ptr n v = None"
| "vringh_iov_xfer (Suc fuel) ptr n v =
     (if n = 0 \<or> iov_used v \<le> iov_i v then Some ([], v)
      else
        (let k = unat (iov_i v);
             e = iov v ! k;
             partlen = min (iov_len e) n;
             consumed = iov_consumed v + partlen;
             v' = (if iov_len e = partlen
                   then v\<lparr>iov := (iov v)[k := \<lparr>iov_base = iov_base e + partlen - consumed, iov_len = consumed\<rparr>],
                          iov_consumed := 0, iov_i := iov_i v + 1\<rparr>
                   else v\<lparr>iov := (iov v)[k := \<lparr>iov_base = iov_base e + partlen, iov_len = iov_len e - partlen\<rparr>],
                          iov_consumed := consumed\<rparr>)
         in map_option (\<lambda>(ps, v). ((iov_base e, ptr, partlen) # ps, v))
              (vringh_iov_xfer fuel (ptr + partlen) (n - partlen) v')))"

end
