(* ===== verification/Vring_Chain.thy ===== *)
theory Vring_Chain
  imports Virtqueue Vringh
begin

text \<open>
  The descriptor table of a virtio ring as the driver keeps it: paths and chains of descriptors,
  what mapping does to scatter lists, and the invariant of a queue, by which the free list and the
  chains in flight share out the table. Adding a buffer keeps the invariant.
\<close>

unbundle bit_operations_syntax

lemma unat_u16_less: "unat (w :: u16) < 65536"
  using unsigned_less [of w, where 'a = nat] by simp

lemma unat_ucast_u16: "unat (ucast (w :: u16) :: u32) = unat w"
  using unat_u16_less [of w] by (simp add: unsigned_ucast_eq take_bit_nat_eq_self)

section \<open>Paths and chains in the descriptor table\<close>

text \<open>
  A path along the \<open>next\<close> fields, as for linked lists on a heap: the list of its descriptors
  and where it leads.
\<close>

fun dpath :: "vring_desc list \<Rightarrow> nat \<Rightarrow> nat list \<Rightarrow> nat \<Rightarrow> bool" where
  "dpath ds x [] y \<longleftrightarrow> x = y"
| "dpath ds x (a # as) y \<longleftrightarrow> x = a \<and> a < length ds \<and> dpath ds (unat (d_next (ds ! a))) as y"

lemma dpath_append: "dpath ds x (as @ bs) z \<longleftrightarrow> (\<exists>y. dpath ds x as y \<and> dpath ds y bs z)"
  by (induction as arbitrary: x) auto

lemma dpath_cong:
  "(\<And>a. a \<in> set as \<Longrightarrow> d_next (ds' ! a) = d_next (ds ! a)) \<Longrightarrow> length ds' = length ds \<Longrightarrow>
     dpath ds' x as y = dpath ds x as y"
  by (induction as arbitrary: x) auto

lemma dpath_less: "dpath ds x as y \<Longrightarrow> a \<in> set as \<Longrightarrow> a < length ds"
  by (induction as arbitrary: x) auto

text \<open>A buffer: whether the other side writes to it, its address and its length.\<close>

type_synonym segment = "bool \<times> u64 \<times> u32"

definition seg_flags :: "bool \<Rightarrow> bool \<Rightarrow> u16" where
  "seg_flags m w = (if m then 1 else 0) + (if w then 2 else 0)"

definition holds :: "vring_desc \<Rightarrow> bool \<Rightarrow> segment \<Rightarrow> bool" where
  "holds d m s = (case s of (w, a, l) \<Rightarrow> d_flags d = seg_flags m w \<and> d_addr d = a \<and> d_len d = l)"

text \<open>A chain of descriptors that holds some buffers.\<close>

fun chain_ok :: "vring_desc list \<Rightarrow> nat list \<Rightarrow> segment list \<Rightarrow> bool" where
  "chain_ok ds [] ss \<longleftrightarrow> False"
| "chain_ok ds [a] ss \<longleftrightarrow> (\<exists>s. ss = [s] \<and> a < length ds \<and> holds (ds ! a) False s)"
| "chain_ok ds (a # b # as) ss \<longleftrightarrow>
     (\<exists>s ss'. ss = s # ss' \<and> a < length ds \<and> holds (ds ! a) True s \<and> unat (d_next (ds ! a)) = b \<and> chain_ok ds (b # as) ss')"

lemma chain_ok_length: "chain_ok ds as ss \<Longrightarrow> length ss = length as \<and> as \<noteq> []"
  by (induction ds as ss rule: chain_ok.induct) auto

lemma chain_ok_cong:
  "(\<And>a. a \<in> set as \<Longrightarrow> ds' ! a = ds ! a) \<Longrightarrow> length ds' = length ds \<Longrightarrow> chain_ok ds' as ss = chain_ok ds as ss"
  by (induction ds as ss rule: chain_ok.induct) auto

lemma chain_ok_less: "chain_ok ds as ss \<Longrightarrow> a \<in> set as \<Longrightarrow> a < length ds"
  by (induction ds as ss rule: chain_ok.induct) auto

lemma chain_ok_path: "chain_ok ds as ss \<Longrightarrow> dpath ds (hd as) as (unat (d_next (ds ! last as)))"
proof (induction ds as ss rule: chain_ok.induct)
  case (3 ds a b as ss)
  then obtain ss' where "a < length ds" "unat (d_next (ds ! a)) = b" "chain_ok ds (b # as) ss'" by auto
  then show ?case using "3.IH" by simp
qed auto

lemma seg_flags_bits [simp]:
  "seg_flags m w AND 1 = 0 \<longleftrightarrow> \<not> m" "seg_flags m w AND 2 = 0 \<longleftrightarrow> \<not> w" "seg_flags m w AND 4 = 0"
  "seg_flags True w AND - 2 = seg_flags False w"
  by (cases m; cases w; simp add: seg_flags_def)+

definition enc :: "segment \<Rightarrow> u16 \<times> u64 \<times> u32" where
  "enc s = (case s of (w, a, l) \<Rightarrow> (seg_flags True w, a, l))"

lemma end_chain_nth:
  "unat p < length ds \<Longrightarrow> j \<noteq> unat p \<Longrightarrow> end_chain ds p ! j = ds ! j"
  "unat p < length ds \<Longrightarrow> end_chain ds p ! unat p = (ds ! unat p)\<lparr>d_flags := d_flags (ds ! unat p) AND NOT 1\<rparr>"
  "length (end_chain ds p) = length ds"
  by (simp_all add: end_chain_def)

lemma fill_descs_chain:
  assumes "dpath ds (unat i) (xs @ fs) y" and "distinct xs" and "set xs \<inter> set fs = {}" and "length xs = length ss"
    and "ss \<noteq> []" and "length ds \<le> 65536"
  shows "\<exists>ds' i'. fill_descs ds i prev (map enc ss) = Inr (ds', i', of_nat (last xs)) \<and> length ds' = length ds
    \<and> (\<forall>j. j \<notin> set xs \<longrightarrow> ds' ! j = ds ! j) \<and> dpath ds' (unat i') fs y \<and> unat i' < 65536
    \<and> chain_ok (end_chain ds' (of_nat (last xs))) xs ss"
  using assms
proof (induction ss arbitrary: ds i xs prev)
  case (Cons s ss)
  obtain a xs' where xs: "xs = a # xs'" using Cons.prems(4) by (cases xs) auto
  obtain w ad l where s: "s = (w, ad, l)" by (cases s)
  let ?i = "ucast (d_next (ds ! a)) :: u32"
  let ?ds = "ds[a := (ds ! a)\<lparr>d_flags := seg_flags True w, d_addr := ad, d_len := l\<rparr>]"
  have ia: "unat i = a" "a < length ds" "dpath ds (unat (d_next (ds ! a))) (xs' @ fs) y" and na: "a \<notin> set xs'" "a \<notin> set fs"
    using Cons.prems(1-3) by (auto simp: xs)
  have step: "fill_descs ds i prev (map enc (s # ss)) = fill_descs ?ds ?i i (map enc ss)"
    using ia by (simp add: s enc_def)
  have ui: "unat ?i = unat (d_next (ds ! a))" by (rule unat_ucast_u16)
  then have ui': "unat ?i < 65536" using unsigned_less [of "d_next (ds ! a)", where 'a = nat] by simp
  have p: "dpath ?ds (unat ?i) (xs' @ fs) y"
    unfolding ui using ia(3) na by (subst dpath_cong [where ds = ds]) (auto intro!: arg_cong [where f = d_next] nth_list_update_neq)
  have iu: "i = of_nat a" unfolding ia(1) [symmetric] by simp
  show ?case
  proof (cases "ss = []")
    case True
    then have "xs' = []" using Cons.prems(4) by (simp add: xs)
    then show ?thesis
      using True step p ia na ui' by (auto simp: xs s iu [symmetric] holds_def end_chain_def)
  next
    case False
    obtain b bs where xs': "xs' = b # bs" using False Cons.prems(4) by (cases xs') (auto simp: xs)
    obtain ds' i' where r: "fill_descs ?ds ?i i (map enc ss) = Inr (ds', i', of_nat (last xs'))" "length ds' = length ds"
      "\<forall>j. j \<notin> set xs' \<longrightarrow> ds' ! j = ?ds ! j" "dpath ds' (unat i') fs y" "unat i' < 65536"
      "chain_ok (end_chain ds' (of_nat (last xs'))) xs' ss"
      using Cons.IH [OF p, of i] Cons.prems False by (auto simp: xs)
    have last: "last xs' \<in> set xs'" by (simp add: xs')
    then have "last xs' < length ds" using dpath_less [OF p] by auto
    then have l: "unat (of_nat (last xs') :: u32) = last xs'"
      using Cons.prems(6) by (intro unat_of_nat_small) simp
    have e: "end_chain ds' (of_nat (last xs')) ! a = ?ds ! a"
      using end_chain_nth(1) [of "of_nat (last xs')" ds' a] r(2,3) l last na \<open>last xs' < length ds\<close> by auto
    have "unat (d_next (ds ! a)) = b" using ia(3) by (simp add: xs')
    then have "chain_ok (end_chain ds' (of_nat (last xs'))) (a # b # bs) (s # ss)"
      using r(6) e ia(2) r(2) by (simp add: xs' s holds_def end_chain_nth(3))
    then show ?thesis
      using step r ia(2) na by (auto simp: xs xs')
  qed
qed simp

text \<open>The DMA mapping of a buffer, and the mappings left when some are undone.\<close>

definition seg_mapping :: "segment \<Rightarrow> dma_mapping" where
  "seg_mapping s = (case s of (w, a, l) \<Rightarrow> (a, l, w))"

definition unmap_segs :: "bool \<Rightarrow> segment list \<Rightarrow> dma_mapping list \<Rightarrow> dma_mapping list" where
  "unmap_segs dma ss m = (if dma then fold (\<lambda>s. remove1 (seg_mapping s)) ss m else m)"

lemma unmap_segs_simps [simp]:
  "unmap_segs dma [] m = m"
  "unmap_segs dma (s # ss) m = unmap_segs dma ss (if dma then remove1 (seg_mapping s) m else m)"
  "unmap_segs dma (ss @ ss') m = unmap_segs dma ss' (unmap_segs dma ss m)"
  by (simp_all add: unmap_segs_def)

lemma unmap_single_holds: "holds d m s \<Longrightarrow> unmap_single d vq = vq\<lparr>mapped := remove1 (seg_mapping s) (mapped vq)\<rparr>"
  by (cases s) (simp add: holds_def unmap_single_def dma_unmap_single_def seg_mapping_def)

lemma detach_loop_chain:
  assumes "chain_ok (desc (vring vq)) as ss" and "length as \<le> fuel" and "unat i = hd as" and "length (desc (vring vq)) \<le> 65536"
  shows "detach_loop fuel i vq = Some (Inr (of_nat (last as),
    vq\<lparr>num_free := num_free vq + of_nat (length as - 1), mapped := unmap_segs (dma_map vq) (butlast ss) (mapped vq)\<rparr>))"
  using assms
proof (induction as arbitrary: ss fuel i vq)
  case (Cons a as)
  let ?ds = "desc (vring vq)"
  obtain f where f: "fuel = Suc f" using Cons.prems(2) by (cases fuel) auto
  have ia: "unat i = a" "a < length ?ds" using Cons.prems(1,3) chain_ok_less [of ?ds "a # as" ss a] by auto
  have iu: "of_nat a = i" unfolding ia(1) [symmetric] by simp
  show ?case
  proof (cases as)
    case Nil
    then obtain s where "ss = [s]" "holds (?ds ! a) False s" using Cons.prems(1) by auto
    then show ?thesis using Nil ia iu by (cases s) (simp add: f Let_def holds_def)
  next
    case (Cons b bs)
    then obtain s ss' where ss: "ss = s # ss'" "holds (?ds ! a) True s" "unat (d_next (?ds ! a)) = b" "chain_ok ?ds as ss'"
      using Cons.prems(1) by auto
    let ?vq = "if dma_map vq then unmap_single (?ds ! a) vq else vq"
    let ?vq' = "?vq\<lparr>num_free := num_free ?vq + 1\<rparr>"
    have vq: "?vq = vq\<lparr>mapped := unmap_segs (dma_map vq) [s] (mapped vq)\<rparr>"
      by (simp add: unmap_single_holds [OF ss(2)])
    have ss': "ss' \<noteq> []" using chain_ok_length [OF ss(4)] by auto
    have step: "detach_loop fuel i vq = detach_loop f (ucast (d_next (?ds ! a))) ?vq'"
      using ia ss(2) by (cases s) (simp add: f Let_def holds_def)
    have d: "desc (vring ?vq') = ?ds" unfolding vq by simp
    have "detach_loop f (ucast (d_next (?ds ! a))) ?vq' = Some (Inr (of_nat (last as),
        ?vq'\<lparr>num_free := num_free ?vq' + of_nat (length as - 1),
             mapped := unmap_segs (dma_map ?vq') (butlast ss') (mapped ?vq')\<rparr>))"
    proof (rule Cons.IH)
      show "chain_ok (desc (vring ?vq')) as ss'" using ss(4) d by simp
      show "length (desc (vring ?vq')) \<le> 65536" using Cons.prems(4) d by simp
    qed (use Cons.prems(2) ss(3) Cons in \<open>simp_all add: f unat_ucast_u16\<close>)
    then show ?thesis
      unfolding step vq using Cons ss(1) ss' by simp
  qed
qed simp

section \<open>Mapping scatter lists\<close>

text \<open>Mapping changes the DMA addresses of the entries and the ledger of mappings, nothing else.\<close>

definition sg_like :: "scatterlist list \<Rightarrow> scatterlist list \<Rightarrow> bool" where
  "sg_like sg sg' = list_all2 (\<lambda>s s'. \<exists>a. s' = s\<lparr>dma_address := a\<rparr>) sg sg'"

definition vq_like :: "vring_virtqueue \<Rightarrow> vring_virtqueue \<Rightarrow> bool" where
  "vq_like vq vq' = (\<exists>k m. vq' = vq\<lparr>dma_calls := k, mapped := m\<rparr>)"

lemma sg_like_refl [simp]: "sg_like sg sg"
  unfolding sg_like_def by (rule list.rel_refl) (metis scatterlist.surjective scatterlist.update_convs(5))

lemma sg_like_trans: "sg_like a b \<Longrightarrow> sg_like b c \<Longrightarrow> sg_like a c"
  unfolding sg_like_def by (rule list_all2_trans [of _ "\<lambda>s s'. \<exists>a. s' = s\<lparr>dma_address := a\<rparr>"]) auto

lemma sg_like_update: "i < length sg \<Longrightarrow> sg_like sg (sg[i := (sg ! i)\<lparr>dma_address := a\<rparr>])"
  using sg_like_refl [of sg] unfolding sg_like_def list_all2_conv_all_nth
  by (metis length_list_update nth_list_update)

lemma vq_like_refl [simp]: "vq_like vq vq"
  unfolding vq_like_def by (intro exI [of _ "dma_calls vq"] exI [of _ "mapped vq"]) simp

lemma vq_like_trans: "vq_like a b \<Longrightarrow> vq_like b c \<Longrightarrow> vq_like a c"
  unfolding vq_like_def by (elim exE) (simp, blast)

lemma vq_like_unmap [simp]: "vq_like vq (dma_unmap_single a n d vq)"
  unfolding vq_like_def dma_unmap_single_def by (rule exI [of _ "dma_calls vq"]) auto

lemma vq_like_fold: "(\<And>s vq. vq_like vq (f s vq)) \<Longrightarrow> vq_like vq (fold f ss vq)"
  by (induction ss arbitrary: vq) (auto intro: vq_like_trans)

lemma dma_map_loop_like:
  "\<forall>i \<in> set is. i < length sg \<Longrightarrow> dma_map_loop env dir is sg ret vq = (r, sg', vq') \<Longrightarrow>
     sg_like sg sg' \<and> vq_like vq vq' \<and> (r = ret \<or> r = ENOMEM)"
proof (induction "is" arbitrary: sg ret vq)
  case (Cons i "is")
  obtain a vq1 where m: "dma_map_single env (sg_virt (sg ! i)) (sg_length (sg ! i)) dir vq = (a, vq1)" by fastforce
  have l1: "vq_like vq vq1" using m unfolding dma_map_single_def vq_like_def Let_def by blast
  let ?sg = "sg[i := (sg ! i)\<lparr>dma_address := a\<rparr>]"
  let ?vq = "fold (\<lambda>s. dma_unmap_single (dma_address s) (sg_length s) dir) (take i ?sg) vq1"
  have l2: "vq_like vq ?vq" by (rule vq_like_trans [OF l1 vq_like_fold]) simp
  have sg: "sg_like sg ?sg" using Cons.prems(1) by (simp add: sg_like_update)
  show ?case
  proof (cases "a = 0")
    case True
    then have "dma_map_loop env dir is ?sg ENOMEM ?vq = (r, sg', vq')"
      using Cons.prems(2) m by (simp add: Let_def)
    then show ?thesis
      using Cons.IH [of ?sg ENOMEM ?vq] Cons.prems(1) sg_like_trans [OF sg] vq_like_trans [OF l2] by auto
  next
    case False
    then have "dma_map_loop env dir is ?sg ret vq1 = (r, sg', vq')"
      using Cons.prems(2) m by (simp add: Let_def)
    then show ?thesis
      using Cons.IH [of ?sg ret vq1] Cons.prems(1) sg_like_trans [OF sg] vq_like_trans [OF l1] by auto
  qed
qed auto

lemma sg_entries_length: "sg_entries sg = Some es \<Longrightarrow> es = take (length es) sg \<and> length es \<le> length sg \<and> es \<noteq> []"
  by (induction sg arbitrary: es) (auto split: if_splits)

lemma sg_entries_like:
  assumes "sg_like sg sg'" and "sg_entries sg = Some es"
  shows "\<exists>es'. sg_entries sg' = Some es' \<and> length es' = length es \<and> map sg_length es' = map sg_length es"
  using assms
proof (induction sg sg' arbitrary: es rule: list_induct2')
  case (4 s sg s' sg')
  have s: "sg_end s' = sg_end s" "sg_length s' = sg_length s" "sg_like sg sg'"
    using 4(2) unfolding sg_like_def by auto
  show ?case using 4(1) [OF s(3)] 4(3) s(1,2) by (auto split: if_splits)
qed (auto simp: sg_like_def)

definition sgs_like :: "scatterlist list list \<Rightarrow> scatterlist list list \<Rightarrow> bool" where
  "sgs_like = list_all2 sg_like"

lemma sgs_like_refl [simp]: "sgs_like sgs sgs"
  by (simp add: sgs_like_def list.rel_refl)

lemma sgs_like_trans: "sgs_like a b \<Longrightarrow> sgs_like b c \<Longrightarrow> sgs_like a c"
  unfolding sgs_like_def by (rule list_all2_trans [of sg_like sg_like]) (auto intro: sg_like_trans)

lemma sgs_like_update: "n < length sgs \<Longrightarrow> sg_like (sgs ! n) sg \<Longrightarrow> sgs_like sgs (sgs[n := sg])"
  unfolding sgs_like_def list_all2_conv_all_nth by (simp add: nth_list_update)

definition terminated :: "scatterlist list list \<Rightarrow> bool" where
  "terminated sgs = (\<forall>sg \<in> set sgs. sg_entries sg \<noteq> None)"

lemma terminated_like: "sgs_like sgs sgs' \<Longrightarrow> terminated sgs \<Longrightarrow> terminated sgs'"
proof (induction sgs sgs' rule: list_induct2')
  case (4 sg sgs sg' sgs')
  then have "sg_like sg sg'" "sgs_like sgs sgs'" "sg_entries sg \<noteq> None" "terminated sgs"
    by (auto simp: sgs_like_def terminated_def)
  then show ?case using 4(1) sg_entries_like [of sg sg'] by (auto simp: terminated_def)
qed (auto simp: sgs_like_def)

lemma unmap_lists_like:
  "terminated (map fst ls) \<Longrightarrow> \<exists>vq'. unmap_lists ls vq = Some vq' \<and> vq_like vq vq'"
proof (induction ls arbitrary: vq)
  case (Cons x ls)
  obtain sg dir where x: "x = (sg, dir)" by (cases x)
  obtain es where es: "sg_entries sg = Some es" "terminated (map fst ls)"
    using Cons.prems by (auto simp: terminated_def x)
  let ?vq = "fold (\<lambda>s. dma_unmap_single (dma_address s) (sg_length s) dir) es vq"
  have "vq_like vq ?vq" by (rule vq_like_fold) simp
  then show ?case
    using Cons.IH [OF es(2), of ?vq] es(1) vq_like_trans [of vq ?vq] by (auto simp: x dma_unmap_sg_def)
qed simp

lemma dma_map_sg_like:
  assumes "sg_entries sg \<noteq> None"
  shows "\<exists>r sg' vq'. dma_map_sg env sg dir vq = Some (r, sg', vq') \<and> sg_like sg sg' \<and> vq_like vq vq' \<and> (r = EOK \<or> r = ENOMEM)"
proof -
  obtain es where es: "sg_entries sg = Some es" using assms by auto
  obtain r sg' vq' where r: "dma_map_loop env dir [0..<length es] sg EOK vq = (r, sg', vq')"
    by (cases "dma_map_loop env dir [0..<length es] sg EOK vq" rule: prod_cases3)
  have "\<forall>i \<in> set [0..<length es]. i < length sg" using sg_entries_length [OF es] by auto
  from dma_map_loop_like [OF this r] show ?thesis using es r by (auto simp: dma_map_sg_def)
qed

lemma map_lists_like:
  "terminated sgs \<Longrightarrow> \<forall>n \<in> set ns. n < length sgs \<Longrightarrow>
     \<exists>r sgs' vq'. map_lists env out_sgs ns sgs vq = Some (r, sgs', vq') \<and> sgs_like sgs sgs' \<and> vq_like vq vq'
       \<and> (r = EOK \<or> r = ENOMEM)"
proof (induction ns arbitrary: sgs vq)
  case (Cons n ns)
  obtain r sg vq1 where m: "dma_map_sg env (sgs ! n) (\<not> n < out_sgs) vq = Some (r, sg, vq1)"
    "sg_like (sgs ! n) sg" "vq_like vq vq1" "r = EOK \<or> r = ENOMEM"
    using dma_map_sg_like [of "sgs ! n"] Cons.prems by (metis list.set_intros(1) nth_mem terminated_def)
  let ?sgs = "sgs[n := sg]"
  have l: "sgs_like sgs ?sgs" using m(2) Cons.prems(2) by (simp add: sgs_like_update)
  show ?case
  proof (cases "r = EOK")
    case True
    have "\<forall>n \<in> set ns. n < length ?sgs" using Cons.prems(2) by simp
    from Cons.IH [OF terminated_like [OF l Cons.prems(1)] this, of vq1] show ?thesis
      using m(1) True sgs_like_trans [OF l] vq_like_trans [OF m(3)] by auto
  next
    case False
    have "terminated (map fst (map (\<lambda>i. (sgs ! i, \<not> i < out_sgs)) [0..<n]))"
      using Cons.prems by (auto simp: terminated_def)
    from unmap_lists_like [OF this, of vq1] show ?thesis
      using m(1) False l vq_like_trans [OF m(3)] by auto
  qed
qed simp

lemma sg_entries_marks: "sg_entries sg = Some es \<Longrightarrow> k < length es \<Longrightarrow> sg_end (sg ! k) = (k = length es - 1)"
proof (induction sg arbitrary: es k)
  case (Cons s sg)
  show ?case
  proof (cases "sg_end s")
    case False
    then obtain es' where es': "sg_entries sg = Some es'" "es = s # es'" using Cons.prems(1) by auto
    then have "es' \<noteq> []" using sg_entries_length by blast
    then show ?thesis using Cons.IH [OF es'(1)] Cons.prems(2) False es'(2) by (cases k) auto
  qed (use Cons.prems in auto)
qed simp

lemma sg_terminate_id:
  assumes "sg_entries sg = Some es"
  shows "sg_terminate_arr sg (length es) = Some sg"
proof -
  have len: "length es \<le> length sg" "es \<noteq> []" using sg_entries_length [OF assms] by simp_all
  have marks: "k < length es \<Longrightarrow> sg_end (sg ! k) = (k = length es - 1)" for k
    by (rule sg_entries_marks [OF assms])
  let ?sg1 = "map (\<lambda>s. s\<lparr>sg_end := False\<rparr>) (take (length es) sg) @ drop (length es) sg"
  have "?sg1[length es - 1 := (?sg1 ! (length es - 1))\<lparr>sg_end := True\<rparr>] = sg"
  proof (rule nth_equalityI)
    fix k assume "k < length (?sg1[length es - 1 := (?sg1 ! (length es - 1))\<lparr>sg_end := True\<rparr>])"
    then have "k < length sg" using len by simp
    then show "?sg1[length es - 1 := (?sg1 ! (length es - 1))\<lparr>sg_end := True\<rparr>] ! k = sg ! k"
      using marks [of k] len by (cases "k = length es - 1"; cases "k < length es") (auto simp: nth_append)
  qed (use len in simp)
  then show ?thesis using len by (simp add: sg_terminate_arr_def)
qed

text \<open>The buffers of some scatter lists, the first \<open>out_sgs\<close> of them for reading.\<close>

definition sg_bufs :: "bool \<Rightarrow> nat \<Rightarrow> scatterlist list list \<Rightarrow> segment list" where
  "sg_bufs dma out_sgs sgs = concat (map (\<lambda>n. map (\<lambda>s.
     (\<not> n < out_sgs, if dma then dma_address s else sg_phys s, sg_length s)) (the (sg_entries (sgs ! n)))) [0..<length sgs])"

lemma sg_segments_bufs: "terminated sgs \<Longrightarrow> sg_segments dma out_sgs sgs = Some (map enc (sg_bufs dma out_sgs sgs))"
  unfolding sg_segments_def sg_bufs_def terminated_def list_all_iff
  by (auto simp: map_concat enc_def seg_flags_def comp_def intro!: arg_cong [where f = concat])

text \<open>
  What a caller of \<open>virtqueue_add\<close> has to respect: the lists are terminated and have \<open>total_sg\<close> entries
  together. With DMA mapping a single list in one direction must be the only list.
\<close>

definition sgs_ok :: "bool \<Rightarrow> nat \<Rightarrow> nat \<Rightarrow> nat \<Rightarrow> scatterlist list list \<Rightarrow> bool" where
  "sgs_ok dma total_sg out_sgs in_sgs sgs =
     (length sgs = out_sgs + in_sgs \<and> terminated sgs \<and> total_sg = sum_list (map (\<lambda>sg. length (the (sg_entries sg))) sgs)
      \<and> (dma \<and> (out_sgs = 1 \<or> in_sgs = 1) \<longrightarrow> out_sgs + in_sgs = 1))"

lemma length_sg_bufs:
  "length (sg_bufs dma out_sgs sgs) = sum_list (map (\<lambda>sg. length (the (sg_entries sg))) sgs)"
proof -
  have "length (sg_bufs dma out_sgs sgs) = sum_list (map (\<lambda>n. length (the (sg_entries (sgs ! n)))) [0..<length sgs])"
    by (simp add: sg_bufs_def length_concat comp_def)
  also have "\<dots> = sum_list (map (\<lambda>sg. length (the (sg_entries sg))) (map ((!) sgs) [0..<length sgs]))"
    by (simp only: map_map comp_def)
  finally show ?thesis by (simp add: map_nth)
qed

lemma sgs_like_count:
  "sgs_like sgs sgs' \<Longrightarrow> terminated sgs \<Longrightarrow>
     sum_list (map (\<lambda>sg. length (the (sg_entries sg))) sgs') = sum_list (map (\<lambda>sg. length (the (sg_entries sg))) sgs)"
proof (induction sgs sgs' rule: list_induct2')
  case (4 sg sgs sg' sgs')
  then have l: "sg_like sg sg'" "sgs_like sgs sgs'" "terminated sgs" and "sg_entries sg \<noteq> None"
    by (auto simp: sgs_like_def terminated_def)
  then show ?case using 4(1) sg_entries_like [OF l(1)] by force
qed (auto simp: sgs_like_def)

lemma vring_map_sg_like:
  assumes ok: "sgs_ok True total_sg out_sgs in_sgs sgs"
  shows "\<exists>r sgs' vq'. vring_map_sg env sgs total_sg out_sgs in_sgs vq = Some (r, sgs', vq') \<and> sgs_like sgs sgs' \<and> vq_like vq vq'
    \<and> (r = EOK \<or> r = ENOMEM)"
proof -
  have t: "terminated sgs" "length sgs = out_sgs + in_sgs" using ok by (simp_all add: sgs_ok_def)
  have id: "out_sgs = 1 \<or> in_sgs = 1 \<Longrightarrow> map_option (\<lambda>sg. sgs[0 := sg]) (sg_terminate_arr (sgs ! 0) total_sg) = Some sgs"
  proof -
    assume "out_sgs = 1 \<or> in_sgs = 1"
    then have one: "length sgs = 1" using ok by (auto simp: sgs_ok_def)
    then obtain sg where sgs: "sgs = [sg]" by (cases sgs) auto
    obtain es where es: "sg_entries sg = Some es" using t(1) by (auto simp: terminated_def sgs)
    then have "total_sg = length es" using ok by (simp add: sgs_ok_def sgs)
    then show ?thesis using sg_terminate_id [OF es] by (simp add: sgs)
  qed
  have "\<forall>n \<in> set [0..<out_sgs + in_sgs]. n < length sgs" using t(2) by simp
  from map_lists_like [OF t(1) this, of env out_sgs vq] show ?thesis
    unfolding vring_map_sg_def Let_def using id by (cases "out_sgs = 1"; cases "in_sgs = 1"; cases "has_parent vq") auto
qed

section \<open>Invariant of a queue\<close>

text \<open>
  The ghost state of a queue: its free descriptors in the order of the free list, and the buffers
  in flight, each with its chain of descriptors, its token and its segments.
\<close>

type_synonym buffer = "nat list \<times> u64 \<times> segment list"

abbreviation (input) buf_head :: "buffer \<Rightarrow> nat" where
  "buf_head b \<equiv> hd (fst b)"

definition vq_inv :: "vring_virtqueue \<Rightarrow> nat list \<Rightarrow> buffer list \<Rightarrow> bool" where
  "vq_inv vq free bufs =
     ((\<exists>k \<le> 15. num vq = 2 ^ k) \<and> \<not> indirect vq
      \<and> length (desc (vring vq)) = unat (num vq) \<and> length (data vq) = unat (num vq)
      \<and> length (avail_ring (vring vq)) = unat (num vq) \<and> length (used_ring (vring vq)) = unat (num vq)
      \<and> distinct (free @ concat (map fst bufs)) \<and> set (free @ concat (map fst bufs)) = {..<unat (num vq)}
      \<and> (\<exists>y. dpath (desc (vring vq)) (unat (free_head vq)) free y) \<and> unat (free_head vq) < 65536
      \<and> unat (num_free vq) = length free
      \<and> (\<forall>(c, t, ss) \<in> set bufs. chain_ok (desc (vring vq)) c ss \<and> t \<noteq> 0 \<and> data vq ! hd c = t)
      \<and> (\<forall>i < unat (num vq). i \<notin> set (map buf_head bufs) \<longrightarrow> data vq ! i = 0))"

lemma unat_num: "num vq = 2 ^ k \<Longrightarrow> k \<le> 15 \<Longrightarrow> unat (num vq) = 2 ^ k"
  using unat_pow2 [of k, where 'a = 32] by simp

lemma vq_inv_num:
  assumes "vq_inv vq free bufs"
  shows "0 < unat (num vq)" "unat (num vq) \<le> 32768"
proof -
  obtain k where k: "k \<le> 15" "num vq = 2 ^ k" using assms by (auto simp: vq_inv_def)
  have "(2 :: nat) ^ k \<le> 2 ^ 15" using k(1) by (intro power_increasing) simp_all
  then show "0 < unat (num vq)" "unat (num vq) \<le> 32768" using unat_num [OF k(2,1)] by simp_all
qed

lemma ring_index:
  assumes "num vq = 2 ^ k" and "k \<le> 15"
  shows "unat ((ucast (i :: u16) :: u32) AND (num vq - 1)) = unat i mod unat (num vq)"
proof -
  have "num vq - 1 = mask k" using assms(1) by (simp add: mask_eq_exp_minus_1)
  then have "unat ((ucast i :: u32) AND (num vq - 1)) = take_bit k (unat (ucast i :: u32))"
    by (simp add: take_bit_eq_mask [symmetric] unsigned_take_bit_eq)
  then show ?thesis using unat_num [OF assms] by (simp add: unat_ucast_u16 take_bit_eq_mod)
qed

section \<open>Adding a buffer\<close>

text \<open>Changes that leave the ring and the bookkeeping of descriptors alone.\<close>

definition vq_quiet :: "vring_virtqueue \<Rightarrow> vring_virtqueue \<Rightarrow> bool" where
  "vq_quiet vq vq' = (\<exists>k m n a b c. vq' = vq\<lparr>dma_calls := k, mapped := m, notifications := n, num_added := a, broken := b,
     callbacks_run := c\<rparr>)"

lemma vq_quiet_refl [simp]: "vq_quiet vq vq"
  unfolding vq_quiet_def
  by (intro exI [of _ "dma_calls vq"] exI [of _ "mapped vq"] exI [of _ "notifications vq"] exI [of _ "num_added vq"]
      exI [of _ "broken vq"] exI [of _ "callbacks_run vq"]) simp

lemma vq_quiet_fields:
  assumes "vq_quiet vq vq'"
  shows "vring vq' = vring vq" "num vq' = num vq" "data vq' = data vq" "free_head vq' = free_head vq" "num_free vq' = num_free vq"
    "indirect vq' = indirect vq" "last_used_idx vq' = last_used_idx vq" "dma_map vq' = dma_map vq"
  using assms by (auto simp: vq_quiet_def)

lemma vq_like_quiet:
  assumes "vq_like vq vq'"
  shows "vq_quiet vq vq'"
proof -
  obtain k m where "vq' = vq\<lparr>dma_calls := k, mapped := m\<rparr>" using assms by (auto simp: vq_like_def)
  then show ?thesis
    unfolding vq_quiet_def
    by (intro exI [of _ k] exI [of _ m] exI [of _ "notifications vq"] exI [of _ "num_added vq"] exI [of _ "broken vq"]
        exI [of _ "callbacks_run vq"]) simp
qed

lemma vq_quiet_trans: "vq_quiet a b \<Longrightarrow> vq_quiet b c \<Longrightarrow> vq_quiet a c"
  unfolding vq_quiet_def by (elim exE) (simp, blast)

lemma vq_quiet_inv: "vq_quiet vq vq' \<Longrightarrow> vq_inv vq' free bufs = vq_inv vq free bufs"
  by (simp add: vq_inv_def vq_quiet_fields)

lemma notify_quiet: "vq_quiet vq (snd (notify env vq))"
  unfolding vq_quiet_def notify_def
  by (intro exI [of _ "dma_calls vq"] exI [of _ "mapped vq"] exI [of _ "notifications vq + 1"] exI [of _ "num_added vq"]
      exI [of _ "broken vq"] exI [of _ "callbacks_run vq"]) simp

lemma kick_quiet: "vq_quiet vq (snd (vca_virtqueue_kick env vq))"
  unfolding vq_quiet_def vca_virtqueue_kick_def vca_virtqueue_kick_prepare_def vca_virtqueue_notify_def notify_def Let_def
  by (intro exI [of _ "dma_calls vq"] exI [of _ "mapped vq"]
      exI [of _ "notifications (snd (vca_virtqueue_kick env vq))"] exI [of _ 0]
      exI [of _ "broken (snd (vca_virtqueue_kick env vq))"] exI [of _ "callbacks_run vq"])
    (auto simp: vca_virtqueue_kick_def vca_virtqueue_kick_prepare_def vca_virtqueue_notify_def notify_def Let_def)

definition published :: "u32 \<Rightarrow> u32 \<Rightarrow> u64 \<Rightarrow> vring_virtqueue \<Rightarrow> vring_virtqueue" where
  "published h nxt dat vq =
     (let r = vring vq
      in vq\<lparr>free_head := nxt, data := (data vq)[unat h := dat],
            vring := r\<lparr>avail_ring := (avail_ring r)[unat ((ucast (avail_idx r) :: u32) AND (num vq - 1)) := ucast h],
                       avail_idx := avail_idx r + 1\<rparr>\<rparr>)"

lemma publish_quiet: "vq_quiet (published h nxt dat vq) (publish env h nxt dat vq)"
proof -
  let ?vq = "(published h nxt dat vq)\<lparr>num_added := num_added vq + 1\<rparr>"
  have "vq_quiet (published h nxt dat vq) ?vq"
    unfolding vq_quiet_def published_def Let_def
    by (intro exI [of _ "dma_calls vq"] exI [of _ "mapped vq"] exI [of _ "notifications vq"] exI [of _ "num_added vq + 1"]
        exI [of _ "broken vq"] exI [of _ "callbacks_run vq"]) simp
  moreover have "publish env h nxt dat vq = (if num_added vq + 1 = 0xFFFF then snd (vca_virtqueue_kick env ?vq) else ?vq)"
    by (simp add: publish_def published_def Let_def)
  ultimately show ?thesis using kick_quiet [of ?vq env] vq_quiet_trans by auto
qed

lemma vq_inv_buf:
  assumes "vq_inv vq free bufs" and "(c, t, ss) \<in> set bufs"
  shows "chain_ok (desc (vring vq)) c ss" "t \<noteq> 0" "data vq ! hd c = t"
  using assms by (auto simp: vq_inv_def)

lemma vq_inv_length:
  assumes "vq_inv vq free bufs"
  shows "length free + length (concat (map fst bufs)) = unat (num vq)"
proof -
  have "distinct (free @ concat (map fst bufs))" "set (free @ concat (map fst bufs)) = {..<unat (num vq)}"
    using assms by (simp_all add: vq_inv_def)
  then have "length (free @ concat (map fst bufs)) = card {..<unat (num vq)}" by (metis distinct_card)
  then show ?thesis by simp
qed

lemma add_inv:
  assumes inv: "vq_inv vq (c @ free) bufs" and ss: "length ss = length c" "ss \<noteq> []" and dat: "dat \<noteq> 0"
  shows "\<exists>ds i. fill_descs (desc (vring vq)) (free_head vq) 0 (map enc ss) = Inr (ds, i, of_nat (last c))
    \<and> unat (free_head vq) = hd c
    \<and> vq_inv (published (free_head vq) i dat (vq\<lparr>num_free := num_free vq - of_nat (length c),
         vring := (vring vq)\<lparr>desc := end_chain ds (of_nat (last c))\<rparr>\<rparr>)) free ((c, dat, ss) # bufs)"
proof -
  let ?ds = "desc (vring vq)" and ?n = "unat (num vq)"
  obtain y where y: "dpath ?ds (unat (free_head vq)) (c @ free) y" using inv by (auto simp: vq_inv_def)
  have n: "?n \<le> 32768" "length ?ds = ?n" using vq_inv_num(2) [OF inv] inv by (simp_all add: vq_inv_def)
  have dist: "distinct (c @ free @ concat (map fst bufs))" and all: "set (c @ free @ concat (map fst bufs)) = {..<?n}"
    using inv by (simp_all add: vq_inv_def)
  have cf: "distinct c" "set c \<inter> set free = {}" using dist by auto
  obtain ds i where f: "fill_descs ?ds (free_head vq) 0 (map enc ss) = Inr (ds, i, of_nat (last c))" "length ds = ?n"
    "\<forall>j. j \<notin> set c \<longrightarrow> ds ! j = ?ds ! j" "dpath ds (unat i) free y" "unat i < 65536"
    "chain_ok (end_chain ds (of_nat (last c))) c ss"
    using fill_descs_chain [OF y cf ss(1) [symmetric] ss(2), of 0] n by auto
  let ?ds' = "end_chain ds (of_nat (last c))"
  have c: "c \<noteq> []" using ss by auto
  then have hd: "unat (free_head vq) = hd c" "hd c < ?n" "hd c \<in> set c" using y n by (cases c; simp)+
  have "last c < ?n" using c all by (metis Un_iff last_in_set lessThan_iff set_append)
  then have l: "unat (of_nat (last c) :: u32) = last c" using n by (intro unat_of_nat_small) simp
  have keep: "?ds' ! j = ?ds ! j" if "j \<notin> set c" for j
  proof -
    have "j \<noteq> last c" using that last_in_set [OF c] by blast
    then show ?thesis
      using that f(2,3) l \<open>last c < ?n\<close> end_chain_nth(1) [of "of_nat (last c)" ds j] by auto
  qed
  have len': "length ?ds' = ?n" using f(2) by (simp add: end_chain_nth(3))
  have free: "dpath ?ds' (unat i) free y"
  proof -
    have "d_next (?ds' ! a) = d_next (ds ! a)" if "a \<in> set free" for a
      using keep [of a] f(3) that dist by (metis disjoint_iff distinct_append Un_iff set_append)
    then show ?thesis using f(4) dpath_cong [of free ?ds' ds] len' f(2) by simp
  qed
  have old: "chain_ok ?ds' c' ss'" if "(c', t, ss') \<in> set bufs" for c' t ss'
  proof -
    have "chain_ok ?ds c' ss'" using inv that by (auto simp: vq_inv_def)
    moreover have "set c' \<inter> set c = {}" using dist that by fastforce
    ultimately show ?thesis using chain_ok_cong [of c' ?ds' ?ds ss'] keep len' n(2) by (metis disjoint_iff)
  qed
  have heads: "hd c \<notin> set (map buf_head bufs)"
  proof
    assume "hd c \<in> set (map buf_head bufs)"
    then obtain b where b: "b \<in> set bufs" "hd c = buf_head b" by auto
    then have "fst b \<noteq> []" using inv chain_ok_length by (fastforce simp: vq_inv_def)
    then have "hd c \<in> set (concat (map fst bufs))" using b by (auto intro: bexI [of _ b] hd_in_set)
    then show False using dist hd(3) by auto
  qed
  have toks: "(data vq)[hd c := dat] ! hd c' = t" if "(c', t, ss') \<in> set bufs" for c' t ss'
  proof -
    have "hd c' \<in> set (map buf_head bufs)" using that by force
    then have "hd c \<noteq> hd c'" using heads by metis
    then show ?thesis using vq_inv_buf(3) [OF inv that] by simp
  qed
  have nf: "unat (num_free vq - of_nat (length c)) = length free"
  proof -
    have "unat (num_free vq) = length c + length free" using inv by (simp add: vq_inv_def)
    moreover have "length c \<le> ?n" using vq_inv_length [OF inv] by simp
    then have "unat (of_nat (length c) :: u32) = length c" using n by (intro unat_of_nat_small) simp
    ultimately show ?thesis by (simp add: unat_sub word_le_nat_alt)
  qed
  let ?vq = "published (free_head vq) i dat (vq\<lparr>num_free := num_free vq - of_nat (length c),
         vring := (vring vq)\<lparr>desc := ?ds'\<rparr>\<rparr>)"
  have "vq_inv ?vq free ((c, dat, ss) # bufs)"
    unfolding vq_inv_def published_def Let_def
    using inv dist all free f(5,6) nf old toks heads len' dat hd
    by (auto simp: vq_inv_def)
  then show ?thesis using f(1) hd(1) by blast
qed

end
