(* ===== verification/Vring_Ops.thy ===== *)
theory Vring_Ops
  imports Vring_Chain
begin

text \<open>
  The operations of the two sides of a virtio ring on a ring that satisfies the invariant of the
  driver: what adding a buffer and taking a used one back do to the free list and the buffers in
  flight, and what the other side reads when it follows the chain of a buffer.
\<close>

unbundle bit_operations_syntax

section \<open>Operations of the driver\<close>

lemma virtqueue_add_direct:
  assumes "\<not> broken vq" "dat \<noteq> 0" "0 < total_sg" "total_sg \<le> unat (num vq)" "\<not> indirect vq" "total_sg \<le> unat (num_free vq)"
    and "length sgs = out_sgs + in_sgs" "length sgs' = out_sgs + in_sgs"
    and m: "(if dma_map vq then vring_map_sg env sgs total_sg out_sgs in_sgs vq else Some (EOK, sgs, vq)) = Some (EOK, sgs', vq1)"
    and "sg_segments (dma_map vq1) out_sgs sgs' = Some segs"
    and "fill_descs (desc (vring vq1)) (free_head vq) 0 segs = Inr (ds, i, prev)"
  shows "virtqueue_add env sgs total_sg out_sgs in_sgs dat vq = Inr (EOK, sgs', publish env (free_head vq) i dat
    (vq1\<lparr>num_free := num_free vq1 - of_nat total_sg, vring := (vring vq1)\<lparr>desc := end_chain ds prev\<rparr>\<rparr>))"
proof (cases "dma_map vq")
  case True
  then show ?thesis using assms by (simp add: virtqueue_add_def Let_def)
next
  case False
  then have "sgs' = sgs" "vq1 = vq" using m by simp_all
  then show ?thesis using assms False by (simp add: virtqueue_add_def Let_def)
qed

lemma virtqueue_add_run:
  assumes inv: "vq_inv vq free bufs" and ok: "sgs_ok (dma_map vq) total_sg out_sgs in_sgs sgs" and dat: "dat \<noteq> 0"
    and total: "0 < total_sg" "total_sg \<le> unat (num vq)"
  shows "\<exists>e sgs' vq'. virtqueue_add env sgs total_sg out_sgs in_sgs dat vq = Inr (e, sgs', vq') \<and> sgs_like sgs sgs'
    \<and> (if e = EOK then
         (\<exists>c free'. free = c @ free' \<and> length c = total_sg
            \<and> vq_inv vq' free' ((c, dat, sg_bufs (dma_map vq) out_sgs sgs') # bufs)
            \<and> avail_idx (vring vq') = avail_idx (vring vq) + 1
            \<and> avail_ring (vring vq') =
                (avail_ring (vring vq))[unat (avail_idx (vring vq)) mod unat (num vq) := of_nat (hd c)]
            \<and> used_idx (vring vq') = used_idx (vring vq) \<and> used_ring (vring vq') = used_ring (vring vq)
            \<and> last_used_idx vq' = last_used_idx vq \<and> num vq' = num vq)
       else vq_quiet vq vq' \<and> (e = EIO \<and> broken vq \<or> e = ENOSPC \<and> length free < total_sg \<or> e = ENOMEM \<and> dma_map vq))"
proof -
  have ind: "\<not> indirect vq" and nf: "unat (num_free vq) = length free" using inv by (simp_all add: vq_inv_def)
  have len: "length sgs = out_sgs + in_sgs" "terminated sgs" using ok by (simp_all add: sgs_ok_def)
  let ?m = "if dma_map vq then vring_map_sg env sgs total_sg out_sgs in_sgs vq else Some (EOK, sgs, vq)"
  consider "broken vq" | "\<not> broken vq" "length free < total_sg" | "\<not> broken vq" "total_sg \<le> length free" by linarith
  then show ?thesis
  proof cases
    case 1
    then show ?thesis using dat by (auto simp: virtqueue_add_def)
  next
    case 2
    then have "virtqueue_add env sgs total_sg out_sgs in_sgs dat vq =
        Inr (ENOSPC, sgs, if out_sgs \<noteq> 0 then snd (notify env vq) else vq)"
      using dat total ind nf by (simp add: virtqueue_add_def)
    then show ?thesis using 2 notify_quiet [of vq env] by (cases "out_sgs = 0") auto
  next
    case 3
    obtain r sgs' vq1 where m: "?m = Some (r, sgs', vq1)" "sgs_like sgs sgs'" "vq_like vq vq1"
      "r = EOK \<or> r = ENOMEM \<and> dma_map vq"
      using vring_map_sg_like [of total_sg out_sgs in_sgs sgs env vq] ok by (cases "dma_map vq") auto
    have q: "vq_quiet vq vq1" by (rule vq_like_quiet [OF m(3)])
    note qf = vq_quiet_fields [OF q]
    have len': "length sgs' = out_sgs + in_sgs" using m(2) len(1) by (simp add: sgs_like_def list_all2_lengthD [symmetric])
    have trm: "terminated sgs'" by (rule terminated_like [OF m(2) len(2)])
    show ?thesis
    proof (cases "r = EOK")
      case False
      then have "virtqueue_add env sgs total_sg out_sgs in_sgs dat vq = Inr (ENOMEM, sgs', vq1)"
        using 3 dat total ind nf m(1) len by (simp add: virtqueue_add_def)
      then show ?thesis using q m(2,4) False by auto
    next
      case True
      let ?ss = "sg_bufs (dma_map vq) out_sgs sgs'"
      let ?c = "take total_sg free" and ?f = "drop total_sg free"
      have "length ?ss = total_sg"
        using ok sgs_like_count [OF m(2) len(2)] length_sg_bufs [of "dma_map vq" out_sgs sgs'] by (simp add: sgs_ok_def)
      then have ss: "length ?ss = length ?c" "?ss \<noteq> []" using 3(2) total(1) by auto
      have inv1: "vq_inv vq1 (?c @ ?f) bufs" using inv vq_quiet_inv [OF q] by simp
      obtain ds i where f: "fill_descs (desc (vring vq1)) (free_head vq1) 0 (map enc ?ss) = Inr (ds, i, of_nat (last ?c))"
        "unat (free_head vq1) = hd ?c"
        "vq_inv (published (free_head vq1) i dat (vq1\<lparr>num_free := num_free vq1 - of_nat (length ?c),
           vring := (vring vq1)\<lparr>desc := end_chain ds (of_nat (last ?c))\<rparr>\<rparr>)) ?f ((?c, dat, ?ss) # bufs)"
        using add_inv [OF inv1 ss dat] by blast
      let ?vq2 = "vq1\<lparr>num_free := num_free vq1 - of_nat (length ?c), vring := (vring vq1)\<lparr>desc := end_chain ds (of_nat (last ?c))\<rparr>\<rparr>"
      let ?p = "published (free_head vq1) i dat ?vq2" and ?vq' = "publish env (free_head vq1) i dat ?vq2"
      have lc: "length ?c = total_sg" using 3(2) by simp
      have run: "virtqueue_add env sgs total_sg out_sgs in_sgs dat vq = Inr (EOK, sgs', ?vq')"
        using virtqueue_add_direct [of vq dat total_sg sgs out_sgs in_sgs sgs' env vq1]
          3 dat total ind nf m(1) len(1) len' True f(1) sg_segments_bufs [OF trm, of "dma_map vq" out_sgs] qf(4,8) lc
        by (simp split del: if_split)
      have "vq_quiet ?p ?vq'" by (rule publish_quiet)
      note pq = vq_quiet_fields [OF this] vq_quiet_inv [OF this]
      have inv': "vq_inv ?vq' ?f ((?c, dat, ?ss) # bufs)" using pq(9) f(3) by blast
      have h: "(ucast (free_head vq1) :: u16) = of_nat (hd ?c)" unfolding f(2) [symmetric] by simp
      obtain k where "num vq = 2 ^ k" "k \<le> 15" using inv by (auto simp: vq_inv_def)
      note ix = ring_index [OF this, of "avail_idx (vring vq)"]
      have r: "vring ?vq' = (vring vq)\<lparr>desc := end_chain ds (of_nat (last ?c)),
          avail_ring := (avail_ring (vring vq))[unat (avail_idx (vring vq)) mod unat (num vq) := of_nat (hd ?c)],
          avail_idx := avail_idx (vring vq) + 1\<rparr>"
        unfolding pq(1) published_def Let_def using h ix qf(1,2) by simp
      have "last_used_idx ?vq' = last_used_idx vq" "num ?vq' = num vq"
        unfolding pq published_def Let_def using qf by simp_all
      then have "\<exists>c free'. free = c @ free' \<and> length c = total_sg \<and> vq_inv ?vq' free' ((c, dat, ?ss) # bufs)
            \<and> avail_idx (vring ?vq') = avail_idx (vring vq) + 1
            \<and> avail_ring (vring ?vq') =
                (avail_ring (vring vq))[unat (avail_idx (vring vq)) mod unat (num vq) := of_nat (hd c)]
            \<and> used_idx (vring ?vq') = used_idx (vring vq) \<and> used_ring (vring ?vq') = used_ring (vring vq)
            \<and> last_used_idx ?vq' = last_used_idx vq \<and> num ?vq' = num vq"
        using inv' lc unfolding r by (intro exI [of _ ?c] exI [of _ ?f]) simp
      then show ?thesis using run m(2) by (intro exI [of _ EOK] exI [of _ sgs'] exI [of _ ?vq']) simp
    qed
  qed
qed


definition detached :: "nat list \<Rightarrow> segment list \<Rightarrow> vring_virtqueue \<Rightarrow> vring_virtqueue" where
  "detached c ss vq =
     (let ds = desc (vring vq)
      in vq\<lparr>data := (data vq)[hd c := 0],
            vring := (vring vq)\<lparr>desc := ds[last c := (ds ! last c)\<lparr>d_next := ucast (free_head vq)\<rparr>]\<rparr>,
            free_head := of_nat (hd c), num_free := num_free vq + of_nat (length c),
            mapped := unmap_segs (dma_map vq) ss (mapped vq)\<rparr>)"

lemma chain_last_holds: "chain_ok ds c ss \<Longrightarrow> holds (ds ! last c) False (last ss)"
proof (induction ds c ss rule: chain_ok.induct)
  case (3 ds a b as ss)
  then obtain s ss' where ss: "ss = s # ss'" "chain_ok ds (b # as) ss'" by auto
  moreover have "ss' \<noteq> []" using chain_ok_length [OF ss(2)] by auto
  ultimately show ?case using "3.IH" by simp
qed auto

lemma chain_hd_flags: "chain_ok ds c ss \<Longrightarrow> d_flags (ds ! hd c) AND 4 = 0"
  by (induction ds c ss rule: chain_ok.induct) (auto simp: holds_def)

lemma unmap_segs_False: "unmap_segs False ss m = m"
  by (simp add: unmap_segs_def)

lemma detach_buf_run:
  assumes c: "chain_ok (desc (vring vq)) c ss" and len: "length (desc (vring vq)) \<le> 32768" and "length c \<le> fuel"
    and h: "unat h = hd c"
  shows "detach_buf fuel h vq = Some (Inr (detached c ss vq))"
proof -
  let ?ds = "desc (vring vq)"
  let ?vq = "vq\<lparr>data := (data vq)[hd c := 0]\<rparr>"
  have ne: "c \<noteq> []" "length ss = length c" using chain_ok_length [OF c] by simp_all
  have hd: "hd c < length ?ds" "last c < length ?ds" using chain_ok_less [OF c] ne(1) by simp_all
  have l: "unat (of_nat (last c) :: u32) = last c" using hd(2) len by (intro unat_of_nat_small) simp
  have hu: "h = of_nat (hd c)" unfolding h [symmetric] by simp
  have loop: "detach_loop fuel h ?vq = Some (Inr (of_nat (last c),
      ?vq\<lparr>num_free := num_free ?vq + of_nat (length c - 1), mapped := unmap_segs (dma_map ?vq) (butlast ss) (mapped ?vq)\<rparr>))"
    by (rule detach_loop_chain) (use c assms(3) h len in auto)
  have nf: "num_free vq + of_nat (length c - Suc 0) + 1 = num_free vq + of_nat (length c)"
    using ne(1) by (cases c) (simp_all add: algebra_simps)
  have um: "unmap_segs d ss m = (if d then remove1 (seg_mapping (last ss)) (unmap_segs d (butlast ss) m) else m)" for d m
  proof -
    obtain ss0 s where "ss = ss0 @ [s]" using ne by (cases ss rule: rev_cases) auto
    then show ?thesis by (simp add: unmap_segs_def)
  qed
  have lh: "holds (?ds ! last c) False (last ss)" by (rule chain_last_holds [OF c])
  have lh': "holds ((?ds ! last c)\<lparr>d_next := x\<rparr>) False (last ss)" for x
    using lh by (simp add: holds_def split: prod.splits)
  have "d_flags (?ds ! unat h) AND 4 = 0" using chain_hd_flags [OF c] h by simp
  then show ?thesis
    unfolding detach_buf_def Let_def using hd h loop l
    by (simp add: detached_def Let_def nf um unmap_single_holds [OF lh'] hu [symmetric] unmap_segs_False)
qed

lemma vq_invI:
  assumes "\<exists>k \<le> 15. num vq = 2 ^ k" "\<not> indirect vq"
    and "length (desc (vring vq)) = unat (num vq)" "length (data vq) = unat (num vq)"
    and "length (avail_ring (vring vq)) = unat (num vq)" "length (used_ring (vring vq)) = unat (num vq)"
    and "distinct (free @ concat (map fst bufs))" "set (free @ concat (map fst bufs)) = {..<unat (num vq)}"
    and "dpath (desc (vring vq)) (unat (free_head vq)) free y" "unat (free_head vq) < 65536"
    and "unat (num_free vq) = length free"
    and "\<And>c t ss. (c, t, ss) \<in> set bufs \<Longrightarrow> chain_ok (desc (vring vq)) c ss \<and> t \<noteq> 0 \<and> data vq ! hd c = t"
    and "\<And>i. i < unat (num vq) \<Longrightarrow> i \<notin> set (map buf_head bufs) \<Longrightarrow> data vq ! i = 0"
  shows "vq_inv vq free bufs"
  unfolding vq_inv_def using assms by blast

lemma detached_inv:
  assumes inv: "vq_inv vq free (bs1 @ (c, t, ss) # bs2)"
  shows "vq_inv (detached c ss vq) (c @ free) (bs1 @ bs2)"
proof -
  let ?ds = "desc (vring vq)" and ?n = "unat (num vq)" and ?bufs = "bs1 @ (c, t, ss) # bs2"
  let ?ds' = "?ds[last c := (?ds ! last c)\<lparr>d_next := ucast (free_head vq)\<rparr>]"
  have mem: "(c, t, ss) \<in> set ?bufs" by simp
  have c: "chain_ok ?ds c ss" by (rule vq_inv_buf(1) [OF inv mem])
  have ne: "c \<noteq> []" using chain_ok_length [OF c] by simp
  have n: "?n \<le> 32768" "length ?ds = ?n" using vq_inv_num(2) [OF inv] inv by (simp_all add: vq_inv_def)
  have dist: "distinct (free @ concat (map fst ?bufs))" and all: "set (free @ concat (map fst ?bufs)) = {..<?n}"
    using inv by (simp_all only: vq_inv_def)
  obtain y where y: "dpath ?ds (unat (free_head vq)) free y" and fh: "unat (free_head vq) < 65536"
    using inv by (auto simp: vq_inv_def)
  have lc: "last c \<in> set c" "last c < ?n" "hd c \<in> set c" "hd c < ?n"
    using ne chain_ok_less [OF c] n(2) by simp_all
  have cb: "set c \<inter> set free = {}" "distinct c" "set c \<inter> set (concat (map fst (bs1 @ bs2))) = {}"
    using dist by auto
  have fh': "unat (ucast (free_head vq) :: u16) = unat (free_head vq)"
    using fh by (simp add: unsigned_ucast_eq take_bit_nat_eq_self)
  have path: "dpath ?ds' (hd c) (c @ free) y"
  proof -
    have "dpath ?ds (hd c) c (unat (d_next (?ds ! last c)))" by (rule chain_ok_path [OF c])
    then have p: "dpath ?ds (hd c) (butlast c @ [last c]) (unat (d_next (?ds ! last c)))" using ne by simp
    then have "dpath ?ds (hd c) (butlast c) (last c)" by (auto simp: dpath_append)
    moreover have "last c \<notin> set (butlast c)" using cb(2) ne by (rule distinct_butlast_last)
    then have "dpath ?ds' (hd c) (butlast c) z = dpath ?ds (hd c) (butlast c) z" for z
      by (intro dpath_cong) (auto intro!: arg_cong [where f = d_next] nth_list_update_neq)
    moreover have "dpath ?ds' (unat (free_head vq)) free y"
    proof -
      have "dpath ?ds' (unat (free_head vq)) free y = dpath ?ds (unat (free_head vq)) free y"
        using lc(1) cb(1) by (intro dpath_cong) (auto intro!: arg_cong [where f = d_next] nth_list_update_neq)
      then show ?thesis using y by simp
    qed
    ultimately have "dpath ?ds' (hd c) (butlast c @ [last c] @ free) y"
      using lc(2) n(2) fh' by (auto simp: dpath_append)
    then show ?thesis using ne by (metis append_assoc append_butlast_last_id)
  qed
  have old: "chain_ok ?ds' c' ss' \<and> t' \<noteq> 0 \<and> (data vq)[hd c := 0] ! hd c' = t'"
    if b: "(c', t', ss') \<in> set (bs1 @ bs2)" for c' t' ss'
  proof -
    have b': "(c', t', ss') \<in> set ?bufs" using b by auto
    note i = vq_inv_buf [OF inv b']
    have s: "set c' \<inter> set c = {}" using cb(3) b by force
    then have "chain_ok ?ds' c' ss' = chain_ok ?ds c' ss'"
      using lc(1) by (intro chain_ok_cong) (auto intro!: nth_list_update_neq)
    moreover have "hd c \<noteq> hd c'" using s lc(3) chain_ok_length [OF i(1)] by (metis disjoint_iff hd_in_set)
    ultimately show ?thesis using i by simp
  qed
  have nf: "unat (num_free vq + of_nat (length c)) = length (c @ free)"
  proof -
    have "length free + length c \<le> ?n" using vq_inv_length [OF inv] by simp
    moreover have "unat (num_free vq) = length free" using inv by (simp add: vq_inv_def)
    ultimately show ?thesis using n(1) by (simp add: unat_word_ariths unat_of_nat)
  qed
  have hu: "unat (of_nat (hd c) :: u32) = hd c" using lc(4) n(1) by (intro unat_of_nat_small) simp
  have zero: "(data vq)[hd c := 0] ! i = 0" if "i < ?n" "i \<notin> set (map buf_head (bs1 @ bs2))" for i
    using inv that by (cases "i = hd c") (auto simp: vq_inv_def)
  have parts: "distinct ((c @ free) @ concat (map fst (bs1 @ bs2)))"
    "set ((c @ free) @ concat (map fst (bs1 @ bs2))) = {..<?n}"
    using dist all by auto
  let ?vq = "detached c ss vq"
  have f: "num ?vq = num vq" "desc (vring ?vq) = ?ds'" "data ?vq = (data vq)[hd c := 0]" "indirect ?vq = indirect vq"
    "avail_ring (vring ?vq) = avail_ring (vring vq)" "used_ring (vring ?vq) = used_ring (vring vq)"
    "free_head ?vq = of_nat (hd c)" "num_free ?vq = num_free vq + of_nat (length c)"
    by (simp_all add: detached_def Let_def)
  show ?thesis
  proof (rule vq_invI)
    show "\<exists>k \<le> 15. num ?vq = 2 ^ k" "\<not> indirect ?vq" using inv by (simp_all add: f vq_inv_def)
    show "length (desc (vring ?vq)) = unat (num ?vq)" "length (data ?vq) = unat (num ?vq)"
      "length (avail_ring (vring ?vq)) = unat (num ?vq)" "length (used_ring (vring ?vq)) = unat (num ?vq)"
      using inv by (simp_all add: f vq_inv_def)
    show "dpath (desc (vring ?vq)) (unat (free_head ?vq)) (c @ free) y" unfolding f hu by (rule path)
    show "unat (free_head ?vq) < 65536" unfolding f hu using lc(4) n(1) by simp
    show "unat (num_free ?vq) = length (c @ free)" unfolding f by (rule nf)
  qed (use parts old zero in \<open>simp_all only: f simp_thms not_False_eq_True\<close>)
qed


lemma get_buf_run:
  assumes inv: "vq_inv vq free (bs1 @ (c, t, ss) # bs2)" and fuel: "unat (num vq) \<le> fuel" and nb: "\<not> broken vq"
    and used: "last_used_idx vq \<noteq> used_idx (vring vq)"
    and ue: "used_ring (vring vq) ! (unat (last_used_idx vq) mod unat (num vq)) = \<lparr>ue_id = of_nat (hd c), ue_len = l\<rparr>"
  shows "\<exists>vq'. vca_virtqueue_get_buf fuel vq = Some (Inr (t, Some l, vq')) \<and> vq_inv vq' (c @ free) (bs1 @ bs2)
    \<and> last_used_idx vq' = last_used_idx vq + 1 \<and> num vq' = num vq
    \<and> avail_idx (vring vq') = avail_idx (vring vq) \<and> avail_ring (vring vq') = avail_ring (vring vq)
    \<and> used_idx (vring vq') = used_idx (vring vq) \<and> used_ring (vring vq') = used_ring (vring vq)"
proof -
  have mem: "(c, t, ss) \<in> set (bs1 @ (c, t, ss) # bs2)" by simp
  note b = vq_inv_buf [OF inv mem]
  have n: "unat (num vq) \<le> 32768" "length (desc (vring vq)) = unat (num vq)"
    using vq_inv_num(2) [OF inv] inv by (simp_all add: vq_inv_def)
  have ne: "c \<noteq> []" using chain_ok_length [OF b(1)] by simp
  have h: "hd c < unat (num vq)" using chain_ok_less [OF b(1)] ne n(2) by simp
  then have hu: "unat (of_nat (hd c) :: u32) = hd c" using n(1) by (intro unat_of_nat_small) simp
  have lc: "length c \<le> fuel" using vq_inv_length [OF inv] fuel by simp
  have d: "detach_buf fuel (of_nat (hd c)) vq = Some (Inr (detached c ss vq))"
    by (rule detach_buf_run [OF b(1) _ lc hu]) (use n in simp)
  obtain k where "num vq = 2 ^ k" "k \<le> 15" using inv by (auto simp: vq_inv_def)
  note ix = ring_index [OF this, of "last_used_idx vq"]
  let ?d = "detached c ss vq"
  let ?vq = "?d\<lparr>last_used_idx := last_used_idx ?d + 1\<rparr>"
  let ?vq' = "if avail_flags (vring ?vq) AND 1 = 0 then ?vq\<lparr>vring := (vring ?vq)\<lparr>used_event := last_used_idx ?vq\<rparr>\<rparr> else ?vq"
  have "\<not> num vq \<le> of_nat (hd c)" using h hu by (simp add: word_le_nat_alt)
  then have run: "vca_virtqueue_get_buf fuel vq = Some (Inr (t, Some l, ?vq'))"
    unfolding vca_virtqueue_get_buf_def more_used_def Let_def ix ue using nb used b(2,3) hu d by simp
  have "vq_inv ?vq' (c @ free) (bs1 @ bs2)" using detached_inv [OF inv] by (simp add: vq_inv_def)
  moreover have "last_used_idx ?vq' = last_used_idx vq + 1 \<and> num ?vq' = num vq
    \<and> avail_idx (vring ?vq') = avail_idx (vring vq) \<and> avail_ring (vring ?vq') = avail_ring (vring vq)
    \<and> used_idx (vring ?vq') = used_idx (vring vq) \<and> used_ring (vring ?vq') = used_ring (vring vq)"
    by (simp add: detached_def Let_def)
  ultimately show ?thesis using run by blast
qed


section \<open>Operations of the other side\<close>

definition capacity :: "vringh_kiov \<Rightarrow> u32" where
  "capacity v = max_num v AND NOT VRINGH_IOV_ALLOCATED"

definition kiov_ok :: "vringh_kiov \<Rightarrow> bool" where
  "kiov_ok v = (length (iov v) = unat (capacity v) \<and> unat (capacity v) \<le> 65536 \<and> unat (iov_used v) \<le> length (iov v))"

text \<open>The buffers in a vector.\<close>

definition iov_bufs :: "vringh_kiov \<Rightarrow> (u64 \<times> u64) list" where
  "iov_bufs v = map (\<lambda>e. (iov_base e, iov_len e)) (take (unat (iov_used v)) (iov v))"

lemma alloc_flag: "bit (0x8000000 :: int) n \<longleftrightarrow> n = 27"
proof -
  have "(0x8000000 :: int) = push_bit 27 1" by simp
  then show ?thesis by (simp only: bit_push_bit_iff bit_1_iff) auto
qed

lemma capacity_set: "unat n < 2 ^ 27 \<Longrightarrow> (n OR VRINGH_IOV_ALLOCATED) AND NOT VRINGH_IOV_ALLOCATED = n"
proof -
  assume "unat n < 2 ^ 27"
  then have "take_bit 27 n = n" by (simp add: word_unat_eq_iff unsigned_take_bit_eq take_bit_nat_eq_self)
  then have "\<not> bit n 27" by (metis bit_take_bit_iff less_irrefl)
  then show ?thesis by (intro bit_word_eqI) (auto simp: bit_simps alloc_flag)
qed

lemma iov_push_run:
  assumes ok: "kiov_ok v" and used: "unat (iov_used v) < 32768" and mem: "mem \<or> iov_used v \<noteq> capacity v"
  shows "\<exists>v'. iov_push mem a n v = Inr v' \<and> kiov_ok v' \<and> iov_used v' = iov_used v + 1 \<and> iov_bufs v' = iov_bufs v @ [(a, n)]
    \<and> iov_i v' = iov_i v"
proof -
  let ?n = "if capacity v * 2 < 8 then 8 else capacity v * 2"
  let ?grown = "v\<lparr>iov := take (unat ?n) (iov v @ replicate (unat ?n) \<lparr>iov_base = 0, iov_len = 0\<rparr>), max_num := ?n OR VRINGH_IOV_ALLOCATED\<rparr>"
  let ?v = "if iov_used v = capacity v then ?grown else v"
  let ?v' = "?v\<lparr>iov := (iov ?v)[unat (iov_used v) := \<lparr>iov_base = a, iov_len = n\<rparr>], iov_used := iov_used v + 1\<rparr>"
  have run: "iov_push mem a n v = Inr ?v'"
    using mem by (auto simp: iov_push_def resize_iovec_def capacity_def Let_def)
  have u: "unat (iov_used v + 1) = unat (iov_used v) + 1" using used by (simp add: unat_word_ariths)
  have cap: "length (iov ?v) = unat (capacity ?v) \<and> unat (capacity ?v) \<le> 65536 \<and> unat (iov_used v) < length (iov ?v)
    \<and> take (unat (iov_used v)) (iov ?v) = take (unat (iov_used v)) (iov v)"
  proof (cases "iov_used v = capacity v")
    case True
    have c2: "unat (capacity v * 2) = unat (capacity v) * 2" using True used by (simp add: unat_word_ariths)
    have n: "unat (capacity v) < unat ?n" "unat ?n \<le> 65536"
      using True used c2 by (auto simp: word_less_nat_alt)
    then have "capacity ?grown = ?n" using capacity_set [of ?n] by (simp add: capacity_def)
    then show ?thesis using True n ok by (simp add: kiov_ok_def)
  next
    case False
    then have "unat (iov_used v) \<noteq> unat (capacity v)" by (simp add: word_unat_eq_iff)
    then show ?thesis using False ok by (simp add: kiov_ok_def)
  qed
  have "kiov_ok ?v'" using cap u by (auto simp: kiov_ok_def capacity_def)
  moreover have "iov_bufs ?v' = iov_bufs v @ [(a, n)]"
    unfolding iov_bufs_def using cap u by (simp add: take_Suc_conv_app_nth)
  ultimately show ?thesis using run by (intro exI [of _ ?v']) simp
qed

text \<open>
  Following a chain with the one vector of the caller: it always ends; when it succeeds, the chain
  goes in the direction of the vector and its buffers are in the vector, and it succeeds when the
  direction is right and memory can be had.
\<close>

definition seg_bufs :: "segment list \<Rightarrow> (u64 \<times> u64) list" where
  "seg_bufs ss = map (\<lambda>s. (fst (snd s), ucast (snd (snd s)))) ss"

lemma iov_push_fails: "iov_push mem a n v = Inl e \<Longrightarrow> e = ENOMEM \<and> \<not> mem \<and> iov_used v = capacity v"
  by (auto simp: iov_push_def resize_iovec_def capacity_def Let_def split: if_splits)

abbreviation (input) one_vec :: "bool \<Rightarrow> vringh_kiov \<Rightarrow> vringh_kiov option \<times> vringh_kiov option" where
  "one_vec w v \<equiv> (if w then None else Some v, if w then Some v else None)"

lemma iov_loop_chain:
  assumes "chain_ok (desc r) c ss" and "length (desc r) = unat (vh_num vrh)" and "unat i = hd c" and "length c \<le> fuel"
    and "unat (vh_num vrh) \<le> 32768" and "count + length c \<le> unat (vh_num vrh)"
    and "kiov_ok v" and "unat (iov_used v) = count" and "iov_i v = 0"
  shows "\<exists>e v'. vringh_iov_loop mem alloc vrh r fuel i count (- 1) Ring_Descs (int (unat (vh_num vrh)))
      (fst (one_vec w v)) (snd (one_vec w v))
    = Some (Inr (e, one_vec w v')) \<and> kiov_ok v' \<and> e \<in> {EOK, EPROTO, ENOMEM}
    \<and> (e = EOK \<longrightarrow> (\<forall>s \<in> set ss. fst s = w) \<and> iov_bufs v' = iov_bufs v @ seg_bufs ss)
    \<and> ((\<forall>s \<in> set ss. fst s = w) \<and> (\<forall>k. alloc k) \<longrightarrow> e = EOK)"
  using assms
proof (induction c arbitrary: ss fuel i count v)
  case (Cons a c)
  let ?d = "desc r ! a"
  obtain f where f: "fuel = Suc f" using Cons.prems(4) by (cases fuel) auto
  obtain s ss' where ss: "ss = s # ss'" "holds ?d (c \<noteq> []) s" "a < length (desc r)"
    "c \<noteq> [] \<Longrightarrow> unat (d_next ?d) = hd c \<and> chain_ok (desc r) c ss'" "c = [] \<Longrightarrow> ss' = []"
    using Cons.prems(1) by (cases c) auto
  obtain u ad l where s: "s = (u, ad, l)" by (cases s) auto
  have d: "d_flags ?d = seg_flags (c \<noteq> []) u" "d_addr ?d = ad" "d_len ?d = l" using ss(2) by (simp_all add: s holds_def)
  have i: "unat i = a" using Cons.prems(3) by simp
  have used: "unat (iov_used v) < 32768" using Cons.prems(5,6,8) by simp
  have cnt: "count \<noteq> unat (vh_num vrh)" using Cons.prems(6) by simp
  have cd: "copydesc_kern mem r Ring_Descs i = Inr ?d" using i ss(3) by (simp add: copydesc_kern_def)
  consider "u \<noteq> w" | "u = w" "\<exists>e. iov_push (alloc count) ad (ucast l) v = Inl e"
    | v1 where "u = w" "iov_push (alloc count) ad (ucast l) v = Inr v1"
    by (cases "iov_push (alloc count) ad (ucast l) v") auto
  then show ?case
  proof cases
    case 1
    then have "vringh_iov_loop mem alloc vrh r fuel i count (- 1) Ring_Descs (int (unat (vh_num vrh)))
      (fst (one_vec w v)) (snd (one_vec w v)) = Some (Inr (EPROTO, one_vec w v))"
      using cd d cnt Cons.prems(9) by (cases w; cases u; cases "c = []") (simp_all add: f)
    then show ?thesis using Cons.prems(7) 1 by (auto simp: ss(1) s)
  next
    case 2
    then have "iov_push (alloc count) ad (ucast l) v = Inl ENOMEM" "\<not> alloc count" using iov_push_fails by blast+
    moreover from this 2 have "vringh_iov_loop mem alloc vrh r fuel i count (- 1) Ring_Descs (int (unat (vh_num vrh)))
      (fst (one_vec w v)) (snd (one_vec w v)) = Some (Inr (ENOMEM, one_vec w v))"
      using cd d cnt Cons.prems(9) by (cases w; cases u; cases "c = []") (simp_all add: f)
    ultimately show ?thesis using Cons.prems(7) by auto
  next
    case 3
    have "alloc count \<or> iov_used v \<noteq> capacity v"
      using 3(2) by (auto simp: iov_push_def resize_iovec_def capacity_def Let_def)
    then have v1: "kiov_ok v1" "iov_used v1 = iov_used v + 1" "iov_bufs v1 = iov_bufs v @ [(ad, ucast l)]" "iov_i v1 = 0"
      using iov_push_run [OF Cons.prems(7) used, of "alloc count" ad "ucast l"] 3(2) Cons.prems(9) by auto
    have u1: "unat (iov_used v1) = count + 1" using v1(2) used Cons.prems(8) by (simp add: unat_word_ariths)
    show ?thesis
    proof (cases "c = []")
      case True
      then have "vringh_iov_loop mem alloc vrh r fuel i count (- 1) Ring_Descs (int (unat (vh_num vrh)))
        (fst (one_vec w v)) (snd (one_vec w v)) = Some (Inr (EOK, one_vec w v1))"
        using cd d cnt 3 Cons.prems(9) by (cases w) (simp_all add: f)
      then show ?thesis using v1 True ss(5) 3(1) by (auto simp: ss(1) s seg_bufs_def)
    next
      case False
      have nx: "unat (d_next ?d) = hd c" "chain_ok (desc r) c ss'" using ss(4) False by simp_all
      then have "hd c < length (desc r)" using chain_ok_less False by (metis hd_in_set)
      then have lt: "\<not> int (unat (vh_num vrh)) \<le> int (unat (d_next ?d))" using nx(1) Cons.prems(2) by linarith
      have step: "vringh_iov_loop mem alloc vrh r fuel i count (- 1) Ring_Descs (int (unat (vh_num vrh)))
          (fst (one_vec w v)) (snd (one_vec w v))
        = vringh_iov_loop mem alloc vrh r f (d_next ?d) (count + 1) (- 1) Ring_Descs (int (unat (vh_num vrh)))
          (fst (one_vec w v1)) (snd (one_vec w v1))"
        using cd d cnt 3 False lt Cons.prems(9) by (cases w) (simp_all add: f)
      obtain e v' where r: "vringh_iov_loop mem alloc vrh r f (d_next ?d) (count + 1) (- 1) Ring_Descs (int (unat (vh_num vrh)))
          (fst (one_vec w v1)) (snd (one_vec w v1)) = Some (Inr (e, one_vec w v'))" "kiov_ok v'" "e \<in> {EOK, EPROTO, ENOMEM}"
        "e = EOK \<longrightarrow> (\<forall>s \<in> set ss'. fst s = w) \<and> iov_bufs v' = iov_bufs v1 @ seg_bufs ss'"
        "(\<forall>s \<in> set ss'. fst s = w) \<and> (\<forall>k. alloc k) \<longrightarrow> e = EOK"
        using Cons.IH [OF nx(2) Cons.prems(2) nx(1) _ Cons.prems(5) _ v1(1) u1 v1(4), of f] Cons.prems(4,6) f by auto
      show ?thesis unfolding step using r v1(3) 3(1)
        by (intro exI [of _ e] exI [of _ v']) (simp add: ss(1) s seg_bufs_def)
    qed
  qed
qed simp

lemma ucast_u16_id: "(ucast (ucast (a :: u16) :: u32) :: u16) = a"
  by (intro bit_word_eqI) (auto simp: bit_simps)

lemma ucast_u16_add: "(ucast (a + b :: u32) :: u16) = ucast a + ucast b"
  by (simp add: word_uint_eq_iff uint_word_ariths unsigned_ucast_eq take_bit_eq_mod mod_simps mod_mod_cancel)

lemma getdesc_none:
  assumes "last_avail_idx vrh = avail_idx r"
  shows "vca_vringh_getdesc_kern mem alloc fuel r riov wiov vrh = Some (Inr (Inr None, riov, wiov, vrh))"
  using assms by (simp add: vca_vringh_getdesc_kern_def vringh_get_head_def)

lemma getdesc_run:
  assumes inv: "vq_inv vq free bufs" and b: "(c, t, ss) \<in> set bufs" and n: "vh_num vrh = num vq"
    and more: "last_avail_idx vrh \<noteq> avail_idx (vring vq)"
    and h: "avail_ring (vring vq) ! (unat (last_avail_idx vrh) mod unat (num vq)) = of_nat (hd c)"
    and v: "kiov_ok v" and fuel: "unat (num vq) \<le> fuel"
  shows "\<exists>e v'. vca_vringh_getdesc_kern mem alloc fuel (vring vq) (fst (one_vec w v)) (snd (one_vec w v)) vrh =
      Some (Inr (if e = EOK then Inr (Some (of_nat (hd c))) else Inl e, fst (one_vec w v'), snd (one_vec w v'),
        vrh\<lparr>last_avail_idx := last_avail_idx vrh + 1\<rparr>))
    \<and> kiov_ok v' \<and> (e = EOK \<longrightarrow> (\<forall>s \<in> set ss. fst s = w) \<and> iov_bufs v' = seg_bufs ss)
    \<and> ((\<forall>s \<in> set ss. fst s = w) \<and> (\<forall>k. alloc k) \<longrightarrow> e = EOK)"
proof -
  let ?vrh = "vrh\<lparr>last_avail_idx := last_avail_idx vrh + 1\<rparr>" and ?v = "v\<lparr>iov_i := 0, iov_used := 0\<rparr>"
  have ck: "chain_ok (desc (vring vq)) c ss" by (rule vq_inv_buf(1) [OF inv b])
  have nn: "unat (num vq) \<le> 32768" "length (desc (vring vq)) = unat (num vq)"
    using vq_inv_num(2) [OF inv] inv by (simp_all add: vq_inv_def)
  have ne: "c \<noteq> []" using chain_ok_length [OF ck] by simp
  have lt: "hd c < unat (num vq)" using chain_ok_less [OF ck] ne nn(2) by simp
  then have hu: "unat (of_nat (hd c) :: u16) = hd c" using nn(1) by (intro unat_of_nat_small) simp
  have hw: "unat (ucast (of_nat (hd c) :: u16) :: u32) = hd c" using hu by (simp add: unat_ucast_u16)
  have cl: "length c \<le> unat (num vq)"
  proof -
    have "length c \<le> length (concat (map fst bufs))"
      using b by (induction bufs) auto
    then show ?thesis using vq_inv_length [OF inv] by linarith
  qed
  obtain k where "num vq = 2 ^ k" "k \<le> 15" using inv by (auto simp: vq_inv_def)
  note ix = ring_index [OF this, of "last_avail_idx vrh"]
  have nle: "\<not> num vq \<le> ucast (of_nat (hd c) :: u16)" "ucast (of_nat (hd c) :: u16) \<noteq> num vq"
    using lt hw by (auto simp: word_le_nat_alt)
  have gh: "vringh_get_head vrh (vring vq) = Inr (ucast (of_nat (hd c) :: u16), ?vrh)"
    unfolding vringh_get_head_def Let_def n ix h using more nle(1) by simp
  have bk: "(ucast (ucast (of_nat (hd c) :: u16) :: u32) :: u16) = of_nat (hd c)"
    by (simp add: ucast_u16_id)
  have kv: "kiov_ok ?v" using v by (simp add: kiov_ok_def capacity_def)
  obtain e v' where l: "vringh_iov_loop mem alloc ?vrh (vring vq) fuel (of_nat (hd c)) 0 (- 1) Ring_Descs (int (unat (vh_num ?vrh)))
      (fst (one_vec w ?v)) (snd (one_vec w ?v)) = Some (Inr (e, one_vec w v'))" "kiov_ok v'"
    "e = EOK \<longrightarrow> (\<forall>s \<in> set ss. fst s = w) \<and> iov_bufs v' = iov_bufs ?v @ seg_bufs ss"
    "(\<forall>s \<in> set ss. fst s = w) \<and> (\<forall>k. alloc k) \<longrightarrow> e = EOK"
    using iov_loop_chain [OF ck, of ?vrh "of_nat (hd c)" fuel 0 ?v mem alloc w] nn n hu cl fuel kv by auto
  have "vringh_iov mem alloc fuel ?vrh (vring vq) (of_nat (hd c)) (fst (one_vec w v)) (snd (one_vec w v)) =
      Some (Inr (e, one_vec w v'))"
    using l(1) by (cases w) (simp_all add: vringh_iov_def)
  then have "vca_vringh_getdesc_kern mem alloc fuel (vring vq) (fst (one_vec w v)) (snd (one_vec w v)) vrh =
      Some (Inr (if e = EOK then Inr (Some (of_nat (hd c))) else Inl e, fst (one_vec w v'), snd (one_vec w v'), ?vrh))"
    unfolding vca_vringh_getdesc_kern_def gh using nle(2) n bk by (simp split del: if_split cong: if_cong)
  moreover have "iov_bufs ?v = []" by (simp add: iov_bufs_def)
  ultimately show ?thesis using l(2-4) by (intro exI [of _ e] exI [of _ v']) simp
qed

lemma complete_run:
  assumes "unat (vh_num vrh) = length (used_ring r)" and "0 < unat (vh_num vrh)"
    and "used_idx r = vh_last_used_idx vrh + ucast (completed vrh)"
  shows "vca_vringh_complete_kern h l vrh r = (vrh\<lparr>completed := completed vrh + 1\<rparr>,
    r\<lparr>used_ring := (used_ring r)[unat (used_idx r) mod unat (vh_num vrh) := \<lparr>ue_id = ucast h, ue_len = l\<rparr>], used_idx := used_idx r + 1\<rparr>)"
proof -
  have "unat (used_idx r) mod unat (vh_num vrh) < length (used_ring r)" using assms by simp
  then show ?thesis
    unfolding vca_vringh_complete_kern_def vringh_complete_def Let_def putused_def assms(3) [symmetric]
    by (simp add: upd_conv_take_nth_drop)
qed

section \<open>Any contents of the ring\<close>

text \<open>
  The loop with any descriptors in the ring and in memory: a descriptor that is counted lowers the
  bound by two, one that leads to a table by one, and tables do not lead to tables.
\<close>

lemma iov_loop_total:
  assumes "length (desc r) = unat (vh_num vrh)" and "ds = Ring_Descs \<Longrightarrow> unat i < unat (vh_num vrh)"
    and "ds = Ring_Descs \<longleftrightarrow> up_next = - 1" and "ds = Ring_Descs \<Longrightarrow> desc_max = int (unat (vh_num vrh))"
    and "cnt \<le> unat (vh_num vrh)" and "2 * (unat (vh_num vrh) - cnt) + (if up_next = - 1 then 2 else 1) \<le> fuel"
  shows "\<exists>res. vringh_iov_loop mem alloc vrh r fuel i cnt up_next ds desc_max riov wiov = Some (Inr res)"
  using assms(2-)
proof (induction fuel arbitrary: i cnt up_next ds desc_max riov wiov)
  case (Suc fuel)
  obtain d where d: "copydesc_kern mem r ds i = Inr d"
    using Suc.prems(1) assms(1) by (cases ds) (auto simp: copydesc_kern_def)
  show ?case
  proof (cases "d_flags d AND VRING_DESC_F_INDIRECT = 0")
    case False
    show ?thesis
    proof (cases "move_to_indirect up_next (d_addr d) d")
      case (Inr m)
      obtain up ds' dm where m: "m = (up, ds', dm)" by (cases m) auto
      have nn: "uint (d_next d) \<noteq> - 1" using unsigned_greater_eq [of "d_next d", where 'a = int] by linarith
      have u: "up_next = - 1" "up \<noteq> - 1" "ds' \<noteq> Ring_Descs"
        using Inr nn unfolding m by (auto simp: move_to_indirect_def split: if_splits)
      then have "\<exists>res. vringh_iov_loop mem alloc vrh r fuel 0 cnt up ds' dm riov wiov = Some (Inr res)"
        using Suc.prems(4,5) by (intro Suc.IH) auto
      then show ?thesis using d False Inr m by simp
    qed (use d False in simp)
  next
    case True
    let ?wr = "d_flags d AND VRING_DESC_F_WRITE \<noteq> 0"
    have next_round: "\<exists>res. (case (if d_flags d AND VRING_DESC_F_NEXT \<noteq> 0 then Some (d_next d, up_next, ds, desc_max)
          else if 0 < up_next then Some (return_from_indirect vrh up_next) else None) of
        None \<Rightarrow> Some (Inr (EOK, ri, wi))
      | Some (i, up_next, ds, desc_max) \<Rightarrow>
          if desc_max \<le> int (unat i) then Some (Inr (EINVAL, ri, wi))
          else vringh_iov_loop mem alloc vrh r fuel i (cnt + 1) up_next ds desc_max ri wi) = Some (Inr res)"
      if "cnt \<noteq> unat (vh_num vrh)" for ri wi
    proof -
      have c: "cnt + 1 \<le> unat (vh_num vrh)" using that Suc.prems(4) by simp
      have f: "2 * (unat (vh_num vrh) - (cnt + 1)) + 2 \<le> fuel" using Suc.prems(5) c by (simp split: if_splits)
      consider "d_flags d AND VRING_DESC_F_NEXT \<noteq> 0" | "d_flags d AND VRING_DESC_F_NEXT = 0" "0 < up_next"
        | "d_flags d AND VRING_DESC_F_NEXT = 0" "\<not> 0 < up_next" by blast
      then show ?thesis
      proof cases
        case 1
        have "\<exists>res. vringh_iov_loop mem alloc vrh r fuel (d_next d) (cnt + 1) up_next ds desc_max ri wi = Some (Inr res)"
          if b: "\<not> desc_max \<le> int (unat (d_next d))"
        proof (rule Suc.IH)
          show "unat (d_next d) < unat (vh_num vrh)" if "ds = Ring_Descs" using b Suc.prems(3) [OF that] by linarith
        qed (use Suc.prems(2,3) c f in auto)
        then show ?thesis using 1 by simp
      next
        case 2
        have "\<exists>res. vringh_iov_loop mem alloc vrh r fuel (of_int up_next) (cnt + 1) (- 1) Ring_Descs (int (unat (vh_num vrh))) ri wi
            = Some (Inr res)"
          if b: "\<not> int (unat (vh_num vrh)) \<le> int (unat (of_int up_next :: u16))"
        proof (rule Suc.IH)
          show "unat (of_int up_next :: u16) < unat (vh_num vrh)" using b by linarith
        qed (use c f in auto)
        then show ?thesis using 2 by (simp add: return_from_indirect_def)
      qed simp
    qed
    show ?thesis
      using d True next_round by (auto simp: Let_def split: option.splits sum.splits)
  qed
qed (simp split: if_splits)

text \<open>
  C12. Whatever the driver has written into the ring and the tables, \<open>vca_vringh_getdesc_kern\<close> ends, within
  twice as many rounds as the ring has descriptors and two more, and reads descriptors of the ring only
  within the ring.
\<close>

theorem getdesc_total:
  assumes "length (desc r) = unat (vh_num vrh)" and "riov \<noteq> None \<or> wiov \<noteq> None" and "2 * unat (vh_num vrh) + 2 \<le> fuel"
  shows "\<exists>res. vca_vringh_getdesc_kern mem alloc fuel r riov wiov vrh = Some (Inr res)"
proof (cases "vringh_get_head vrh r")
  case (Inr hv)
  obtain h vrh' where hv: "hv = (h, vrh')" by (cases hv) auto
  have n: "vh_num vrh' = vh_num vrh" and h: "h = vh_num vrh \<or> h < vh_num vrh \<and> unat h < 65536"
    using Inr hv unsigned_less [of "avail_ring r ! k" for k, where 'a = nat]
    by (auto simp: vringh_get_head_def Let_def unat_ucast_u16 not_le split: if_splits)
  show ?thesis
  proof (cases "h = vh_num vrh")
    case True
    then show ?thesis using Inr hv n by (simp add: vca_vringh_getdesc_kern_def)
  next
    case False
    then have lt: "unat (ucast h :: u16) < unat (vh_num vrh')"
      using h n by (simp add: word_less_nat_alt unsigned_ucast_eq take_bit_nat_eq_self)
    have "\<exists>res. vringh_iov_loop mem alloc vrh' r fuel (ucast h) 0 (- 1) Ring_Descs (int (unat (vh_num vrh'))) ri wi = Some (Inr res)"
      for ri wi
      by (rule iov_loop_total) (use assms(1,3) n lt in simp_all)
    then have "\<exists>res. vringh_iov mem alloc fuel vrh' r (ucast h) riov wiov = Some (Inr res)"
      using assms(2) by (cases riov; cases wiov) (simp_all add: vringh_iov_def)
    then obtain res where "vringh_iov mem alloc fuel vrh' r (ucast h) riov wiov = Some (Inr res)" ..
    then show ?thesis using Inr hv False n by (cases res) (simp add: vca_vringh_getdesc_kern_def)
  qed
qed (simp add: vca_vringh_getdesc_kern_def)

text \<open>A descriptor that leads to itself.\<close>

definition hostile_ring :: vring where
  "hostile_ring = \<lparr>desc = replicate 2 \<lparr>d_addr = 0x5000, d_len = 16, d_flags = 1, d_next = 0\<rparr>, avail_flags = 0, avail_idx = 1,
     avail_ring = [0, 0], used_event = 0, used_flags = 0, used_idx = 0, used_ring = replicate 2 \<lparr>ue_id = 0, ue_len = 0\<rparr>, avail_event = 0\<rparr>"

theorem getdesc_total_witness:
  "\<exists>res. vca_vringh_getdesc_kern (\<lambda>_ _. \<lparr>d_addr = 0, d_len = 0, d_flags = 0, d_next = 0\<rparr>) (\<lambda>_. True) 6 hostile_ring
     (Some (vringh_kiov_init [] 0)) None
     \<lparr>event_indices = False, last_avail_idx = 0, vh_last_used_idx = 0, completed = 0, vh_num = 2\<rparr> = Some (Inr res)"
  by (rule getdesc_total) (simp_all add: hostile_ring_def)

end
