(* ===== verification/Vring_System.thy ===== *)
theory Vring_System
  imports Vring_Ops Runs Ring_Window "HOL-Library.Multiset"
begin

text \<open>
  A virtio ring with the driver on one side and its user on the other: the system of the two, what
  it promises as an abstract system of four queues, and that it keeps the promise.
\<close>

unbundle bit_operations_syntax

section \<open>Windows of a ring\<close>

text \<open>The entries that one side has written and the other has not read yet.\<close>

definition ring_window :: "nat \<Rightarrow> u16 \<Rightarrow> u16 \<Rightarrow> 'a list \<Rightarrow> 'a list \<Rightarrow> bool" where
  "ring_window n new old ring xs =
     (new = old + of_nat (length xs) \<and> length xs \<le> n \<and> (\<forall>k < length xs. ring ! ((unat old + k) mod n) = xs ! k))"

definition ring_size :: "nat \<Rightarrow> bool" where
  "ring_size n = (0 < n \<and> n \<le> 32768 \<and> n dvd 65536)"

lemma ring_size_counters: "ring_size n \<Longrightarrow> ring_counters n 65536"
  by (simp add: ring_size_def ring_counters_def)

lemma ring_window_counters: "ring_window n new old ring xs \<longleftrightarrow> cwindow 65536 n (unat new) (unat old) ring xs"
  using unsigned_less [of old, where 'a = nat]
  by (auto simp: ring_window_def cwindow_def word_unat_eq_iff unat_word_ariths unat_of_nat mod_simps)

lemma window_empty: "ring_size n \<Longrightarrow> ring_window n new old ring xs \<Longrightarrow> old = new \<longleftrightarrow> xs = []"
  using cwindow_empty [OF ring_size_counters] by (simp add: ring_window_counters word_unat_eq_iff)

lemma window_push:
  assumes "ring_size n" "length ring = n" "ring_window n new old ring xs" "length xs < n"
  shows "ring_window n (new + 1) old (ring[unat new mod n := x]) (xs @ [x])"
  using cwindow_push [OF ring_size_counters] assms by (simp add: ring_window_counters unat_word_ariths)

lemma window_pop:
  assumes "ring_size n" and "ring_window n new old ring (x # xs)"
  shows "old \<noteq> new" "ring ! (unat old mod n) = x" "ring_window n new (old + 1) ring xs"
proof -
  have w: "cwindow 65536 n (unat new) (unat old) ring (x # xs)" using assms(2) by (simp only: ring_window_counters)
  note p = cwindow_pop [OF ring_size_counters [OF assms(1)] w]
  show "old \<noteq> new" using p(1) by auto
  show "ring ! (unat old mod n) = x" by (rule p(2))
  show "ring_window n new (old + 1) ring xs" using p(3) by (simp add: ring_window_counters unat_word_ariths)
qed

section \<open>The invariant of the driver, in any order of the buffers\<close>

lemma vq_inv_perm:
  assumes "vq_inv vq free bufs" and p: "mset bufs = mset bufs'"
  shows "vq_inv vq free bufs'"
proof -
  have s: "set bufs = set bufs'" using p by (rule mset_eq_setD)
  have "mset (concat (map fst bufs)) = mset (concat (map fst bufs'))"
  proof -
    have "mset (concat (map fst bs)) = sum_mset (image_mset (mset \<circ> fst) (mset bs))" for bs :: "buffer list"
      by (induction bs) simp_all
    then show ?thesis using p by simp
  qed
  then have m: "mset (free @ concat (map fst bufs)) = mset (free @ concat (map fst bufs'))" by simp
  have "distinct (free @ concat (map fst bufs')) = distinct (free @ concat (map fst bufs))"
    "set (free @ concat (map fst bufs')) = set (free @ concat (map fst bufs))"
    using mset_eq_imp_distinct_iff [OF m] mset_eq_setD [OF m] by simp_all
  moreover have "set (map buf_head bufs') = set (map buf_head bufs)" using s by simp
  ultimately have "vq_inv vq free bufs' = vq_inv vq free bufs" by (simp only: vq_inv_def s)
  then show ?thesis using assms(1) by (rule iffD2)
qed

lemma vq_inv_count:
  assumes "vq_inv vq free bufs"
  shows "length bufs \<le> unat (num vq)"
proof -
  have "fst b \<noteq> []" if "b \<in> set bufs" for b
    using vq_inv_buf(1) [OF assms, of "fst b"] chain_ok_length that by (cases b) auto
  then have "length bufs \<le> length (concat (map fst bufs))"
  proof (induction bufs)
    case (Cons b bs)
    then have "0 < length (fst b)" "length bs \<le> length (concat (map fst bs))" by simp_all
    then have "Suc (length bs) \<le> length (fst b) + length (concat (map fst bs))" by linarith
    then show ?case by simp
  qed simp
  then show ?thesis using vq_inv_length [OF assms] by linarith
qed

lemma vq_inv_ring_size: "vq_inv vq free bufs \<Longrightarrow> ring_size (unat (num vq))"
proof -
  assume inv: "vq_inv vq free bufs"
  then obtain k where k: "num vq = 2 ^ k" "k \<le> 15" by (auto simp: vq_inv_def)
  then have "unat (num vq) dvd 2 ^ 16" unfolding unat_num [OF k] using k(2) by (intro le_imp_power_dvd) simp
  then show ?thesis using vq_inv_num [OF inv] by (simp add: ring_size_def)
qed

section \<open>Both sides of a ring\<close>

text \<open>
  A ring with its two users: the queue of the driver, which holds the ring, the state of the other
  side, and the heads that the user of the other side has taken and not given back.
\<close>

record vring_sys =
  drv :: vring_virtqueue
  oth :: vringh
  held :: "u16 list"

datatype vring_event =
    Added u64 "segment list"
  | Taken u16 bool "(u64 \<times> u64) list"
  | Refused errno
  | Completed u16 u32
  | Returned u64 u32

abbreviation (input) upd_ring :: "vring \<Rightarrow> vring_sys \<Rightarrow> vring_sys" where
  "upd_ring r s \<equiv> s\<lparr>drv := (drv s)\<lparr>vring := r\<rparr>\<rparr>"

text \<open>
  One operation of one side. Adding is \<open>virtqueue_add\<close> as its three callers use it; loops have as
  many rounds as the ring has descriptors. The user of the other side passes one vector, as the
  callers do, and gives back heads it has taken.
\<close>

inductive vring_step :: "vring_sys \<Rightarrow> vring_event list \<Rightarrow> vring_sys \<Rightarrow> bool" where
  vs_add: "sgs_ok (dma_map (drv s)) total_sg out_sgs in_sgs sgs \<Longrightarrow> dat \<noteq> 0 \<Longrightarrow> 0 < total_sg \<Longrightarrow> total_sg \<le> unat (num (drv s))
    \<Longrightarrow> virtqueue_add env sgs total_sg out_sgs in_sgs dat (drv s) = Inr (e, sgs', vq)
    \<Longrightarrow> vring_step s (if e = EOK then [Added dat (sg_bufs (dma_map (drv s)) out_sgs sgs')] else []) (s\<lparr>drv := vq\<rparr>)"
| vs_get: "vca_virtqueue_get_buf (unat (num (drv s))) (drv s) = Some (Inr (t, Some l, vq)) \<Longrightarrow> t \<noteq> 0
    \<Longrightarrow> vring_step s [Returned t l] (s\<lparr>drv := vq\<rparr>)"
| vs_get_none: "vca_virtqueue_get_buf (unat (num (drv s))) (drv s) = Some (Inr (0, l, vq)) \<Longrightarrow> vring_step s [] (s\<lparr>drv := vq\<rparr>)"
| vs_driver: "vq \<in> {snd (vca_virtqueue_kick env (drv s)), vca_virtqueue_disable_cb (drv s), snd (vca_virtqueue_enable_cb (drv s)),
      snd (vca_virtqueue_enable_cb_delayed (drv s)), snd (vca_vring_interrupt (drv s)), hd (vca_virtio_break_device [drv s])}
    \<Longrightarrow> vring_step s [] (s\<lparr>drv := vq\<rparr>)"
| vs_take: "kiov_ok v
    \<Longrightarrow> vca_vringh_getdesc_kern mem alloc (unat (num (drv s))) (vring (drv s)) (fst (one_vec w v)) (snd (one_vec w v)) (oth s) =
      Some (Inr (Inr (Some h), rv, wv, vrh)) \<Longrightarrow> (if w then wv else rv) = Some v'
    \<Longrightarrow> vring_step s [Taken h w (iov_bufs v')] (s\<lparr>oth := vrh, held := held s @ [h]\<rparr>)"
| vs_take_none: "kiov_ok v
    \<Longrightarrow> vca_vringh_getdesc_kern mem alloc (unat (num (drv s))) (vring (drv s)) (fst (one_vec w v)) (snd (one_vec w v)) (oth s) =
      Some (Inr (Inr None, rv, wv, vrh)) \<Longrightarrow> vring_step s [] (s\<lparr>oth := vrh\<rparr>)"
| vs_take_error: "kiov_ok v
    \<Longrightarrow> vca_vringh_getdesc_kern mem alloc (unat (num (drv s))) (vring (drv s)) (fst (one_vec w v)) (snd (one_vec w v)) (oth s) =
      Some (Inr (Inl e, rv, wv, vrh)) \<Longrightarrow> vring_step s [Refused e] (s\<lparr>oth := vrh\<rparr>)"
| vs_complete: "h \<in> set (held s) \<Longrightarrow> vca_vringh_complete_kern h l (oth s) (vring (drv s)) = (vrh, r)
    \<Longrightarrow> vring_step s [Completed h l] (upd_ring r (s\<lparr>oth := vrh, held := remove1 h (held s)\<rparr>))"
| vs_need_notify: "vring_step s [] (s\<lparr>oth := snd (vca_vringh_need_notify_kern (vring (drv s)) (oth s))\<rparr>)"
| vs_notify: "r \<in> {snd (vca_vringh_notify_enable_kern (oth s) (vring (drv s))), vca_vringh_notify_disable_kern (oth s) (vring (drv s))}
    \<Longrightarrow> vring_step s [] (upd_ring r s)"

section \<open>What a ring promises\<close>

text \<open>
  Items are buffers by their head, with the token of the driver and the segments. Four lists hold
  them: those not taken yet, those taken, those given back with the length that was written, and
  those whose chain the other side refused.
\<close>

type_synonym ring_item = "u16 \<times> u64 \<times> segment list"

type_synonym ring_spec = "ring_item list \<times> ring_item list \<times> (ring_item \<times> u32) list \<times> ring_item list"

inductive ring_spec_step :: "ring_spec \<Rightarrow> vring_event list \<Rightarrow> ring_spec \<Rightarrow> bool" where
  rs_idle: "ring_spec_step q [] q"
| rs_add: "h \<notin> fst ` set (W @ T @ map fst D @ L) \<Longrightarrow> ss \<noteq> [] \<Longrightarrow> t \<noteq> 0
    \<Longrightarrow> ring_spec_step (W, T, D, L) [Added t ss] (W @ [(h, t, ss)], T, D, L)"
| rs_take: "\<forall>s \<in> set ss. fst s = w
    \<Longrightarrow> ring_spec_step ((h, t, ss) # W, T, D, L) [Taken h w (seg_bufs ss)] (W, T @ [(h, t, ss)], D, L)"
| rs_refuse: "ring_spec_step (x # W, T, D, L) [Refused e] (W, T, D, L @ [x])"
| rs_complete: "ring_spec_step (W, T1 @ (h, t, ss) # T2, D, L) [Completed h l] (W, T1 @ T2, D @ [((h, t, ss), l)], L)"
| rs_return: "ring_spec_step (W, T, ((h, t, ss), l) # D, L) [Returned t l] (W, T, D, L)"

section \<open>The invariant of the system\<close>

abbreviation (input) head16 :: "buffer \<Rightarrow> u16" where
  "head16 b \<equiv> of_nat (buf_head b)"

abbreviation (input) used_elem :: "buffer \<times> u32 \<Rightarrow> vring_used_elem" where
  "used_elem d \<equiv> \<lparr>ue_id = of_nat (buf_head (fst d)), ue_len = snd d\<rparr>"

definition sys_inv :: "vring_sys \<Rightarrow> nat list \<Rightarrow> buffer list \<Rightarrow> buffer list \<Rightarrow> (buffer \<times> u32) list \<Rightarrow> buffer list \<Rightarrow> bool" where
  "sys_inv s free W T D L =
     (vq_inv (drv s) free (W @ T @ map fst D @ L) \<and> vh_num (oth s) = num (drv s) \<and> held s = map head16 T
      \<and> ring_window (unat (num (drv s))) (avail_idx (vring (drv s))) (last_avail_idx (oth s)) (avail_ring (vring (drv s))) (map head16 W)
      \<and> ring_window (unat (num (drv s))) (used_idx (vring (drv s))) (last_used_idx (drv s)) (used_ring (vring (drv s))) (map used_elem D)
      \<and> used_idx (vring (drv s)) = vh_last_used_idx (oth s) + ucast (completed (oth s)))"

definition item :: "buffer \<Rightarrow> ring_item" where
  "item b = (head16 b, snd b)"

definition vring_rel :: "vring_sys \<Rightarrow> ring_spec \<Rightarrow> bool" where
  "vring_rel s q = (\<exists>free W T D L. sys_inv s free W T D L
     \<and> q = (map item W, map item T, map (\<lambda>d. (item (fst d), snd d)) D, map item L))"

lemma sys_invD:
  assumes "sys_inv s free W T D L"
  shows "vq_inv (drv s) free (W @ T @ map fst D @ L)" "vh_num (oth s) = num (drv s)" "held s = map head16 T"
    "ring_window (unat (num (drv s))) (avail_idx (vring (drv s))) (last_avail_idx (oth s)) (avail_ring (vring (drv s))) (map head16 W)"
    "ring_window (unat (num (drv s))) (used_idx (vring (drv s))) (last_used_idx (drv s)) (used_ring (vring (drv s))) (map used_elem D)"
    "used_idx (vring (drv s)) = vh_last_used_idx (oth s) + ucast (completed (oth s))"
    "ring_size (unat (num (drv s)))" "length (avail_ring (vring (drv s))) = unat (num (drv s))"
    "length (used_ring (vring (drv s))) = unat (num (drv s))"
    "length W + length T + length D + length L \<le> unat (num (drv s))"
proof -
  note i = assms [unfolded sys_inv_def]
  show v: "vq_inv (drv s) free (W @ T @ map fst D @ L)" using i by blast
  show "ring_size (unat (num (drv s)))" by (rule vq_inv_ring_size [OF v])
  show "length (avail_ring (vring (drv s))) = unat (num (drv s))" "length (used_ring (vring (drv s))) = unat (num (drv s))"
    using v by (simp_all only: vq_inv_def)
  show "length W + length T + length D + length L \<le> unat (num (drv s))" using vq_inv_count [OF v] by simp
qed (use assms [unfolded sys_inv_def] in blast)+

lemma head_less:
  assumes "vq_inv vq free bufs" and "b \<in> set bufs"
  shows "buf_head b < unat (num vq)" "unat (head16 b) = buf_head b" "(ucast (head16 b) :: u32) = of_nat (buf_head b)"
proof -
  have c: "chain_ok (desc (vring vq)) (fst b) (snd (snd b))"
    using vq_inv_buf(1) [OF assms(1), of "fst b" "fst (snd b)" "snd (snd b)"] assms(2) by simp
  show lt: "buf_head b < unat (num vq)"
    using chain_ok_less [OF c] chain_ok_length [OF c] assms(1) by (simp add: vq_inv_def)
  then show u: "unat (head16 b) = buf_head b" using vq_inv_num(2) [OF assms(1)] by (intro unat_of_nat_small) simp
  have "unat (ucast (head16 b) :: u32) = unat (of_nat (buf_head b) :: u32)"
    using u lt vq_inv_num(2) [OF assms(1)] unat_of_nat_small [of "buf_head b", where 'a = 32] by (simp add: unat_ucast_u16)
  then show "(ucast (head16 b) :: u32) = of_nat (buf_head b)" by (simp add: word_unat_eq_iff)
qed

text \<open>Operations that leave the indices alone.\<close>

lemma sys_inv_quiet:
  assumes inv: "sys_inv s free W T D L"
    and same: "num vq = num (drv s)" "num_free vq = num_free (drv s)" "free_head vq = free_head (drv s)" "data vq = data (drv s)"
      "indirect vq = indirect (drv s)" "last_used_idx vq = last_used_idx (drv s)"
      "desc (vring vq) = desc (vring (drv s))" "avail_idx (vring vq) = avail_idx (vring (drv s))"
      "avail_ring (vring vq) = avail_ring (vring (drv s))" "used_idx (vring vq) = used_idx (vring (drv s))"
      "used_ring (vring vq) = used_ring (vring (drv s))"
  shows "sys_inv (s\<lparr>drv := vq\<rparr>) free W T D L"
proof -
  have f: "drv (s\<lparr>drv := vq\<rparr>) = vq" "oth (s\<lparr>drv := vq\<rparr>) = oth s" "held (s\<lparr>drv := vq\<rparr>) = held s" by simp_all
  have v: "vq_inv vq free bufs = vq_inv (drv s) free bufs" for bufs by (simp only: vq_inv_def same)
  have "sys_inv (s\<lparr>drv := vq\<rparr>) free W T D L = sys_inv s free W T D L" by (simp only: sys_inv_def f v same)
  then show ?thesis using inv by (rule iffD2)
qed

lemma driver_quiet:
  assumes "sys_inv s free W T D L"
    and "vq \<in> {snd (vca_virtqueue_kick env (drv s)), vca_virtqueue_disable_cb (drv s), snd (vca_virtqueue_enable_cb (drv s)),
      snd (vca_virtqueue_enable_cb_delayed (drv s)), snd (vca_vring_interrupt (drv s)), hd (vca_virtio_break_device [drv s])}"
  shows "sys_inv (s\<lparr>drv := vq\<rparr>) free W T D L"
  using assms(2) vq_quiet_fields [OF kick_quiet, of env "drv s"]
  by (intro sys_inv_quiet [OF assms(1)])
    (auto simp: vca_virtqueue_disable_cb_def vca_virtqueue_enable_cb_def vca_virtqueue_enable_cb_prepare_def
      vca_virtqueue_enable_cb_delayed_def vca_vring_interrupt_def vca_virtio_break_device_def Let_def split: if_splits)

lemma notify_keeps:
  assumes "sys_inv s free W T D L"
    and "r \<in> {snd (vca_vringh_notify_enable_kern (oth s) (vring (drv s))), vca_vringh_notify_disable_kern (oth s) (vring (drv s))}"
  shows "sys_inv (upd_ring r s) free W T D L"
  using assms(2)
  by (intro sys_inv_quiet [OF assms(1)])
    (auto simp: vca_vringh_notify_enable_kern_def vca_vringh_notify_disable_kern_def)

lemma need_notify_keeps:
  assumes "sys_inv s free W T D L"
  shows "sys_inv (s\<lparr>oth := snd (vca_vringh_need_notify_kern r (oth s))\<rparr>) free W T D L"
  using assms by (auto simp: sys_inv_def vca_vringh_need_notify_kern_def)

text \<open>A buffer is added behind those waiting.\<close>

lemma add_keeps:
  assumes inv: "sys_inv s free W T D L" and ok: "sgs_ok (dma_map (drv s)) total_sg out_sgs in_sgs sgs" and dat: "dat \<noteq> 0"
    and total: "0 < total_sg" "total_sg \<le> unat (num (drv s))"
    and run: "virtqueue_add env sgs total_sg out_sgs in_sgs dat (drv s) = Inr (e, sgs', vq)"
  shows "if e = EOK then \<exists>c free'. sys_inv (s\<lparr>drv := vq\<rparr>) free' (W @ [(c, dat, sg_bufs (dma_map (drv s)) out_sgs sgs')]) T D L
    else sys_inv (s\<lparr>drv := vq\<rparr>) free W T D L"
proof -
  note i = sys_invD [OF inv]
  note r = virtqueue_add_run [OF i(1) ok dat total, of env]
  show ?thesis
  proof (cases "e = EOK")
    case False
    then have q: "vq_quiet (drv s) vq" using r run by auto
    have "sys_inv (s\<lparr>drv := vq\<rparr>) free W T D L"
      using vq_quiet_fields [OF q] by (intro sys_inv_quiet [OF inv]) simp_all
    then show ?thesis using False by simp
  next
    case True
    let ?b = "\<lambda>c. (c, dat, sg_bufs (dma_map (drv s)) out_sgs sgs')"
    obtain c free' where a: "vq_inv vq free' (?b c # W @ T @ map fst D @ L)"
      "avail_idx (vring vq) = avail_idx (vring (drv s)) + 1"
      "avail_ring (vring vq) =
         (avail_ring (vring (drv s)))[unat (avail_idx (vring (drv s))) mod unat (num (drv s)) := of_nat (hd c)]"
      "used_idx (vring vq) = used_idx (vring (drv s))" "used_ring (vring vq) = used_ring (vring (drv s))"
      "last_used_idx vq = last_used_idx (drv s)" "num vq = num (drv s)"
      using r run True by auto
    have v: "vq_inv vq free' ((W @ [?b c]) @ T @ map fst D @ L)" by (rule vq_inv_perm [OF a(1)]) simp
    have "length W < unat (num (drv s))" using vq_inv_count [OF a(1)] a(7) by simp
    then have "ring_window (unat (num vq)) (avail_idx (vring vq)) (last_avail_idx (oth s)) (avail_ring (vring vq))
        (map head16 (W @ [?b c]))"
      using window_push [OF i(7,8,4), of "of_nat (hd c)"] by (simp add: a)
    then have "sys_inv (s\<lparr>drv := vq\<rparr>) free' (W @ [?b c]) T D L"
      using v i by (simp add: sys_inv_def a(4-7))
    then show ?thesis using True by auto
  qed
qed

text \<open>The first of those given back is returned.\<close>

lemma get_keeps:
  assumes inv: "sys_inv s free W T D L"
  shows "\<exists>t l vq. vca_virtqueue_get_buf (unat (num (drv s))) (drv s) = Some (Inr (t, l, vq))
    \<and> (if broken (drv s) \<or> D = [] then t = 0 \<and> vq = drv s
       else t = fst (snd (fst (hd D))) \<and> t \<noteq> 0 \<and> l = Some (snd (hd D))
         \<and> sys_inv (s\<lparr>drv := vq\<rparr>) (fst (fst (hd D)) @ free) W T (tl D) L)"
proof -
  note i = sys_invD [OF inv]
  show ?thesis
  proof (cases "broken (drv s) \<or> D = []")
    case True
    have "D = [] \<Longrightarrow> \<not> more_used (drv s)" using window_empty [OF i(7,5)] by (simp add: more_used_def)
    then show ?thesis using True by (auto simp: vca_virtqueue_get_buf_def)
  next
    case False
    then obtain c t ss l D' where D: "D = ((c, t, ss), l) # D'" "\<not> broken (drv s)" by (cases D) auto
    have v: "vq_inv (drv s) free ((W @ T) @ (c, t, ss) # map fst D' @ L)" using i(1) by (simp add: D)
    have w: "ring_window (unat (num (drv s))) (used_idx (vring (drv s))) (last_used_idx (drv s)) (used_ring (vring (drv s)))
        (\<lparr>ue_id = of_nat (hd c), ue_len = l\<rparr> # map used_elem D')"
      using i(5) by (simp add: D)
    note p = window_pop [OF i(7) w]
    obtain vq where g: "vca_virtqueue_get_buf (unat (num (drv s))) (drv s) = Some (Inr (t, Some l, vq))"
      "vq_inv vq (c @ free) ((W @ T) @ map fst D' @ L)" "last_used_idx vq = last_used_idx (drv s) + 1" "num vq = num (drv s)"
      "avail_idx (vring vq) = avail_idx (vring (drv s))" "avail_ring (vring vq) = avail_ring (vring (drv s))"
      "used_idx (vring vq) = used_idx (vring (drv s))" "used_ring (vring vq) = used_ring (vring (drv s))"
      using get_buf_run [OF v order_refl D(2) p(1,2)] by blast
    have t: "t \<noteq> 0" using vq_inv_buf(2) [OF v, of c t ss] by simp
    have "sys_inv (s\<lparr>drv := vq\<rparr>) (c @ free) W T D' L"
      using g(2) i p(3) by (simp add: sys_inv_def g(3-8))
    then show ?thesis using g(1) t D by simp
  qed
qed

text \<open>The other side takes the first of those waiting, or loses it.\<close>

lemma take_keeps:
  assumes inv: "sys_inv s free W T D L" and v: "kiov_ok v"
  shows "\<exists>res v' vrh. vca_vringh_getdesc_kern mem alloc (unat (num (drv s))) (vring (drv s)) (fst (one_vec w v)) (snd (one_vec w v)) (oth s)
      = Some (Inr (res, fst (one_vec w v'), snd (one_vec w v'), vrh)) \<and>
    (case W of
       [] \<Rightarrow> res = Inr None \<and> vrh = oth s
     | b # W' \<Rightarrow>
         (case res of
            Inl e \<Rightarrow> sys_inv (s\<lparr>oth := vrh\<rparr>) free W' T D (L @ [b])
              \<and> \<not> ((\<forall>x \<in> set (snd (snd b)). fst x = w) \<and> (\<forall>k. alloc k))
          | Inr None \<Rightarrow> False
          | Inr (Some h) \<Rightarrow> h = head16 b \<and> (\<forall>x \<in> set (snd (snd b)). fst x = w) \<and> iov_bufs v' = seg_bufs (snd (snd b))
              \<and> sys_inv (s\<lparr>oth := vrh, held := held s @ [h]\<rparr>) free W' (T @ [b]) D L))"
proof (cases W)
  case Nil
  note i = sys_invD [OF inv]
  have "last_avail_idx (oth s) = avail_idx (vring (drv s))" using window_empty [OF i(7,4)] Nil by simp
  from getdesc_none [OF this] show ?thesis using Nil by auto
next
  case (Cons b W')
  note i = sys_invD [OF inv]
  obtain c t ss where b: "b = (c, t, ss)" by (cases b) auto
  let ?g = "vca_vringh_getdesc_kern mem alloc (unat (num (drv s))) (vring (drv s)) (fst (one_vec w v)) (snd (one_vec w v)) (oth s)"
  let ?vrh = "(oth s)\<lparr>last_avail_idx := last_avail_idx (oth s) + 1\<rparr>"
  have win: "ring_window (unat (num (drv s))) (avail_idx (vring (drv s))) (last_avail_idx (oth s)) (avail_ring (vring (drv s)))
      (of_nat (hd c) # map head16 W')"
    using i(4) by (simp add: Cons b)
  note p = window_pop [OF i(7) win]
  have mem: "(c, t, ss) \<in> set (W @ T @ map fst D @ L)" by (simp add: Cons b)
  obtain e v' where g: "?g = Some (Inr (if e = EOK then Inr (Some (of_nat (hd c))) else Inl e, fst (one_vec w v'), snd (one_vec w v'), ?vrh))"
    "e = EOK \<longrightarrow> (\<forall>x \<in> set ss. fst x = w) \<and> iov_bufs v' = seg_bufs ss"
    "(\<forall>x \<in> set ss. fst x = w) \<and> (\<forall>k. alloc k) \<longrightarrow> e = EOK"
    using getdesc_run [OF i(1) mem i(2) p(1,2) v order_refl, of mem alloc w] by blast
  have taken: "vq_inv (drv s) free (W' @ (T @ [b]) @ map fst D @ L)"
    and lost: "vq_inv (drv s) free (W' @ T @ map fst D @ (L @ [b]))"
    by (rule vq_inv_perm [OF i(1)]; simp add: Cons)+
  show ?thesis
  proof (cases "e = EOK")
    case True
    have "sys_inv (s\<lparr>oth := ?vrh, held := held s @ [of_nat (hd c)]\<rparr>) free W' (T @ [b]) D L"
      using taken i p(3) by (simp add: sys_inv_def b)
    then show ?thesis unfolding g(1) using True g(2)
      by (intro exI [of _ "Inr (Some (of_nat (hd c)))"] exI [of _ v'] exI [of _ ?vrh]) (simp add: Cons b)
  next
    case False
    have "sys_inv (s\<lparr>oth := ?vrh\<rparr>) free W' T D (L @ [b])" using lost i p(3) by (simp add: sys_inv_def)
    then show ?thesis unfolding g(1) using False g(3)
      by (intro exI [of _ "Inl e"] exI [of _ v'] exI [of _ ?vrh]) (auto simp add: Cons b)
  qed
qed

text \<open>A taken buffer is given back behind those given back before.\<close>

lemma complete_keeps:
  assumes inv: "sys_inv s free W T D L" and h: "h \<in> set (held s)"
    and run: "vca_vringh_complete_kern h l (oth s) (vring (drv s)) = (vrh, r)"
  shows "\<exists>T1 b T2. T = T1 @ b # T2 \<and> h = head16 b
    \<and> sys_inv (upd_ring r (s\<lparr>oth := vrh, held := remove1 h (held s)\<rparr>)) free W (T1 @ T2) (D @ [(b, l)]) L"
proof -
  note i = sys_invD [OF inv]
  obtain hs1 hs2 where hs: "held s = hs1 @ h # hs2" "h \<notin> set hs1" using split_list_first [OF h] by blast
  obtain T1 T' where T': "T = T1 @ T'" "map head16 T1 = hs1" "map head16 T' = h # hs2"
    using hs(1) i(3) by (auto simp: map_eq_append_conv)
  obtain b T2 where T2: "T' = b # T2" "h = head16 b" "map head16 T2 = hs2" using T'(3) by (cases T') auto
  have T: "T = T1 @ b # T2" using T' T2 by simp
  have rm: "remove1 h (held s) = map head16 (T1 @ T2)" using hs T'(2) T2(3) by (simp add: remove1_append)
  let ?ue = "\<lparr>ue_id = ucast h, ue_len = l\<rparr>"
  have u: "unat (vh_num (oth s)) = length (used_ring (vring (drv s)))" "0 < unat (vh_num (oth s))"
    using i(2,7,9) by (simp_all add: ring_size_def)
  have o: "vrh = (oth s)\<lparr>completed := completed (oth s) + 1\<rparr>"
    "r = (vring (drv s))\<lparr>used_ring := (used_ring (vring (drv s)))[unat (used_idx (vring (drv s))) mod unat (num (drv s)) := ?ue],
       used_idx := used_idx (vring (drv s)) + 1\<rparr>"
    using run complete_run [OF u i(6), of h l] i(2) by simp_all
  have "b \<in> set (W @ T @ map fst D @ L)" using T by simp
  note hb = head_less [OF i(1) this]
  have w: "ring_window (unat (num (drv s))) (used_idx r) (last_used_idx (drv s)) (used_ring r) (map used_elem (D @ [(b, l)]))"
    using window_push [OF i(7,9,5), of ?ue] i(10) T T2(2) hb(3) by (simp add: o(2))
  have "vq_inv (drv s) free (W @ (T1 @ T2) @ map fst (D @ [(b, l)]) @ L)"
    by (rule vq_inv_perm [OF i(1)]) (simp add: T)
  then have "vq_inv ((drv s)\<lparr>vring := r\<rparr>) free (W @ (T1 @ T2) @ map fst (D @ [(b, l)]) @ L)"
    by (simp add: vq_inv_def o(2))
  then have "sys_inv (upd_ring r (s\<lparr>oth := vrh, held := remove1 h (held s)\<rparr>)) free W (T1 @ T2) (D @ [(b, l)]) L"
    unfolding sys_inv_def rm using i(2,4,6) w by (simp add: o ucast_u16_add add.assoc del: map_append)
  then show ?thesis using T T2(2) by blast
qed

section \<open>The simulation\<close>

lemma fresh_head:
  assumes inv: "sys_inv s free (W @ [b]) T D L"
  shows "head16 b \<notin> head16 ` set (W @ T @ map fst D @ L)" "snd (snd b) \<noteq> []"
proof -
  let ?bs = "W @ T @ map fst D @ L"
  have v: "vq_inv (drv s) free (b # ?bs)" by (rule vq_inv_perm [OF sys_invD(1) [OF inv]]) simp
  then have dist: "distinct (free @ fst b @ concat (map fst ?bs))" by (simp add: vq_inv_def)
  have ne: "fst x \<noteq> [] \<and> snd (snd x) \<noteq> []" if "x \<in> set (b # ?bs)" for x
  proof -
    have "chain_ok (desc (vring (drv s))) (fst x) (snd (snd x))"
      using vq_inv_buf(1) [OF v, of "fst x" "fst (snd x)" "snd (snd x)"] that by simp
    from chain_ok_length [OF this] show ?thesis by auto
  qed
  then show "snd (snd b) \<noteq> []" by simp
  show "head16 b \<notin> head16 ` set ?bs"
  proof
    assume "head16 b \<in> head16 ` set ?bs"
    then obtain x where x: "x \<in> set ?bs" "head16 b = head16 x" by blast
    have "b \<in> set (b # ?bs)" "x \<in> set (b # ?bs)" using x(1) by simp_all
    then have "buf_head b = buf_head x" using head_less(2) [OF v] x(2) by metis
    moreover have "buf_head x \<in> set (concat (map fst ?bs))"
      using x(1) ne [of x] by (auto intro!: bexI [of _ x] hd_in_set)
    moreover have "buf_head b \<in> set (fst b)" using ne [of b] by simp
    ultimately show False using dist by auto
  qed
qed

abbreviation (input) items :: "buffer list \<Rightarrow> buffer list \<Rightarrow> (buffer \<times> u32) list \<Rightarrow> buffer list \<Rightarrow> ring_spec" where
  "items W T D L \<equiv> (map item W, map item T, map (\<lambda>d. (item (fst d), snd d)) D, map item L)"

lemma vring_relI: "sys_inv s free W T D L \<Longrightarrow> ring_spec_step q es (items W T D L) \<Longrightarrow> \<exists>q'. ring_spec_step q es q' \<and> vring_rel s q'"
  unfolding vring_rel_def by blast

lemma spec_of_add:
  assumes "sys_inv s free (W @ [(c, t, ss)]) T D L"
  shows "ring_spec_step (items W T D L) [Added t ss]
    (items (W @ [(c, t, ss)]) T D L)"
proof -
  have t: "t \<noteq> 0" using vq_inv_buf(2) [OF sys_invD(1) [OF assms], of c t ss] by simp
  have "fst ` set (map item W @ map item T @ map fst (map (\<lambda>d. (item (fst d), snd d)) D) @ map item L)
      = head16 ` set (W @ T @ map fst D @ L)"
    by (simp add: item_def image_Un image_image)
  then have "of_nat (hd c) \<notin> fst ` set (map item W @ map item T @ map fst (map (\<lambda>d. (item (fst d), snd d)) D) @ map item L)"
    using fresh_head(1) [OF assms] by simp
  from rs_add [OF this fresh_head(2) [OF assms, simplified] t] show ?thesis by (simp add: item_def)
qed

lemma vring_simulates:
  assumes "vring_rel s q" and "vring_step s es s'"
  shows "\<exists>q'. ring_spec_step q es q' \<and> vring_rel s' q'"
proof -
  obtain free W T D L where inv: "sys_inv s free W T D L"
    and q: "q = items W T D L"
    using assms(1) by (auto simp: vring_rel_def)
  have idle: "\<exists>q'. ring_spec_step q [] q' \<and> vring_rel s1 q'" if "sys_inv s1 free1 W T D L" for s1 free1
    by (rule vring_relI [OF that]) (simp add: q rs_idle)
  show ?thesis
    using assms(2)
  proof cases
    case (vs_add total_sg out_sgs in_sgs sgs dat env e sgs' vq)
    note k = add_keeps [OF inv vs_add(3-7)]
    show ?thesis
    proof (cases "e = EOK")
      case True
      then obtain c free' where "sys_inv s' free' (W @ [(c, dat, sg_bufs (dma_map (drv s)) out_sgs sgs')]) T D L"
        using k vs_add(2) by auto
      from vring_relI [OF this spec_of_add [OF this]] show ?thesis using True vs_add(1) by (simp add: q)
    next
      case False
      then show ?thesis using k vs_add(1,2) idle by simp
    qed
  next
    case (vs_get t l vq)
    obtain vq' where D: "\<not> (broken (drv s) \<or> D = [])" "t = fst (snd (fst (hd D)))" "l = snd (hd D)"
      "sys_inv s' (fst (fst (hd D)) @ free) W T (tl D) L"
      using get_keeps [OF inv] vs_get(2-4) by (auto split: if_splits)
    obtain c ss D' where D': "D = ((c, t, ss), l) # D'" using D(1-3) by (cases D) auto
    have "ring_spec_step q [Returned t l] (items W T D' L)"
      unfolding q D' by (simp add: item_def rs_return)
    from vring_relI [OF _ this] show ?thesis using D(4) vs_get(1) by (simp add: D')
  next
    case (vs_get_none l vq)
    then have "vq = drv s" using get_keeps [OF inv] by (auto split: if_splits)
    then show ?thesis using vs_get_none(1,2) idle [OF inv] by simp
  next
    case (vs_driver vq env)
    then show ?thesis using idle driver_quiet [OF inv vs_driver(3)] by simp
  next
    case (vs_take v mem alloc w h rv wv vrh v')
    obtain b W' where W: "W = b # W'" "h = head16 b" "\<forall>x \<in> set (snd (snd b)). fst x = w" "iov_bufs v' = seg_bufs (snd (snd b))"
      "sys_inv s' free W' (T @ [b]) D L"
      using take_keeps [OF inv vs_take(3), of mem alloc w] vs_take(2,4,5) by (cases W; cases w) auto
    have "ring_spec_step q es (items W' (T @ [b]) D L)"
      using rs_take [OF W(3), of h "fst (snd b)"] unfolding q W(1) vs_take(1) W(4) by (simp add: item_def W(2))
    from vring_relI [OF W(5) this] show ?thesis .
  next
    case (vs_take_none v mem alloc w rv wv vrh)
    then have "vrh = oth s" using take_keeps [OF inv vs_take_none(3), of mem alloc w] by (cases W) auto
    then show ?thesis using vs_take_none(1,2) idle [OF inv] by simp
  next
    case (vs_take_error v mem alloc w e rv wv vrh)
    then obtain b W' where W: "W = b # W'" "sys_inv s' free W' T D (L @ [b])"
      using take_keeps [OF inv vs_take_error(3), of mem alloc w] by (cases W) auto
    have "ring_spec_step q es (items W' T D (L @ [b]))"
      unfolding q W(1) vs_take_error(1) by (simp add: rs_refuse)
    from vring_relI [OF W(2) this] show ?thesis .
  next
    case (vs_complete h l vrh r)
    obtain T1 b T2 where T: "T = T1 @ b # T2" "h = head16 b" "sys_inv s' free W (T1 @ T2) (D @ [(b, l)]) L"
      using complete_keeps [OF inv vs_complete(3,4)] vs_complete(2) by auto
    have "ring_spec_step q es (items W (T1 @ T2) (D @ [(b, l)]) L)"
      using rs_complete [of "map item W" "map item T1" h "fst (snd b)" "snd (snd b)"]
      unfolding q T(1) vs_complete(1) by (simp add: item_def T(2))
    from vring_relI [OF T(3) this] show ?thesis .
  next
    case vs_need_notify
    from idle [OF need_notify_keeps [OF inv]] show ?thesis unfolding vs_need_notify .
  next
    case (vs_notify r)
    then show ?thesis using idle notify_keeps [OF inv vs_notify(3)] by simp
  qed
qed

interpretation vr: forward_simulation vring_step ring_spec_step vring_rel
  by unfold_locales (rule vring_simulates)

section \<open>The start\<close>

lemma pow2_nat:
  fixes n :: nat
  assumes "0 < n" and "n AND (n - 1) = 0"
  shows "\<exists>k. n = 2 ^ k"
  using assms
proof (induction n rule: less_induct)
  case (less n)
  show ?case
  proof (cases "even n")
    case False
    then obtain m where m: "n = 2 * m + 1" using oddE by blast
    have "n AND (n - 1) = 2 * m" using m by (subst and_nat_unfold) simp
    then have "n = 2 ^ 0" using less.prems m by simp
    then show ?thesis by blast
  next
    case True
    then obtain m where m: "n = 2 * m" by blast
    then have "0 < m" using less.prems by simp
    have "(n - 1) div 2 = m - 1" using m \<open>0 < m\<close> by simp
    then have "n AND (n - 1) = 2 * (m AND (m - 1))" using m \<open>0 < m\<close> by (subst and_nat_unfold) simp
    then obtain k where "m = 2 ^ k" using less.IH [of m] less.prems m \<open>0 < m\<close> by auto
    then have "n = 2 ^ Suc k" using m by simp
    then show ?thesis by blast
  qed
qed

lemma pow2_word:
  fixes n :: u32
  assumes "n \<noteq> 0" and "n \<le> 0xffff" and "n AND (n - 1) = 0"
  shows "\<exists>k \<le> 15. n = 2 ^ k"
proof -
  have pos: "0 < unat n" using assms(1) by (simp add: unat_gt_0)
  have "unat (n - 1) = unat n - 1" using assms(1) by (simp add: unat_minus_one)
  moreover have "unat (n AND (n - 1)) = 0" using assms(3) by simp
  ultimately have "unat n AND (unat n - 1) = 0" by (simp add: unsigned_and_eq)
  then obtain k where k: "unat n = 2 ^ k" using pow2_nat [OF pos] by blast
  have "unat n \<le> 0xffff" using assms(2) by (simp add: word_le_nat_alt)
  then have "(2 :: nat) ^ k < 2 ^ 16" using k by simp
  then have "k \<le> 15" using power_less_imp_less_exp [of "2 :: nat" k 16] by simp
  moreover have "n = 2 ^ k" using k unat_pow2 [of k, where 'a = 32] \<open>k \<le> 15\<close> by (simp add: word_unat_eq_iff)
  ultimately show ?thesis by blast
qed

text \<open>The memory of a new ring of \<open>n\<close> descriptors.\<close>

definition new_ring :: "nat \<Rightarrow> vring \<Rightarrow> bool" where
  "new_ring n r = (length (desc r) = n \<and> length (avail_ring r) = n \<and> length (used_ring r) = n \<and> avail_idx r = 0 \<and> used_idx r = 0)"

lemma dpath_upt:
  assumes "\<And>i. a \<le> i \<Longrightarrow> Suc i < n \<Longrightarrow> unat (d_next (ds ! i)) = Suc i" and "a < n" and "n \<le> length ds"
  shows "\<exists>y. dpath ds a [a..<n] y"
  using assms
proof (induction "n - a" arbitrary: a)
  case (Suc m)
  show ?case
  proof (cases "Suc a = n")
    case True
    then have "dpath ds a [a..<n] (unat (d_next (ds ! a)))" using Suc.prems by (simp add: upt_rec)
    then show ?thesis ..
  next
    case False
    then have lt: "Suc a < n" using Suc.prems(2) by simp
    have "m = n - Suc a" using Suc.hyps(2) by simp
    then have "\<exists>y. dpath ds (Suc a) [Suc a..<n] y"
      by (rule Suc.hyps(1)) (use Suc.prems lt in simp_all)
    then obtain y where "dpath ds (Suc a) [Suc a..<n] y" ..
    then have "dpath ds a (a # [Suc a..<n]) y" using Suc.prems lt by simp
    then show ?thesis using Suc.prems(2) by (auto simp: upt_conv_Cons)
  qed
qed simp

lemma new_virtqueue_inv:
  assumes new: "vca_vring_new_virtqueue n features parent callback pages mem = Some (Inr vq)"
    and n: "n \<noteq> 0" "n \<le> 0xffff" and pages: "new_ring (unat n) pages" and ind: "\<not> bit features VIRTIO_RING_F_INDIRECT_DESC"
  shows "vq_inv vq [0..<unat n] []" "num vq = n" "last_used_idx vq = 0" "avail_idx (vring vq) = 0" "used_idx (vring vq) = 0"
proof -
  have p2: "n AND (n - 1) = 0" using new by (auto simp: vca_vring_new_virtqueue_def split: if_splits)
  obtain k where k: "k \<le> 15" "n = 2 ^ k" using pow2_word [OF n p2] by blast
  have n1: "unat (n - 1) = unat n - 1" using n(1) by (simp add: unat_minus_one)
  have pos: "0 < unat n" using n(1) by (simp add: unat_gt_0)
  have le: "unat n \<le> 0xffff" using n(2) by (simp add: word_le_nat_alt)
  show f: "num vq = n" "last_used_idx vq = 0" "avail_idx (vring vq) = 0" "used_idx (vring vq) = 0"
    using new pages by (auto simp: vca_vring_new_virtqueue_def new_ring_def split: if_splits)
  have g: "\<not> indirect vq" "length (desc (vring vq)) = unat n" "data vq = replicate (unat n) 0" "free_head vq = 0" "num_free vq = n"
    "length (avail_ring (vring vq)) = unat n" "length (used_ring (vring vq)) = unat n"
    using new pages ind by (auto simp: vca_vring_new_virtqueue_def new_ring_def split: if_splits)
  have d: "desc (vring vq) ! i = (desc pages ! i)\<lparr>d_next := of_nat i + 1\<rparr>" if "Suc i < unat n" for i
    using new pages that n1 by (auto simp: vca_vring_new_virtqueue_def new_ring_def split: if_splits)
  have "unat (d_next (desc (vring vq) ! i)) = Suc i" if i: "Suc i < unat n" for i
  proof -
    have "unat (of_nat (Suc i) :: u16) = Suc i" using i le by (intro unat_of_nat_small) simp
    then show ?thesis by (simp add: d [OF i] add.commute)
  qed
  then obtain y where y: "dpath (desc (vring vq)) 0 [0..<unat n] y"
    using dpath_upt [of 0 "unat n" "desc (vring vq)"] pos g(2) by auto
  show "vq_inv vq [0..<unat n] []"
    by (rule vq_invI [where y = y]) (use k g f y in \<open>auto simp: atLeast0LessThan\<close>)
qed

lemma vring_rel_start:
  assumes new: "vca_vring_new_virtqueue n features parent callback pages mem = Some (Inr vq)"
    and init: "vca_vringh_init_kern features' n = Inr vrh"
    and pages: "new_ring (unat n) pages" and ind: "\<not> bit features VIRTIO_RING_F_INDIRECT_DESC"
  shows "vring_rel \<lparr>drv = vq, oth = vrh, held = []\<rparr> ([], [], [], [])"
proof -
  have n: "n \<noteq> 0" "n \<le> 0xffff"
    and o: "vh_num vrh = n" "last_avail_idx vrh = 0" "vh_last_used_idx vrh = 0" "completed vrh = 0"
    using init by (auto simp: vca_vringh_init_kern_def split: if_splits)
  note v = new_virtqueue_inv [OF new n pages ind]
  have "sys_inv \<lparr>drv = vq, oth = vrh, held = []\<rparr> [0..<unat n] [] [] [] []"
    using v o by (simp add: sys_inv_def ring_window_def)
  then show ?thesis unfolding vring_rel_def by (intro exI conjI) auto
qed

section \<open>What runs show\<close>

fun added_tokens :: "vring_event list \<Rightarrow> u64 list" where
  "added_tokens [] = []"
| "added_tokens (Added t ss # es) = t # added_tokens es"
| "added_tokens (_ # es) = added_tokens es"

fun returned_tokens :: "vring_event list \<Rightarrow> u64 list" where
  "returned_tokens [] = []"
| "returned_tokens (Returned t l # es) = t # returned_tokens es"
| "returned_tokens (_ # es) = returned_tokens es"

lemma tokens_append [simp]:
  "added_tokens (es @ es') = added_tokens es @ added_tokens es'"
  "returned_tokens (es @ es') = returned_tokens es @ returned_tokens es'"
  by (induction es rule: added_tokens.induct) simp_all

definition spec_tokens :: "ring_spec \<Rightarrow> u64 multiset" where
  "spec_tokens q = (case q of (W, T, D, L) \<Rightarrow> mset (map (fst \<circ> snd) (W @ T @ map fst D @ L)))"

lemma spec_step_tokens:
  "ring_spec_step q es q' \<Longrightarrow> spec_tokens q + mset (added_tokens es) = mset (returned_tokens es) + spec_tokens q'"
  by (induction rule: ring_spec_step.induct) (simp_all add: spec_tokens_def)

lemma spec_tokens_run:
  "steps ring_spec_step q es q' \<Longrightarrow> spec_tokens q + mset (added_tokens es) = mset (returned_tokens es) + spec_tokens q'"
proof (induction rule: steps.induct)
  case (steps_more q es q' es' q'')
  then show ?case using spec_step_tokens [OF steps_more.hyps(2)]
    by (simp add: add.assoc [symmetric])
qed simp

lemma distinct_heads:
  assumes "distinct (concat (map fst bufs))" and "\<And>b. b \<in> set bufs \<Longrightarrow> fst b \<noteq> []"
  shows "distinct (map buf_head bufs)"
  using assms
proof (induction bufs)
  case (Cons b bs)
  have "buf_head b \<noteq> buf_head x" if "x \<in> set bs" for x
  proof -
    have "buf_head b \<in> set (fst b)" "buf_head x \<in> set (fst x)" using Cons.prems(2) that by simp_all
    then show ?thesis using Cons.prems(1) that by fastforce
  qed
  then show ?case using Cons by auto
qed simp

lemma data_tokens:
  assumes "vq_inv vq free bufs"
  shows "mset (filter (\<lambda>t. t \<noteq> 0) (data vq)) = mset (map (fst \<circ> snd) bufs)"
proof -
  have b: "chain_ok (desc (vring vq)) (fst b) (snd (snd b)) \<and> fst (snd b) \<noteq> 0 \<and> data vq ! buf_head b = fst (snd b)"
    if "b \<in> set bufs" for b
    using vq_inv_buf [OF assms, of "fst b" "fst (snd b)" "snd (snd b)"] that by simp
  then have hd: "buf_head b < unat (num vq) \<and> fst (snd b) \<noteq> 0 \<and> data vq ! buf_head b = fst (snd b)" if "b \<in> set bufs" for b
    using head_less(1) [OF assms that] that by simp
  have ne: "fst b \<noteq> []" if "b \<in> set bufs" for b using b [OF that] chain_ok_length by blast
  have d: "distinct (map buf_head bufs)"
    using assms by (intro distinct_heads ne) (simp_all add: vq_inv_def)
  have z: "data vq ! i = 0" if "i < unat (num vq)" "i \<notin> set (map buf_head bufs)" for i
    using assms that by (simp add: vq_inv_def)
  have l: "length (data vq) = unat (num vq)" using assms by (simp add: vq_inv_def)
  let ?is = "filter (\<lambda>i. data vq ! i \<noteq> 0) [0..<unat (num vq)]"
  have "filter (\<lambda>t. t \<noteq> 0) (data vq) = map ((!) (data vq)) ?is"
    by (subst (1) map_nth [symmetric]) (simp add: l filter_map comp_def)
  then have "mset (filter (\<lambda>t. t \<noteq> 0) (data vq)) = image_mset ((!) (data vq)) (mset ?is)" by simp
  also have "mset ?is = mset (map buf_head bufs)"
  proof (rule set_eq_iff_mset_eq_distinct [THEN iffD1])
    show "set ?is = set (map buf_head bufs)"
    proof (intro equalityI subsetI)
      fix i
      assume "i \<in> set ?is"
      then show "i \<in> set (map buf_head bufs)" using z [of i] by auto
    qed (use hd in auto)
  qed (use d in simp_all)
  also have "image_mset ((!) (data vq)) (mset (map buf_head bufs)) = mset (map ((!) (data vq)) (map buf_head bufs))"
    by (simp only: mset_map)
  also have "map ((!) (data vq)) (map buf_head bufs) = map (fst \<circ> snd) bufs" using hd by simp
  finally show ?thesis .
qed

lemma add_succeeds:
  assumes inv: "vq_inv vq free bufs" and nb: "\<not> broken vq" "\<not> dma_map vq" and ok: "sgs_ok False total_sg out_sgs in_sgs sgs"
    and dat: "dat \<noteq> 0" and total: "0 < total_sg" "total_sg \<le> unat (num_free vq)"
  shows "\<exists>vq'. virtqueue_add env sgs total_sg out_sgs in_sgs dat vq = Inr (EOK, sgs, vq')"
proof -
  have ind: "\<not> indirect vq" using inv by (simp add: vq_inv_def)
  have nf: "unat (num_free vq) = length free" using inv by (simp add: vq_inv_def)
  then have le: "total_sg \<le> unat (num vq)" using total(2) vq_inv_length [OF inv] by linarith
  obtain e sgs' vq' where r: "virtqueue_add env sgs total_sg out_sgs in_sgs dat vq = Inr (e, sgs', vq')"
    "e = EOK \<or> e = EIO \<and> broken vq \<or> e = ENOSPC \<and> length free < total_sg \<or> e = ENOMEM \<and> dma_map vq"
    using virtqueue_add_run [OF inv _ dat total(1) le, of out_sgs in_sgs sgs env] ok nb(2) by (auto split: if_splits)
  then have "e = EOK" using nb nf total(2) by auto
  moreover have "sgs' = sgs"
    using r(1) nb(2) ind by (auto simp: virtqueue_add_def Let_def split: if_splits sum.splits option.splits)
  ultimately show ?thesis using r(1) by blast
qed

lemma take_buffer:
  assumes inv: "sys_inv s free W T D L" and W: "W = b # W'" and dir: "\<forall>x \<in> set (snd (snd b)). fst x = w" and v: "kiov_ok v"
  shows "\<exists>v' vrh. vca_vringh_getdesc_kern mem (\<lambda>_. True) (unat (num (drv s))) (vring (drv s)) (fst (one_vec w v)) (snd (one_vec w v)) (oth s)
      = Some (Inr (Inr (Some (head16 b)), fst (one_vec w v'), snd (one_vec w v'), vrh)) \<and> iov_bufs v' = seg_bufs (snd (snd b))"
proof -
  obtain res v' vrh where r: "vca_vringh_getdesc_kern mem (\<lambda>_. True) (unat (num (drv s))) (vring (drv s))
        (fst (one_vec w v)) (snd (one_vec w v)) (oth s) = Some (Inr (res, fst (one_vec w v'), snd (one_vec w v'), vrh))"
    "case res of
       Inl e \<Rightarrow> sys_inv (s\<lparr>oth := vrh\<rparr>) free W' T D (L @ [b]) \<and> \<not> ((\<forall>x \<in> set (snd (snd b)). fst x = w) \<and> (\<forall>k::nat. True))
     | Inr None \<Rightarrow> False
     | Inr (Some h) \<Rightarrow> h = head16 b \<and> (\<forall>x \<in> set (snd (snd b)). fst x = w) \<and> iov_bufs v' = seg_bufs (snd (snd b))
         \<and> sys_inv (s\<lparr>oth := vrh, held := held s @ [h]\<rparr>) free W' (T @ [b]) D L"
    using take_keeps [OF inv v, of mem "\<lambda>_. True" w] unfolding W list.case by blast
  obtain h where "res = Inr (Some h)" using r(2) dir by (cases res) (auto split: option.splits)
  then show ?thesis using r by (intro exI [of _ v'] exI [of _ vrh]) simp
qed

text \<open>
  Runs of a ring from its creation: \<open>n\<close> descriptors, direct descriptors only, a queue and its other
  side on fresh memory.
\<close>

definition vring_run :: "u32 \<Rightarrow> vring_event list \<Rightarrow> vring_sys \<Rightarrow> bool" where
  "vring_run n es s =
     (\<exists>features features' parent callback pages mem vq vrh.
        vca_vring_new_virtqueue n features parent callback pages mem = Some (Inr vq)
        \<and> vca_vringh_init_kern features' n = Inr vrh
        \<and> new_ring (unat n) pages \<and> \<not> bit features VIRTIO_RING_F_INDIRECT_DESC
        \<and> steps vring_step \<lparr>drv = vq, oth = vrh, held = []\<rparr> es s)"

lemma vring_run_rel:
  assumes "vring_run n es s"
  shows "\<exists>q. steps ring_spec_step ([], [], [], []) es q \<and> vring_rel s q"
proof -
  obtain features features' parent callback pages mem vq vrh where
    i: "vca_vring_new_virtqueue n features parent callback pages mem = Some (Inr vq)" "vca_vringh_init_kern features' n = Inr vrh"
      "new_ring (unat n) pages" "\<not> bit features VIRTIO_RING_F_INDIRECT_DESC"
    and run: "steps vring_step \<lparr>drv = vq, oth = vrh, held = []\<rparr> es s"
    using assms unfolding vring_run_def by blast
  show ?thesis by (rule vr.runs_refine [OF run vring_rel_start [OF i]])
qed

text \<open>
  C3. A virtio ring with the driver on one side (\<open>virtqueue_add\<close>, \<open>vca_virtqueue_get_buf\<close> and the
  operations on notifications) and its user on the other (\<open>vca_vringh_getdesc_kern\<close>,
  \<open>vca_vringh_complete_kern\<close> and theirs), in any interleaving of whole operations, with failing
  allocations, mappings and notifications, is a run of the abstract ring: buffers reach the other side
  in the order in which they were added, each with exactly its segments, and each one given back
  is returned to the driver in that order with its token and the length reported for it.
\<close>

theorem vring_delivers_in_order:
  assumes "vring_run n es s"
  shows "\<exists>q. steps ring_spec_step ([], [], [], []) es q"
  using vring_run_rel [OF assms] by blast

text \<open>
  C9. No token is lost or returned twice: in every run, the tokens added are those returned together
  with those that the queue still holds in its array of tokens.
\<close>

theorem vring_tokens_conserved:
  assumes "vring_run n es s"
  shows "mset (added_tokens es) = mset (returned_tokens es) + mset (filter (\<lambda>t. t \<noteq> 0) (data (drv s)))"
proof -
  obtain q where q: "steps ring_spec_step ([], [], [], []) es q" "vring_rel s q" using vring_run_rel [OF assms] by blast
  obtain free W T D L where inv: "sys_inv s free W T D L" and qi: "q = items W T D L"
    using q(2) by (auto simp: vring_rel_def)
  have "map (fst \<circ> snd) (map item bs) = map (fst \<circ> snd) bs" for bs by (simp add: item_def)
  moreover have "map fst (map (\<lambda>d. (item (fst d), snd d)) D) = map item (map fst D)" by simp
  ultimately have "spec_tokens q = mset (map (fst \<circ> snd) (W @ T @ map fst D @ L))"
    unfolding qi spec_tokens_def prod.case map_append by (simp only:)
  then show ?thesis
    using spec_tokens_run [OF q(1)] data_tokens [OF sys_invD(1) [OF inv]] by (simp add: spec_tokens_def)
qed


section \<open>A run\<close>

text \<open>One buffer through a ring of two descriptors: added, taken, given back with 48 bytes written, and returned.\<close>

definition ring_demo_env :: vq_env where
  "ring_demo_env = \<lparr>env_map = (\<lambda>_ _ _ _. 0), env_table = (\<lambda>_ _. None), env_notify = (\<lambda>_. True)\<rparr>"

definition ring_demo_pages :: vring where
  "ring_demo_pages = \<lparr>desc = replicate 2 \<lparr>d_addr = 0, d_len = 0, d_flags = 0, d_next = 0\<rparr>, avail_flags = 0, avail_idx = 0,
    avail_ring = [0, 0], used_event = 0, used_flags = 0, used_idx = 0, used_ring = replicate 2 \<lparr>ue_id = 0, ue_len = 0\<rparr>, avail_event = 0\<rparr>"

definition ring_demo_sg :: scatterlist where
  "ring_demo_sg = \<lparr>sg_virt = 0x1000, sg_phys = 0x5000, sg_length = 64, sg_end = True, dma_address = 0\<rparr>"

definition ring_demo_iov :: vringh_kiov where
  "ring_demo_iov = vringh_kiov_init [\<lparr>iov_base = 0, iov_len = 0\<rparr>] 1"

definition ring_demo_vq :: vring_virtqueue where
  "ring_demo_vq = \<lparr>num = 2, num_free = 2,
     vring = ring_demo_pages\<lparr>desc := [\<lparr>d_addr = 0, d_len = 0, d_flags = 0, d_next = 1\<rparr>, \<lparr>d_addr = 0, d_len = 0, d_flags = 0, d_next = 0\<rparr>]\<rparr>,
     broken = False, indirect = False, event = False, dma_map = False, has_parent = False, has_callback = True,
     free_head = 0, num_added = 0, last_used_idx = 0, data = [0, 0], tables = [], mapped = [], dma_calls = 0, alloc_calls = 0,
     notifications = 0, callbacks_run = 0\<rparr>"

definition ring_demo_added :: vring_virtqueue where
  "ring_demo_added = ring_demo_vq\<lparr>num_free := 1, free_head := 1, num_added := 1, data := [7, 0],
     vring := ring_demo_pages\<lparr>desc := [\<lparr>d_addr = 0x5000, d_len = 64, d_flags = 2, d_next = 1\<rparr>,
       \<lparr>d_addr = 0, d_len = 0, d_flags = 0, d_next = 0\<rparr>], avail_idx := 1\<rparr>\<rparr>"

definition ring_demo_completed :: vring_virtqueue where
  "ring_demo_completed = ring_demo_added\<lparr>vring := (vring ring_demo_added)\<lparr>used_idx := 1,
     used_ring := [\<lparr>ue_id = 0, ue_len = 48\<rparr>, \<lparr>ue_id = 0, ue_len = 0\<rparr>]\<rparr>\<rparr>"

definition ring_demo_returned :: vring_virtqueue where
  "ring_demo_returned = ring_demo_completed\<lparr>num_free := 2, free_head := 0, data := [0, 0], last_used_idx := 1,
     vring := (vring ring_demo_completed)\<lparr>used_event := 1\<rparr>\<rparr>"

definition ring_demo_oth :: "u16 \<Rightarrow> u32 \<Rightarrow> vringh" where
  "ring_demo_oth avail done_count = \<lparr>event_indices = False, last_avail_idx = avail, vh_last_used_idx = 0, completed = done_count, vh_num = 2\<rparr>"

lemmas ring_demo_defs = ring_demo_env_def ring_demo_pages_def ring_demo_sg_def ring_demo_iov_def ring_demo_vq_def ring_demo_added_def ring_demo_completed_def
  ring_demo_returned_def ring_demo_oth_def

lemma ring_demo_sgs: "sgs_ok False 1 0 1 [[ring_demo_sg]]"
  by (simp add: sgs_ok_def terminated_def ring_demo_sg_def)

lemma ring_demo_start:
  "vca_vring_new_virtqueue 2 0 False True ring_demo_pages True = Some (Inr ring_demo_vq)"
  "vca_vringh_init_kern 0 2 = Inr (ring_demo_oth 0 0)" "new_ring (unat (2 :: u32)) ring_demo_pages"
  by code_simp+

lemma ring_demo_add: "virtqueue_add ring_demo_env [[ring_demo_sg]] 1 0 1 7 ring_demo_vq = Inr (EOK, [[ring_demo_sg]], ring_demo_added)"
  by code_simp

lemma ring_demo_take: "vca_vringh_getdesc_kern (\<lambda>_ _. \<lparr>d_addr = 0, d_len = 0, d_flags = 0, d_next = 0\<rparr>) (\<lambda>_. True) 2 (vring ring_demo_added)
    None (Some ring_demo_iov) (ring_demo_oth 0 0)
  = Some (Inr (Inr (Some 0), None, Some (ring_demo_iov\<lparr>iov := [\<lparr>iov_base = 0x5000, iov_len = 64\<rparr>], iov_used := 1\<rparr>), ring_demo_oth 1 0))"
  by code_simp

lemma ring_demo_complete: "vca_vringh_complete_kern 0 48 (ring_demo_oth 1 0) (vring ring_demo_added) = (ring_demo_oth 1 1, vring ring_demo_completed)"
  by code_simp

lemma ring_demo_get: "vca_virtqueue_get_buf 2 ring_demo_completed = Some (Inr (7, Some 48, ring_demo_returned))"
  by code_simp

lemma ring_demo_run:
  "vring_run 2 [Added 7 [(True, 0x5000, 64)], Taken 0 True [(0x5000, 64)], Completed 0 48, Returned 7 48]
     \<lparr>drv = ring_demo_returned, oth = ring_demo_oth 1 1, held = []\<rparr>"
proof -
  let ?s = "\<lambda>v u h. \<lparr>drv = v, oth = u, held = h\<rparr>"
  have num: "unat (num ring_demo_vq) = 2" "unat (num ring_demo_added) = 2" "unat (num ring_demo_completed) = 2" "dma_map ring_demo_vq = False"
    by (simp_all add: ring_demo_defs)
  have ok: "sgs_ok False 1 0 1 [[ring_demo_sg]]" "sg_bufs False 0 [[ring_demo_sg]] = [(True, 0x5000, 64)]" "kiov_ok ring_demo_iov"
    "iov_bufs (ring_demo_iov\<lparr>iov := [\<lparr>iov_base = 0x5000, iov_len = 64\<rparr>], iov_used := 1\<rparr>) = [(0x5000, 64)]"
    by (simp_all add: sgs_ok_def terminated_def ring_demo_defs sg_bufs_def kiov_ok_def capacity_def vringh_kiov_init_def iov_bufs_def)
  have add: "vring_step (?s ring_demo_vq (ring_demo_oth 0 0) []) [Added 7 [(True, 0x5000, 64)]] (?s ring_demo_added (ring_demo_oth 0 0) [])"
    using vs_add [of "?s ring_demo_vq (ring_demo_oth 0 0) []" 1 0 1 "[[ring_demo_sg]]" 7 ring_demo_env EOK "[[ring_demo_sg]]" ring_demo_added] ring_demo_add ok num by simp
  have take: "vring_step (?s ring_demo_added (ring_demo_oth 0 0) []) [Taken 0 True [(0x5000, 64)]] (?s ring_demo_added (ring_demo_oth 1 0) [0])"
    using vs_take [of ring_demo_iov "\<lambda>_ _. \<lparr>d_addr = 0, d_len = 0, d_flags = 0, d_next = 0\<rparr>" "\<lambda>_. True"
        "?s ring_demo_added (ring_demo_oth 0 0) []" True 0 None _ "ring_demo_oth 1 0"] ring_demo_take ok num by simp
  have complete: "vring_step (?s ring_demo_added (ring_demo_oth 1 0) [0]) [Completed 0 48] (?s ring_demo_completed (ring_demo_oth 1 1) [])"
    using vs_complete [of 0 "?s ring_demo_added (ring_demo_oth 1 0) [0]" 48 "ring_demo_oth 1 1" "vring ring_demo_completed"] ring_demo_complete
    by (simp add: ring_demo_completed_def)
  have get: "vring_step (?s ring_demo_completed (ring_demo_oth 1 1) []) [Returned 7 48] (?s ring_demo_returned (ring_demo_oth 1 1) [])"
    using vs_get [of "?s ring_demo_completed (ring_demo_oth 1 1) []" 7 48 ring_demo_returned] ring_demo_get num by simp
  note more = steps_more [where step = vring_step]
  have "steps vring_step (?s ring_demo_vq (ring_demo_oth 0 0) []) ([] @ [Added 7 [(True, 0x5000, 64)]] @ [Taken 0 True [(0x5000, 64)]]
      @ [Completed 0 48] @ [Returned 7 48]) (?s ring_demo_returned (ring_demo_oth 1 1) [])"
    using more [OF more [OF more [OF more [OF steps_none add] take] complete] get] by simp
  then show ?thesis
    unfolding vring_run_def using ring_demo_start
    by (intro exI [of _ 0] exI [of _ 0] exI [of _ False] exI [of _ True] exI [of _ ring_demo_pages] exI [of _ ring_demo_vq] exI [of _ "ring_demo_oth 0 0"])
      simp
qed

theorem vring_delivers_in_order_witness:
  "\<exists>q. steps ring_spec_step ([], [], [], [])
     [Added 7 [(True, 0x5000, 64)], Taken 0 True [(0x5000, 64)], Completed 0 48, Returned 7 48] q"
  by (rule vring_delivers_in_order [OF ring_demo_run])

theorem vring_tokens_conserved_witness:
  "mset (added_tokens [Added 7 [(True, 0x5000, 64)], Taken 0 True [(0x5000, 64)], Completed 0 48, Returned 7 48]) =
     mset (returned_tokens [Added 7 [(True, 0x5000, 64)], Taken 0 True [(0x5000, 64)], Completed 0 48, Returned 7 48])
     + mset (filter (\<lambda>t. t \<noteq> 0) (data ring_demo_returned))"
  using vring_tokens_conserved [OF ring_demo_run] by simp


end
