(* ===== verification/Spec2Isabelle.thy ===== *)
theory Spec2Isabelle
  imports Vcablk_Requests Plx_Eeprom Lbp_Contract Dma_Queue Vring_System
begin

text \<open>
  Verification of the kernel modules of the Visual Compute Accelerator (VCA): PCIe cards with
  several computers on them, reached from the host through PLX 87xx bridges. All sources named
  below lie under \<open>src/modules/vca/\<close>.

  \<^bold>\<open>The program.\<close> The bridge driver (\<open>plx87xx/\<close>) runs on the host and on the cards. It programs the
  bridge: its address lookup table (A-LUT) opens windows from one side into the memory of the other,
  its scratchpads and doorbells carry words and events, its EEPROM holds its configuration. Through
  the scratchpads the host speaks the leveraged boot protocol (LBP) with the BIOS of a card, to boot
  it from a RAM disk or to flash it. The DMA driver (\<open>plx87xx_dma/\<close>) moves memory through the
  bridge. On top of these, virtual devices connect host and card: virtio devices over rings in
  shared memory (\<open>vca_virtio/\<close>), and a block device (\<open>blockio/\<close>), whose front end on the card
  sends requests through a ring to the back end on the host, which serves them from a file or a
  piece of memory.

  \<^bold>\<open>Theories and sources.\<close>

  \<^item> \<open>Vca_Prelude\<close>: machine words, error codes, the ways kernel code crashes (\<open>crash\<close>) or waits for ever
    (\<open>outcome\<close>), list and word lemmas, C bit fields. \<open>Runs\<close>: runs of labelled steps, and the
    interfaces of completion queues and of forward simulations. \<open>Ring_Window\<close>: rings with free
    running counters, shared by the virtio rings and the rings of the block device.

  \<^item> \<open>Vca_Common\<close>: the states of a card, their texts, and the file that shows and sets them
    (\<open>common/vca_common.h\<close>, \<open>vca_csa/vca_csa_sysfs.c\<close>).

  \<^item> \<open>Plx_Alm\<close>: the manager of the A-LUT (\<open>plx_alm.c\<close>), every function of the file on the record
    \<open>plx_alm\<close>. \<open>Lut_Manager\<close> is the interface through which the register code uses it.

  \<^item> \<open>Plx_Device\<close>: the device structure (\<open>plx_device.h\<close>) and register access. An operation is a
    function in the state monad over \<open>plx_device\<close>. \<open>Plx_Hw\<close>: requester id tables, A-LUT registers, bring-up,
    scratchpads, doorbells, windows and pins; \<open>Plx_Eeprom\<close>: the EEPROM (both \<open>plx_hw.c\<close>).

  \<^item> \<open>Plx_Lbp\<close>: the boot protocol (\<open>plx_lbp.c\<close>, \<open>plx_lbp_ifc.h\<close>); \<open>Lbp_Contract\<close>: what it promises.

  \<^item> \<open>Plx_Dma\<close>: the DMA driver (\<open>plx_dma.c\<close>) on the record \<open>plx_dma_chan\<close>; \<open>Dma_Ring\<close>: the invariant of
    its descriptor ring; \<open>Dma_Queue\<close>: a channel in use.

  \<^item> \<open>Vring\<close>: the memory of a virtio ring (\<open>uapi/vca_virtio_ring.h\<close>); \<open>Virtqueue\<close>: the driver side
    (\<open>vca_virtio_ring.c\<close>); \<open>Vringh\<close>: the other side (\<open>vca_vringh.c\<close>); \<open>Vring_Chain\<close>, \<open>Vring_Ops\<close>: chains of
    descriptors, and the operations on them; \<open>Vring_System\<close>: both sides together.

  \<^item> \<open>Vcablk_Pool\<close>: the pool of requests and of buffers (\<open>blockio/vcablk/vcablk_pool.h\<close>);
    \<open>Vcablk_Ring\<close>: the rings of the block device (\<open>blockio/vcablk_common/\<close>); \<open>Vcablk_Media\<close>: the storage
    (\<open>vcablk_bcknd_media.c\<close>); \<open>Vcablk_Bcknd\<close>: the back end (\<open>vcablk_bcknd_disk.c\<close>); \<open>Vcablk_Storage\<close>: its
    invariant and what transfers do; \<open>Vcablk_Requests\<close>: requests as a whole.

  Definitions have the names of the functions they model. A loop inside a function is a recursive
  function of its own, named after the function or its task (\<open>alm_search\<close>, \<open>ramdisk_loop\<close>,
  \<open>transfer_loop\<close>). Integers have the width of the sources, so that wrap-around is that of the code.

  \<^bold>\<open>The outside.\<close> What the sources do not define is a parameter. Register access takes a function that
  stands for the bridge, the other side and the clock (\<open>hw\<close>); it runs before each read and after each
  write and may change the registers and a state of its own. The DMA engine is such a function on
  registers and descriptors. Allocation, DMA mappings, files, user memory, and sleeping are functions
  of the number of the call, or fields of an environment record. The hypotheses on these parameters
  are predicates with a name: \<open>engine_ok\<close> (an engine only completes descriptors), \<open>files_work\<close> and \<open>media_works\<close> (a file system
  that reads and writes), \<open>bus_works\<close> (windows can be mapped, DMA succeeds). Each property with
  such a hypothesis has a witness with a concrete instance.

  \<^bold>\<open>What is shown.\<close>

  \<^item> A-LUT: tables stay rows of well formed blocks; a request finds a place exactly when there is one and
    never moves a mapping in use; release and clean-up; the wrap of the 16 bit counter. With the
    registers: the window handed out leads to the memory asked for, in every run, and a window that
    stays open after its mapping was freed.

  \<^item> EEPROM: the bit loop of the checksum is a shift register over dwords; what it detects; a
    successful update leaves the image in the chip; when the update ends, and the one size for which it never does.

  \<^item> Boot protocol: a RAM disk sent is in the memory of the card; states read back; waits end with the
    first matching look; timeouts stay within bounds; results within their enumeration; the handshake.

  \<^item> DMA: in every run a channel refines a first-in first-out queue of transactions, callbacks run once and in
    order; clean-up completes all; the descriptors of a transfer copy what was asked.

  \<^item> Virtio rings: in every interleaving of the operations of both sides the ring refines an abstract one
    of four queues; buffers arrive in order and intact and come back once; tokens are conserved; no operation gets stuck;
    with any contents of the ring the other side ends and stays within it.

  \<^item> Block device: the pool refines a free list; the rings are windows on a sequence; the back end serves the
    requests in its ring by moving exactly their bytes, answers each of them once, and gives buffers and windows back; what was
    written is read back. Four theorems show where it fails: flushes without data that are never answered, buffers lost on DMA errors, a test for
    the end of the storage that wraps, and write errors of a file that are reported as success.

  \<^bold>\<open>Interfaces.\<close> \<open>lut_manager\<close> (provided by \<open>Plx_Alm\<close>, used by \<open>Plx_Hw\<close>), \<open>id_pool\<close> (provided by
  \<open>Vcablk_Pool\<close>), \<open>completion_queue\<close> (provided by the channel of \<open>Dma_Queue\<close>), \<open>forward_simulation\<close> (provided by
  the ring of \<open>Vring_System\<close>). Each is interpreted on the model of the code.

  \<^bold>\<open>Loops and fuel.\<close> Loops that the hardware or shared memory may keep going have a bound on their
  rounds, and \<open>None\<close> (or \<open>Waits\<close>) when it is used up. The bounds are shown to be enough: the number of
  segments for the A-LUT search, more than the length of the image for the EEPROM and the RAM disk, the 2048 descriptors
  of the DMA ring for its clean-up, the size of the ring for chains of virtio descriptors, and 259 rounds, one more than a
  request has parts, together with one more than the number of requests, for the request thread of the block device. Waits of the
  boot protocol have the number of looks that their timeouts allow.

  \<^bold>\<open>Concurrency.\<close> Operations under one lock are atomic. Runs interleave whole operations of the two sides of
  a virtio ring, and of the clients, interrupts and steps of the engine of a DMA channel; the engine and
  the bridge also act between any two accesses to a register. In the block device the transfer thread finishes any number of
  transfers each time the request thread takes a buffer. Memory barriers and the reordering of accesses are not modelled. Both
  ends of a virtio ring have the byte order of the processor.

  \<^bold>\<open>Not modelled.\<close> Registration with the kernel and its callbacks (PCI, buses, sysfs, debugfs,
  character devices): these parts convert arguments and call the components above, or are interfaces of
  the kernel only. The virtio network driver and the transport of virtio over the bridge (\<open>vop/\<close>): threads, wait
  queues and the network stack. The front end of the block device (\<open>vcablk_disk.c\<close>) apart from its pool: its
  steps are those of the block layer of the kernel. The control page of the block device and the stopping of its threads: they
  follow commands of the user and wait for threads of the kernel. Indirect descriptor tables of the driver side are modelled, their effect on the
  other side is covered by the bounds only. The programs under \<open>src/apps/\<close>: user interfaces, configuration
  files and scripts around the character devices of the modules.
\<close>

end
